(* ===== verification/Prelude.thy ===== *)
theory Prelude
  imports Main "HOL-Library.Word" "HOL-Library.Monad_Syntax" "HOL-Library.Sublist"
begin

text \<open>
  Vocabulary shared by every component of kakekomi.

  Go values are represented as follows.  A Go \<open>string\<close> is an Isabelle \<open>string\<close>, whose
  characters are bytes, exactly as Go strings are byte sequences.  A \<open>[]byte\<close> is a list of
  8-bit words.  The conversions \<open>[]byte(s)\<close> and \<open>string(b)\<close> of the source are
  \<open>bytes_of\<close> and \<open>str_of\<close>.  An \<open>error\<close> is built by \<open>errors.New\<close>, by
  \<open>fmt.Errorf\<close> with a wrapped cause, or is one of the sentinel errors the code tests for.
  A Go pair \<open>(T, error)\<close> is \<open>error + 'a\<close>.  Signed 64-bit arithmetic that can wrap is
  written with \<open>i64\<close>.
\<close>

named_theorems go_defs \<open>definitions of string and byte helpers, for evaluation\<close>
named_theorems len_simps \<open>lengths of encoded values\<close>

type_synonym byte = "8 word"
type_synonym bytes = "byte list"
type_synonym path = "string list"

section \<open>Errors\<close>

datatype error =
    Err string
  | Wrap string error
  | ErrNotExist
  | ErrEOF
  | ErrNoRows
  | ErrIO string

fun err_Error :: "error \<Rightarrow> string" where
  "err_Error (Err m) = m"
| "err_Error (Wrap m e) = m @ '': '' @ err_Error e"
| "err_Error ErrNotExist = ''file does not exist''"
| "err_Error ErrEOF = ''EOF''"
| "err_Error ErrNoRows = ''sql: no rows in result set''"
| "err_Error (ErrIO m) = m"

abbreviation is_ok :: "error + 'a \<Rightarrow> bool" where
  "is_ok r \<equiv> (case r of Inl _ \<Rightarrow> False | Inr _ \<Rightarrow> True)"

lemma is_okE [elim]: "is_ok r \<Longrightarrow> (\<And>x. r = Inr x \<Longrightarrow> P) \<Longrightarrow> P"
  by (cases r) auto

section \<open>Bytes and strings\<close>

definition bytes_of :: "string \<Rightarrow> bytes" where
  "bytes_of s = map of_char s"

definition str_of :: "bytes \<Rightarrow> string" where
  "str_of b = map (\<lambda>w. char_of (unat w)) b"

lemma unat_of_char_byte [simp]: "unat (of_char c :: byte) = of_char c"
proof -
  have "(of_char c :: byte) = of_nat (of_char c :: nat)"
    by (simp only: of_nat_of_char)
  moreover have "(of_char c :: nat) < 256"
    by simp
  ultimately show ?thesis
    by (simp add: unsigned_of_nat take_bit_nat_eq_self del: of_nat_of_char)
qed

lemma of_char_byte_inverse [simp]: "char_of (of_char c :: nat) = c"
  by simp

lemma char_of_byte_inverse [simp]: "of_char (char_of (unat w)) = (w :: byte)"
proof -
  have "unat w < 2 ^ LENGTH(8)" by (rule unsigned_less)
  then have "unat w < 256" by simp
  then have "(of_char (char_of (unat w)) :: nat) = unat w" by simp
  then have "of_nat (of_char (char_of (unat w)) :: nat) = (of_nat (unat w) :: byte)"
    by (simp only:)
  then show ?thesis by (simp only: of_nat_of_char) simp
qed

lemma str_of_bytes_of [simp]: "str_of (bytes_of s) = s"
  by (simp add: str_of_def bytes_of_def comp_def)

lemma bytes_of_str_of [simp]: "bytes_of (str_of b) = b"
  by (simp add: str_of_def bytes_of_def comp_def)

lemma length_bytes_of [simp, len_simps]: "length (bytes_of s) = length s"
  by (simp add: bytes_of_def)

lemma length_str_of [simp, len_simps]: "length (str_of b) = length b"
  by (simp add: str_of_def)

lemma bytes_of_append [simp]: "bytes_of (s @ t) = bytes_of s @ bytes_of t"
  by (simp add: bytes_of_def)

lemma str_of_append [simp]: "str_of (a @ b) = str_of a @ str_of b"
  by (simp add: str_of_def)

lemma bytes_of_inj [simp]: "bytes_of s = bytes_of t \<longleftrightarrow> s = t"
  by (metis str_of_bytes_of)

lemma str_of_inj [simp]: "str_of a = str_of b \<longleftrightarrow> a = b"
  by (metis bytes_of_str_of)

lemma bytes_of_Nil [simp]: "bytes_of [] = []"
  by (simp add: bytes_of_def)

lemma str_of_Nil_iff [simp]: "str_of b = [] \<longleftrightarrow> b = []"
  by (simp add: str_of_def)

definition ordc :: "char \<Rightarrow> nat" where
  "ordc c = of_char c"

lemma ordc_less [simp]: "ordc c < 256"
  by (simp add: ordc_def)

lemma ordc_inj [simp]: "ordc c = ordc d \<longleftrightarrow> c = d"
  by (simp add: ordc_def)

lemma char_of_ordc [simp]: "char_of (ordc c) = c"
  by (simp add: ordc_def)

lemma ordc_char_of [simp]: "n < 256 \<Longrightarrow> ordc (char_of n) = n"
  by (simp add: ordc_def)

section \<open>Signed 64-bit integers\<close>

definition i64 :: "int \<Rightarrow> int" where
  "i64 x = sint (word_of_int x :: 64 word)"

lemma i64_id: "- (2 ^ 63) \<le> x \<Longrightarrow> x < 2 ^ 63 \<Longrightarrow> i64 x = x"
  unfolding i64_def by (simp add: signed_of_int signed_take_bit_int_eq_self)

lemma i64_range: "- (2 ^ 63) \<le> i64 x" "i64 x < 2 ^ 63"
  using sint_ge [of "word_of_int x :: 64 word"] sint_lt [of "word_of_int x :: 64 word"]
  by (simp_all add: i64_def)

section \<open>Lists\<close>

lemma list_all_set: "list_all P xs \<longleftrightarrow> (\<forall>x \<in> set xs. P x)"
  by (simp add: list_all_iff)

lemma takeWhile_all: "(\<forall>x \<in> set xs. P x) \<Longrightarrow> takeWhile P xs = xs"
  by (simp add: takeWhile_eq_all_conv)

lemma map_of_filter_ne: "map_of (filter (\<lambda>p. fst p \<noteq> k) al) x = (if x = k then None else map_of al x)"
  by (induction al) auto

lemma take_append_exact [simp]: "length xs = n \<Longrightarrow> take n (xs @ ys) = xs"
  by simp

lemma drop_append_exact [simp]: "length xs = n \<Longrightarrow> drop n (xs @ ys) = ys"
  by simp

lemma funpow_Suc_outer: "(f ^^ Suc n) x = (f ^^ n) (f x)"
  by (simp add: funpow_swap1)

section \<open>Runs of a machine\<close>

text \<open>A sequence of labelled steps of a machine.\<close>

inductive runs :: "('e \<Rightarrow> 's \<Rightarrow> 's \<Rightarrow> bool) \<Rightarrow> 's \<Rightarrow> 'e list \<Rightarrow> 's \<Rightarrow> bool" for step where
  nil: "runs step s [] s"
| snoc: "runs step s es s1 \<Longrightarrow> step e s1 s2 \<Longrightarrow> runs step s (es @ [e]) s2"

inductive_simps runs_nil [simp]: "runs step s [] s'"

inductive_cases runs_snocE: "runs step s (es @ [e]) s'"

lemma runs_one: "step e s s' \<Longrightarrow> runs step s [e] s'"
  using runs.snoc [OF runs.nil] by fastforce

end
