(* ===== verification/Go_Strings.thy ===== *)
theory Go_Strings
  imports Prelude
begin

text \<open>
  The parts of Go's \<open>strings\<close>, \<open>path\<close> and \<open>path/filepath\<close> packages that kakekomi calls,
  on byte strings (Unix file-path rules).  \<open>TrimSpace\<close> strips the UTF-8 encodings of all
  Unicode white space, \<open>Clean\<close> is the lexical path normalisation, \<open>Base\<close> and
  \<open>path_Join\<close> are defined over it as in the library.
\<close>

section \<open>Prefixes, suffixes, searching\<close>

definition HasPrefix :: "string \<Rightarrow> string \<Rightarrow> bool" where
  "HasPrefix s p = (take (length p) s = p)"

definition TrimPrefix :: "string \<Rightarrow> string \<Rightarrow> string" where
  "TrimPrefix s p = (if HasPrefix s p then drop (length p) s else s)"

fun str_Contains :: "string \<Rightarrow> string \<Rightarrow> bool" where
  "str_Contains [] t = (t = [])"
| "str_Contains (c # s) t = (HasPrefix (c # s) t \<or> str_Contains s t)"

definition ContainsAny :: "string \<Rightarrow> string \<Rightarrow> bool" where
  "ContainsAny s chars = list_ex (\<lambda>c. c \<in> set chars) s"

definition TrimRight :: "string \<Rightarrow> string \<Rightarrow> string" where
  "TrimRight s cutset = rev (dropWhile (\<lambda>c. c \<in> set cutset) (rev s))"

definition ReplaceChar :: "string \<Rightarrow> char \<Rightarrow> string \<Rightarrow> string" where
  "ReplaceChar s c r = concat (map (\<lambda>x. if x = c then r else [x]) s)"

definition ascii_lower :: "char \<Rightarrow> char" where
  "ascii_lower c = (if 65 \<le> ordc c \<and> ordc c \<le> 90 then char_of (ordc c + 32) else c)"

definition str_ToLower :: "string \<Rightarrow> string" where
  "str_ToLower s = map ascii_lower s"

fun split_on :: "char \<Rightarrow> string \<Rightarrow> string list" where
  "split_on d [] = [[]]"
| "split_on d (c # s) =
     (if c = d then [] # split_on d s
      else (case split_on d s of [] \<Rightarrow> [[c]] | x # xs \<Rightarrow> (c # x) # xs))"

fun str_Join :: "string list \<Rightarrow> string \<Rightarrow> string" where
  "str_Join [] sep = []"
| "str_Join [x] sep = x"
| "str_Join (x # y # xs) sep = x @ sep @ str_Join (y # xs) sep"

lemma HasPrefix_append [simp]: "HasPrefix (p @ s) p"
  by (simp add: HasPrefix_def)

lemma HasPrefix_iff: "HasPrefix s p \<longleftrightarrow> (\<exists>t. s = p @ t)"
  by (metis HasPrefix_append HasPrefix_def append_take_drop_id)

lemma HasPrefix_Nil [simp]: "HasPrefix s []"
  by (simp add: HasPrefix_def)

lemma HasPrefix_Cons [simp]:
  "HasPrefix (c # s) (d # t) \<longleftrightarrow> c = d \<and> HasPrefix s t" "\<not> HasPrefix [] (d # t)"
  by (auto simp: HasPrefix_def)

lemma TrimPrefix_append [simp]: "TrimPrefix (p @ s) p = s"
  by (simp add: TrimPrefix_def)

lemma str_Contains_iff: "str_Contains s t \<longleftrightarrow> (\<exists>a b. s = a @ t @ b)"
proof (induction s)
  case Nil
  then show ?case by auto
next
  case (Cons c s)
  show ?case
  proof
    assume "str_Contains (c # s) t"
    then consider "HasPrefix (c # s) t" | "str_Contains s t" by auto
    then show "\<exists>a b. c # s = a @ t @ b"
    proof cases
      case 1
      then show ?thesis by (metis HasPrefix_iff append_Nil)
    next
      case 2
      with Cons.IH show ?thesis by (metis append_Cons)
    qed
  next
    assume "\<exists>a b. c # s = a @ t @ b"
    then obtain a b where ab: "c # s = a @ t @ b" by blast
    show "str_Contains (c # s) t"
    proof (cases a)
      case Nil
      with ab have "HasPrefix (c # s) t" by (simp add: HasPrefix_iff)
      then show ?thesis by simp
    next
      case (Cons x xs)
      with ab have "s = xs @ t @ b" by simp
      with Cons.IH show ?thesis by auto
    qed
  qed
qed

lemma split_on_nonempty [simp]: "split_on d s \<noteq> []"
  by (induction s) (auto split: list.splits)

lemma split_on_no_sep: "x \<in> set (split_on d s) \<Longrightarrow> d \<notin> set x"
proof (induction s arbitrary: x)
  case Nil
  then show ?case by simp
next
  case (Cons c s)
  then show ?case by (cases "split_on d s") (auto split: if_splits)
qed

lemma split_on_id: "d \<notin> set s \<Longrightarrow> split_on d s = [s]"
  by (induction s) auto

lemma split_on_append: "split_on d (s @ d # t) = split_on d s @ split_on d t"
proof (induction s)
  case Nil
  then show ?case by simp
next
  case (Cons c s)
  then show ?case by (cases "split_on d s") (auto split: list.splits)
qed

lemma split_on_chars: "x \<in> set (split_on d s) \<Longrightarrow> set x \<subseteq> set s"
proof (induction s arbitrary: x)
  case Nil
  then show ?case by simp
next
  case (Cons c s)
  show ?case
  proof (cases "c = d")
    case True
    with Cons show ?thesis by auto
  next
    case False
    obtain y ys where y: "split_on d s = y # ys" by (cases "split_on d s") auto
    with False Cons.prems have "x = c # y \<or> x \<in> set ys" by auto
    with y Cons.IH [of y] Cons.IH [of x] show ?thesis by auto
  qed
qed

lemma split_on_Join:
  "xs \<noteq> [] \<Longrightarrow> (\<And>x. x \<in> set xs \<Longrightarrow> d \<notin> set x) \<Longrightarrow> split_on d (str_Join xs [d]) = xs"
  by (induction xs "[d]" rule: str_Join.induct) (auto simp: split_on_id split_on_append)

lemma str_Join_Cons: "xs \<noteq> [] \<Longrightarrow> str_Join (x # xs) sep = x @ sep @ str_Join xs sep"
  by (cases xs) auto

section \<open>White space\<close>

text \<open>The UTF-8 encodings of the code points for which \<open>unicode.IsSpace\<close> holds.\<close>

definition space_seqs :: "string list" where
  "space_seqs =
     map (\<lambda>n. [char_of (n :: nat)]) [9, 10, 11, 12, 13, 32]
     @ map (map (char_of :: nat \<Rightarrow> char))
         [[0xC2, 0x85], [0xC2, 0xA0], [0xE1, 0x9A, 0x80], [0xE2, 0x80, 0xA8], [0xE2, 0x80, 0xA9],
          [0xE2, 0x80, 0xAF], [0xE2, 0x81, 0x9F], [0xE3, 0x80, 0x80]]
     @ map (\<lambda>n. map char_of [0xE2, 0x80, 0x80 + n]) [0 ..< 11]"

lemma space_seqs_nonempty: "q \<in> set space_seqs \<Longrightarrow> q \<noteq> []"
  by (auto simp: space_seqs_def)

definition strip_one :: "string list \<Rightarrow> string \<Rightarrow> string option" where
  "strip_one qs s = (case find (\<lambda>q. q \<noteq> [] \<and> HasPrefix s q) qs of None \<Rightarrow> None
     | Some q \<Rightarrow> Some (drop (length q) s))"

lemma strip_one_shorter: "strip_one qs s = Some t \<Longrightarrow> length t < length s"
proof -
  assume "strip_one qs s = Some t"
  then obtain q where q: "find (\<lambda>q. q \<noteq> [] \<and> HasPrefix s q) qs = Some q"
    and t: "t = drop (length q) s"
    by (auto simp: strip_one_def split: option.splits)
  from q have "q \<noteq> []" and "HasPrefix s q" by (auto simp: find_Some_iff)
  with t show ?thesis by (auto simp: HasPrefix_iff)
qed

function strip_all :: "string list \<Rightarrow> string \<Rightarrow> string" where
  "strip_all qs s = (case strip_one qs s of None \<Rightarrow> s | Some t \<Rightarrow> strip_all qs t)"
  by pat_completeness auto
termination
  by (relation "measure (\<lambda>(qs, s). length s)") (auto dest: strip_one_shorter)

declare strip_all.simps [simp del]

definition TrimLeftSpace :: "string \<Rightarrow> string" where
  "TrimLeftSpace s = strip_all space_seqs s"

definition TrimRightSpace :: "string \<Rightarrow> string" where
  "TrimRightSpace s = rev (strip_all (map rev space_seqs) (rev s))"

definition TrimSpace :: "string \<Rightarrow> string" where
  "TrimSpace s = TrimRightSpace (TrimLeftSpace s)"

definition space_char :: "char \<Rightarrow> bool" where
  "space_char c \<longleftrightarrow> ordc c < 33 \<or> 127 < ordc c"

lemma space_seqs_chars: "q \<in> set space_seqs \<Longrightarrow> c \<in> set q \<Longrightarrow> space_char c"
  by (auto simp: space_seqs_def space_char_def ordc_def)

lemma strip_one_None:
  assumes "\<forall>q \<in> set qs. \<forall>c \<in> set q. space_char c" and "s = [] \<or> \<not> space_char (hd s)"
  shows "strip_one qs s = None"
proof -
  have "\<not> (q \<noteq> [] \<and> HasPrefix s q)" if "q \<in> set qs" for q
    using assms that by (cases q; cases s) auto
  then have "find (\<lambda>q. q \<noteq> [] \<and> HasPrefix s q) qs = None"
    by (simp add: find_None_iff)
  then show ?thesis by (simp add: strip_one_def)
qed

lemma strip_all_id:
  assumes "\<forall>q \<in> set qs. \<forall>c \<in> set q. space_char c" and "s = [] \<or> \<not> space_char (hd s)"
  shows "strip_all qs s = s"
  using strip_one_None [OF assms] by (simp add: strip_all.simps)

lemma TrimSpace_id:
  assumes "s = [] \<or> \<not> space_char (hd s)" and "s = [] \<or> \<not> space_char (last s)"
  shows "TrimSpace s = s"
proof -
  have "TrimLeftSpace s = s"
    unfolding TrimLeftSpace_def using assms(1)
    by (intro strip_all_id) (auto dest: space_seqs_chars)
  moreover have "strip_all (map rev space_seqs) (rev s) = rev s"
    using assms(2) by (intro strip_all_id) (auto dest: space_seqs_chars simp: hd_rev)
  ultimately show ?thesis by (simp add: TrimSpace_def TrimRightSpace_def)
qed

lemma TrimSpace_plain:
  assumes "\<forall>c \<in> set s. \<not> space_char c"
  shows "TrimSpace s = s"
  using assms by (intro TrimSpace_id) auto

lemma strip_one_newline: "strip_one (map rev space_seqs) (CHR 0x0A # t) = Some t"
proof -
  have "char_of (9 :: nat) = CHR 0x09" "char_of (10 :: nat) = CHR 0x0A"
    by (simp_all add: char_of_def bit_0)
  then obtain rest where "map rev space_seqs = [CHR 0x09] # [CHR 0x0A] # rest"
    by (simp add: space_seqs_def)
  then show ?thesis by (simp add: strip_one_def HasPrefix_def)
qed

lemma TrimSpace_line:
  assumes "s \<noteq> []" and "\<forall>c \<in> set s. \<not> space_char c"
  shows "TrimSpace (s @ [CHR 0x0A]) = s"
proof -
  have "TrimLeftSpace (s @ [CHR 0x0A]) = s @ [CHR 0x0A]"
    unfolding TrimLeftSpace_def using assms
    by (intro strip_all_id) (auto dest: space_seqs_chars)
  moreover have "strip_all (map rev space_seqs) (rev s) = rev s"
    using assms by (intro strip_all_id) (auto dest: space_seqs_chars simp: hd_rev)
  then have "strip_all (map rev space_seqs) (rev (s @ [CHR 0x0A])) = rev s"
    by (subst strip_all.simps) (simp add: strip_one_newline)
  ultimately show ?thesis by (simp add: TrimSpace_def TrimRightSpace_def)
qed

lemma TrimSpace_Nil [simp]: "TrimSpace [] = []"
  by (rule TrimSpace_id) auto

lemma strip_all_subset: "set (strip_all qs s) \<subseteq> set s"
proof (induction qs s rule: strip_all.induct)
  case (1 qs s)
  show ?case
  proof (cases "strip_one qs s")
    case None
    then show ?thesis by (simp add: strip_all.simps [of qs s])
  next
    case (Some t)
    then have "set t \<subseteq> set s"
      by (auto simp: strip_one_def split: option.splits dest: in_set_dropD)
    with "1.IH" [OF Some] Some show ?thesis by (auto simp: strip_all.simps [of qs s])
  qed
qed

lemma TrimSpace_subset: "set (TrimSpace s) \<subseteq> set s"
proof -
  have "set (strip_all (map rev space_seqs) (rev (strip_all space_seqs s))) \<subseteq> set s"
    using strip_all_subset [of "map rev space_seqs" "rev (strip_all space_seqs s)"]
      strip_all_subset [of space_seqs s] by auto
  then show ?thesis by (simp add: TrimSpace_def TrimLeftSpace_def TrimRightSpace_def)
qed

section \<open>Paths\<close>

definition slash :: char where "slash = CHR 0x2F"

fun clean_step :: "bool \<Rightarrow> string list \<Rightarrow> string \<Rightarrow> string list" where
  "clean_step rooted out c =
     (if c = [] \<or> c = ''.'' then out
      else if c = ''..'' then
        (case out of
           [] \<Rightarrow> (if rooted then [] else [''..''])
         | t # r \<Rightarrow> (if t = ''..'' then ''..'' # out else r))
      else c # out)"

definition clean_comps :: "bool \<Rightarrow> string list \<Rightarrow> string list" where
  "clean_comps rooted cs = rev (foldl (clean_step rooted) [] cs)"

definition Clean :: "string \<Rightarrow> string" where
  "Clean p =
     (if p = [] then ''.''
      else let rooted = (hd p = slash); out = clean_comps rooted (split_on slash p)
           in if rooted then slash # str_Join out [slash]
              else if out = [] then ''.'' else str_Join out [slash])"

definition path_Join :: "string list \<Rightarrow> string" where
  "path_Join elems =
     (case dropWhile (\<lambda>e. e = []) elems of [] \<Rightarrow> [] | es \<Rightarrow> Clean (str_Join es [slash]))"

definition Base :: "string \<Rightarrow> string" where
  "Base p =
     (if p = [] then ''.''
      else let q = rev (dropWhile (\<lambda>c. c = slash) (rev p));
               b = rev (takeWhile (\<lambda>c. c \<noteq> slash) (rev q))
           in if b = [] then [slash] else b)"

text \<open>A plain component is one that \<open>Clean\<close> keeps as it is.\<close>

definition plain_comp :: "string \<Rightarrow> bool" where
  "plain_comp c \<longleftrightarrow> c \<noteq> [] \<and> c \<noteq> ''.'' \<and> c \<noteq> ''..'' \<and> slash \<notin> set c"

lemma foldl_clean_plain:
  "(\<And>c. c \<in> set cs \<Longrightarrow> plain_comp c) \<Longrightarrow> foldl (clean_step rooted) out cs = rev cs @ out"
  by (induction cs arbitrary: out) (auto simp: plain_comp_def)

lemma clean_comps_plain:
  "(\<And>c. c \<in> set cs \<Longrightarrow> plain_comp c) \<Longrightarrow> clean_comps rooted cs = cs"
  by (simp add: clean_comps_def foldl_clean_plain)

lemma foldl_clean_no_dotdot:
  assumes "''..'' \<notin> set cs"
  shows "foldl (clean_step rooted) out cs = rev (filter (\<lambda>c. c \<noteq> [] \<and> c \<noteq> ''.'') cs) @ out"
  using assms by (induction cs arbitrary: out) auto

lemma clean_comps_no_dotdot:
  "''..'' \<notin> set cs \<Longrightarrow> clean_comps rooted cs = filter (\<lambda>c. c \<noteq> [] \<and> c \<noteq> ''.'') cs"
  by (simp add: clean_comps_def foldl_clean_no_dotdot)

lemma Base_no_slash: "slash \<notin> set (Base p) \<or> Base p = [slash]"
proof (cases "p = []")
  case True
  then show ?thesis by (simp add: Base_def slash_def)
next
  case False
  then show ?thesis
    by (auto simp: Base_def Let_def dest: set_takeWhileD)
qed

lemma Base_plain: "plain_comp c \<Longrightarrow> Base c = c"
proof -
  assume c: "plain_comp c"
  then have ne: "c \<noteq> []" and ns: "\<forall>x \<in> set (rev c). x \<noteq> slash"
    by (auto simp: plain_comp_def)
  have "dropWhile (\<lambda>x. x = slash) (rev c) = rev c"
    using ne ns by (cases "rev c") auto
  with ne ns show ?thesis by (simp add: Base_def Let_def takeWhile_all)
qed

text \<open>A file path as a list of components: \<open>join_comps\<close> is \<open>filepath.Join\<close> on a cleaned
  base, with the working directory as the root of the tree, and \<open>os_path\<close> is how the operating
  system resolves a path string.\<close>

definition join_comps :: "path \<Rightarrow> string list \<Rightarrow> path" where
  "join_comps base cs = clean_comps True (base @ concat (map (split_on slash) cs))"

definition os_path :: "string \<Rightarrow> path" where
  "os_path p = clean_comps True (split_on slash p)"

lemma plain_no_slash: "plain_comp c \<Longrightarrow> split_on slash c = [c]"
  by (auto simp: plain_comp_def split_on_id)

lemma join_comps_plain:
  "list_all plain_comp base \<Longrightarrow> list_all plain_comp cs \<Longrightarrow> join_comps base cs = base @ cs"
proof -
  assume b: "list_all plain_comp base" and c: "list_all plain_comp cs"
  have "concat (map (split_on slash) cs) = cs"
    using c by (induction cs) (auto simp: plain_no_slash)
  moreover have "clean_comps True (base @ cs) = base @ cs"
    using b c by (intro clean_comps_plain) (auto simp: list_all_set)
  ultimately show ?thesis by (simp add: join_comps_def)
qed

lemmas go_string_defs [go_defs] =
  HasPrefix_def TrimPrefix_def ContainsAny_def TrimRight_def ReplaceChar_def
  str_ToLower_def ascii_lower_def

end
