(* ===== verification/Flags.thy ===== *)
theory Flags
  imports Go_Strings
begin

text \<open>
  Package \<open>flag\<close> as the commands of \<open>cmd/\<close> use it: a set of string and boolean flags with their
  defaults, and \<open>FlagSet.Parse\<close> over the arguments after the name of the command.  Every command
  passes \<open>flag.ExitOnError\<close>, so a failure of \<open>Parse\<close> never returns to the command: \<open>-help\<close> ends
  the process with status 0, any other failure with status 2.
\<close>

section \<open>Parsing\<close>

datatype flag_value = StrFlag string | BoolFlag bool

type_synonym flag_set = "(string \<times> flag_value) list"

datatype flag_error = ErrHelp | FlagErr string

definition dash :: char where "dash = CHR 0x2D"

definition ParseBool :: "string \<Rightarrow> bool option" where
  "ParseBool s =
     (if s \<in> {''1'', ''t'', ''T'', ''true'', ''TRUE'', ''True''} then Some True
      else if s \<in> {''0'', ''f'', ''F'', ''false'', ''FALSE'', ''False''} then Some False
      else None)"

definition flag_set_value :: "string \<Rightarrow> flag_value \<Rightarrow> flag_set \<Rightarrow> flag_set" where
  "flag_set_value n v fs = map (\<lambda>(k, u). if k = n then (k, v) else (k, u)) fs"

text \<open>The name of a flag ends at the first equals sign that is not its first character.\<close>

definition split_flag :: "string \<Rightarrow> string \<times> string option" where
  "split_flag name =
     (let k = takeWhile (\<lambda>c. c \<noteq> CHR ''='') (tl name) in
      if length k + 1 < length name then (hd name # k, Some (drop (length k + 2) name)) else (name, None))"

text \<open>One step of the parser: a flag was seen, the flags end here, or the arguments are refused.\<close>

datatype parse_step = Seen flag_set "string list" | Done "string list" | Failed flag_error

definition set_flag :: "flag_set \<Rightarrow> string \<Rightarrow> string option \<Rightarrow> string list \<Rightarrow> parse_step" where
  "set_flag fs name value args =
     (case map_of fs name of
        None \<Rightarrow> Failed (if name = ''help'' \<or> name = ''h'' then ErrHelp
                   else FlagErr (''flag provided but not defined: -'' @ name))
      | Some (BoolFlag _) \<Rightarrow>
          (case value of
             None \<Rightarrow> Seen (flag_set_value name (BoolFlag True) fs) args
           | Some v \<Rightarrow> (case ParseBool v of
               None \<Rightarrow> Failed (FlagErr (''invalid boolean value for -'' @ name))
             | Some b \<Rightarrow> Seen (flag_set_value name (BoolFlag b) fs) args))
      | Some (StrFlag _) \<Rightarrow>
          (case value of
             Some v \<Rightarrow> Seen (flag_set_value name (StrFlag v) fs) args
           | None \<Rightarrow> (case args of
               [] \<Rightarrow> Failed (FlagErr (''flag needs an argument: -'' @ name))
             | v # rest \<Rightarrow> Seen (flag_set_value name (StrFlag v) fs) rest)))"

definition parseOne :: "flag_set \<Rightarrow> string list \<Rightarrow> parse_step" where
  "parseOne fs args =
     (case args of
        [] \<Rightarrow> Done []
      | s # rest \<Rightarrow>
          (if length s < 2 \<or> hd s \<noteq> dash then Done (s # rest)
           else if s = [dash, dash] then Done rest
           else let name = (if s ! 1 = dash then drop 2 s else drop 1 s) in
             if name = [] \<or> hd name = dash \<or> hd name = CHR ''='' then Failed (FlagErr (''bad flag syntax: '' @ s))
             else set_flag fs (fst (split_flag name)) (snd (split_flag name)) rest))"

lemma set_flag_shorter: "set_flag fs name value args = Seen fs' rest \<Longrightarrow> length rest \<le> length args"
  by (auto simp: set_flag_def split: list.splits option.splits flag_value.splits)

lemma parseOne_shorter: "parseOne fs args = Seen fs' rest \<Longrightarrow> length rest < length args"
  by (auto simp: parseOne_def Let_def less_Suc_eq_le split: list.splits if_splits dest: set_flag_shorter)

function flag_Parse :: "flag_set \<Rightarrow> string list \<Rightarrow> flag_error + flag_set \<times> string list" where
  "flag_Parse fs args =
     (case parseOne fs args of
        Seen fs' rest \<Rightarrow> flag_Parse fs' rest
      | Done rest \<Rightarrow> Inr (fs, rest)
      | Failed e \<Rightarrow> Inl e)"
  by pat_completeness auto
termination
  by (relation "measure (\<lambda>(fs, args). length args)") (auto dest: parseOne_shorter)

declare flag_Parse.simps [simp del]

fun get_string :: "flag_set \<Rightarrow> string \<Rightarrow> string" where
  "get_string fs n = (case map_of fs n of Some (StrFlag s) \<Rightarrow> s | _ \<Rightarrow> [])"

fun get_bool :: "flag_set \<Rightarrow> string \<Rightarrow> bool" where
  "get_bool fs n = (case map_of fs n of Some (BoolFlag b) \<Rightarrow> b | _ \<Rightarrow> False)"

section \<open>Laws\<close>

lemma map_of_flag_set: "map_of (flag_set_value n v fs) k = (if k = n then map_option (\<lambda>_. v) (map_of fs k) else map_of fs k)"
  by (induction fs) (auto simp: flag_set_value_def)

lemma keys_flag_set [simp]: "map fst (flag_set_value n v fs) = map fst fs"
  by (induction fs) (auto simp: flag_set_value_def)

text \<open>Names a flag can have: not empty, no equals sign, and not a dash at the front.\<close>

definition flag_name :: "string \<Rightarrow> bool" where
  "flag_name n \<longleftrightarrow> n \<noteq> [] \<and> CHR ''='' \<notin> set n \<and> hd n \<noteq> dash"

lemma split_flag_plain: "flag_name n \<Longrightarrow> split_flag n = (n, None)"
proof -
  assume n: "flag_name n"
  then obtain c m where c: "n = c # m" by (cases n) (auto simp: flag_name_def)
  with n have "takeWhile (\<lambda>c. c \<noteq> CHR ''='') m = m" by (auto simp: flag_name_def intro!: takeWhile_all)
  with c show ?thesis by (simp add: split_flag_def Let_def del: takeWhile_eq_all_conv)
qed

lemma split_flag_value: "flag_name n \<Longrightarrow> split_flag (n @ CHR ''='' # v) = (n, Some v)"
proof -
  assume n: "flag_name n"
  then obtain c m where c: "n = c # m" by (cases n) (auto simp: flag_name_def)
  with n have "takeWhile (\<lambda>c. c \<noteq> CHR ''='') (m @ CHR ''='' # v) = m"
    by (subst takeWhile_append2) (auto simp: flag_name_def)
  with c show ?thesis by (simp add: split_flag_def Let_def)
qed

text \<open>A flag and the value a user means, and the arguments that say so: \<open>--name=value\<close>,
  \<open>--name value\<close> for a string flag, \<open>--name\<close> for a boolean one that is to be set, and the same with
  a single dash.\<close>

datatype spelling = Joined bool string string | Spaced bool string string | Bare bool string

fun dashes :: "bool \<Rightarrow> string" where
  "dashes d = (if d then [dash, dash] else [dash])"

fun spell :: "spelling \<Rightarrow> string list" where
  "spell (Joined d n v) = [dashes d @ n @ CHR ''='' # v]"
| "spell (Spaced d n v) = [dashes d @ n, v]"
| "spell (Bare d n) = [dashes d @ n]"

text \<open>What a spelling means for a set of flags; \<open>None\<close> when the flag does not exist or the value
  does not fit it.\<close>

fun meaning :: "flag_set \<Rightarrow> spelling \<Rightarrow> (string \<times> flag_value) option" where
  "meaning fs (Joined d n v) = (case map_of fs n of
     Some (StrFlag _) \<Rightarrow> Some (n, StrFlag v)
   | Some (BoolFlag _) \<Rightarrow> map_option (\<lambda>b. (n, BoolFlag b)) (ParseBool v)
   | None \<Rightarrow> None)"
| "meaning fs (Spaced d n v) = (case map_of fs n of Some (StrFlag _) \<Rightarrow> Some (n, StrFlag v) | _ \<Rightarrow> None)"
| "meaning fs (Bare d n) = (case map_of fs n of Some (BoolFlag _) \<Rightarrow> Some (n, BoolFlag True) | _ \<Rightarrow> None)"

fun apply_all :: "flag_set \<Rightarrow> spelling list \<Rightarrow> flag_set option" where
  "apply_all fs [] = Some fs"
| "apply_all fs (s # ss) = (case meaning fs s of None \<Rightarrow> None | Some (n, v) \<Rightarrow> apply_all (flag_set_value n v fs) ss)"

text \<open>An argument at which the flags end.\<close>

definition flags_end :: "string list \<Rightarrow> bool" where
  "flags_end args = (case args of [] \<Rightarrow> True | s # _ \<Rightarrow> length s < 2 \<or> hd s \<noteq> dash)"

lemma parseOne_name:
  assumes "flag_name n" and "u = [] \<or> (\<exists>v. u = CHR ''='' # v)"
  shows "parseOne fs ((dashes d @ n @ u) # rest)
    = set_flag fs n (if u = [] then None else Some (tl u)) rest"
proof -
  from assms(1) obtain c m where c: "n = c # m" "c \<noteq> dash" "c \<noteq> CHR ''=''"
    by (cases n) (auto simp: flag_name_def)
  have sp: "split_flag (c # m @ u) = (n, if u = [] then None else Some (tl u))"
    using assms split_flag_plain [OF assms(1)] split_flag_value [OF assms(1)] c(1) by auto
  show ?thesis
    using c sp by (cases d) (simp_all add: parseOne_def Let_def)
qed

lemma parse_spell:
  assumes "\<forall>k \<in> set (map fst fs). flag_name k" and "meaning fs s = Some (n, v)"
  shows "parseOne fs (spell s @ rest) = Seen (flag_set_value n v fs) rest"
proof -
  have name: "flag_name k" if "map_of fs k = Some x" for k x
    using that assms(1) by (force dest: map_of_SomeD)
  show ?thesis
  proof (cases s)
    case (Joined d k u)
    with assms(2) obtain x where "map_of fs k = Some x" by (auto split: option.splits)
    with parseOne_name [OF name [OF this], of "CHR ''='' # u" fs d rest] Joined assms(2) show ?thesis
      by (auto simp: set_flag_def split: flag_value.splits option.splits)
  next
    case (Spaced d k u)
    with assms(2) obtain x where "map_of fs k = Some (StrFlag x)" by (auto split: option.splits flag_value.splits)
    with parseOne_name [OF name [OF this], of "[]" fs d "u # rest"] Spaced assms(2) show ?thesis
      by (auto simp: set_flag_def)
  next
    case (Bare d k)
    with assms(2) obtain x where "map_of fs k = Some (BoolFlag x)" by (auto split: option.splits flag_value.splits)
    with parseOne_name [OF name [OF this], of "[]" fs d rest] Bare assms(2) show ?thesis
      by (auto simp: set_flag_def)
  qed
qed

lemma parse_end: "flags_end rest \<Longrightarrow> flag_Parse fs rest = Inr (fs, rest)"
  by (auto simp: flag_Parse.simps [of fs rest] parseOne_def flags_end_def split: list.splits)

lemma parse_spelled:
  assumes "apply_all fs ss = Some fs'" and "\<forall>k \<in> set (map fst fs). flag_name k" and "flags_end rest"
  shows "flag_Parse fs (concat (map spell ss) @ rest) = Inr (fs', rest)"
  using assms(1,2)
proof (induction ss arbitrary: fs)
  case Nil
  with parse_end [OF assms(3)] show ?case by simp
next
  case (Cons s ss)
  then obtain n v where m: "meaning fs s = Some (n, v)" "apply_all (flag_set_value n v fs) ss = Some fs'"
    by (auto split: option.splits)
  have "flag_Parse (flag_set_value n v fs) (concat (map spell ss) @ rest) = Inr (fs', rest)"
    using Cons(1) [OF m(2)] Cons(3) keys_flag_set by simp
  with parse_spell [OF Cons(3) m(1), of "concat (map spell ss) @ rest"] show ?case
    by (simp add: flag_Parse.simps [of fs])
qed

end
