(* ===== verification/Codec.thy ===== *)
theory Codec
  imports Go_Strings
begin

text \<open>
  Byte-level encodings: \<open>encoding/hex\<close>, \<open>encoding/binary.BigEndian\<close> and
  \<open>crypto/subtle.ConstantTimeCompare\<close>, with the interface locale \<open>codec\<close> that every
  encoder/decoder pair of the program satisfies (hex strings here, the blob envelope of the
  server and of the viewer in their own theories).
\<close>

section \<open>The codec interface\<close>

locale codec =
  fixes enc :: "'a \<Rightarrow> 'b" and dec :: "'b \<Rightarrow> 'a option" and valid :: "'a \<Rightarrow> bool"
  assumes dec_enc: "valid x \<Longrightarrow> dec (enc x) = Some x"
begin

lemma enc_inj: "valid x \<Longrightarrow> valid y \<Longrightarrow> enc x = enc y \<longleftrightarrow> x = y"
  by (metis dec_enc option.inject)

lemma inj_on_enc: "inj_on enc {x. valid x}"
  by (auto simp: inj_on_def enc_inj)

lemma dec_reject: "dec b \<noteq> Some x \<Longrightarrow> valid x \<Longrightarrow> b \<noteq> enc x"
  by (auto simp: dec_enc)

end

text \<open>A codec whose encodings have a length determined by the input's.\<close>

locale sized_codec = codec enc dec valid
  for enc :: "'a list \<Rightarrow> 'b list" and dec :: "'b list \<Rightarrow> 'a list option"
    and valid :: "'a list \<Rightarrow> bool" +
  fixes factor :: nat
  assumes enc_length: "length (enc x) = factor * length x" and factor_pos: "0 < factor"
begin

lemma enc_length_iff: "length (enc x) = factor * n \<longleftrightarrow> length x = n"
  using factor_pos by (simp add: enc_length)

lemma enc_Nil_iff: "enc x = [] \<longleftrightarrow> x = []"
  using factor_pos enc_length [of x] by (metis length_0_conv mult_is_0 less_irrefl)

end

section \<open>Hexadecimal\<close>

definition hex_digit :: "nat \<Rightarrow> char" where
  "hex_digit n = char_of (if n < 10 then 48 + n else 87 + n)"

definition from_hex :: "char \<Rightarrow> nat option" where
  "from_hex c = (let n = ordc c in
     if 48 \<le> n \<and> n \<le> 57 then Some (n - 48)
     else if 97 \<le> n \<and> n \<le> 102 then Some (n - 87)
     else if 65 \<le> n \<and> n \<le> 70 then Some (n - 55)
     else None)"

fun hex_EncodeToString :: "bytes \<Rightarrow> string" where
  "hex_EncodeToString [] = []"
| "hex_EncodeToString (b # bs) =
     hex_digit (unat b div 16) # hex_digit (unat b mod 16) # hex_EncodeToString bs"

fun hex_DecodeString :: "string \<Rightarrow> bytes option" where
  "hex_DecodeString [] = Some []"
| "hex_DecodeString [c] = None"
| "hex_DecodeString (c # d # s) =
     (case (from_hex c, from_hex d) of
        (Some h, Some l) \<Rightarrow>
          (case hex_DecodeString s of None \<Rightarrow> None
           | Some bs \<Rightarrow> Some (of_nat (16 * h + l) # bs))
      | _ \<Rightarrow> None)"

lemma from_hex_digit [simp]: "n < 16 \<Longrightarrow> from_hex (hex_digit n) = Some n"
  by (auto simp: from_hex_def hex_digit_def Let_def)

lemma unat_byte_less [simp]: "unat (b :: byte) < 256"
proof -
  have "unat b < 2 ^ LENGTH(8)" by (rule unsigned_less)
  then show ?thesis by simp
qed

lemma unat_byte_div [simp]: "unat (b :: byte) div 16 < 16"
  using unat_byte_less [of b] by linarith

lemma hex_decode_encode [simp]: "hex_DecodeString (hex_EncodeToString bs) = Some bs"
  by (induction bs) auto

lemma length_hex_encode [simp, len_simps]: "length (hex_EncodeToString bs) = 2 * length bs"
  by (induction bs) auto

interpretation hexc: sized_codec hex_EncodeToString hex_DecodeString "\<lambda>_. True" 2
  by unfold_locales auto

definition lower_hex_char :: "char \<Rightarrow> bool" where
  "lower_hex_char c \<longleftrightarrow>
     (48 \<le> ordc c \<and> ordc c \<le> 57) \<or> (97 \<le> ordc c \<and> ordc c \<le> 102)"

lemma hex_digit_lower: "n < 16 \<Longrightarrow> lower_hex_char (hex_digit n)"
  by (auto simp: lower_hex_char_def hex_digit_def)

lemma hex_encode_lower: "c \<in> set (hex_EncodeToString bs) \<Longrightarrow> lower_hex_char c"
  by (induction bs) (auto intro: hex_digit_lower)

lemma lower_hex_not_space: "lower_hex_char c \<Longrightarrow> \<not> space_char c"
  by (auto simp: lower_hex_char_def space_char_def)

lemma TrimSpace_hex [simp]: "TrimSpace (hex_EncodeToString bs) = hex_EncodeToString bs"
  by (intro TrimSpace_plain) (auto dest: hex_encode_lower lower_hex_not_space)

lemma lower_hex_not_slash: "lower_hex_char c \<Longrightarrow> c \<noteq> slash"
  by (auto simp: lower_hex_char_def slash_def ordc_def)

lemma length_hex_decode: "hex_DecodeString s = Some bs \<Longrightarrow> length s = 2 * length bs"
  by (induction s arbitrary: bs rule: hex_DecodeString.induct) (auto split: option.splits)

section \<open>Big-endian integers\<close>

fun be_bytes :: "nat \<Rightarrow> nat \<Rightarrow> bytes" where
  "be_bytes 0 v = []"
| "be_bytes (Suc n) v = be_bytes n (v div 256) @ [of_nat (v mod 256)]"

definition be_val :: "bytes \<Rightarrow> nat" where
  "be_val bs = foldl (\<lambda>a b. a * 256 + unat b) 0 bs"

lemma length_be_bytes [simp, len_simps]: "length (be_bytes n v) = n"
  by (induction n arbitrary: v) auto

lemma unat_of_nat_byte [simp]: "unat (of_nat n :: byte) = n mod 256"
  by (simp add: unsigned_of_nat take_bit_eq_mod)

lemma be_val_be_bytes: "be_val (be_bytes n v) = v mod 256 ^ n"
proof (induction n arbitrary: v)
  case 0
  then show ?case by (simp add: be_val_def)
next
  case (Suc n)
  have "be_val (be_bytes (Suc n) v) = be_val (be_bytes n (v div 256)) * 256 + v mod 256"
    by (simp add: be_val_def)
  also have "\<dots> = ((v div 256) mod 256 ^ n) * 256 + v mod 256"
    by (simp add: Suc.IH)
  also have "\<dots> = v mod 256 ^ Suc n"
    by (simp add: mod_mult2_eq mult.commute)
  finally show ?case .
qed

lemma be_val_less: "be_val bs < 256 ^ length bs"
proof (induction bs rule: rev_induct)
  case Nil
  then show ?case by (simp add: be_val_def)
next
  case (snoc b bs)
  have "be_val (bs @ [b]) = be_val bs * 256 + unat b" by (simp add: be_val_def)
  also have "\<dots> < be_val bs * 256 + 256" using unat_byte_less [of b] by simp
  also have "\<dots> \<le> 256 ^ length bs * 256"
    using snoc.IH by (metis Suc_leI add.commute mult.commute mult_Suc_right mult_le_mono2)
  finally show ?case by (simp add: mult.commute)
qed

lemma be_bytes_be_val: "length bs = n \<Longrightarrow> be_bytes n (be_val bs) = bs"
proof (induction n arbitrary: bs)
  case 0
  then show ?case by simp
next
  case (Suc n)
  then obtain cs b where bs: "bs = cs @ [b]" and len: "length cs = n"
    by (metis length_Suc_conv_rev)
  have v: "be_val bs = be_val cs * 256 + unat b" by (simp add: be_val_def bs)
  have "be_val bs div 256 = be_val cs" and "be_val bs mod 256 = unat b"
    using unat_byte_less [of b] by (simp_all add: v)
  then show ?case by (simp add: bs Suc.IH [OF len])
qed

section \<open>Constant-time comparison\<close>

unbundle bit_operations_syntax

definition ConstantTimeCompare :: "bytes \<Rightarrow> bytes \<Rightarrow> int" where
  "ConstantTimeCompare x y =
     (if length x \<noteq> length y then 0
      else if foldl (\<lambda>v (a, b). v OR (a XOR b)) 0 (zip x y) = 0 then 1 else 0)"

definition hmac_Equal :: "bytes \<Rightarrow> bytes \<Rightarrow> bool" where
  "hmac_Equal x y = (ConstantTimeCompare x y = 1)"

lemma word_or_eq_0: "(v OR w :: 'a :: len word) = 0 \<longleftrightarrow> v = 0 \<and> w = 0"
  by (auto simp: or_eq_0_iff)

lemma word_xor_eq_0: "(v XOR w :: 'a :: len word) = 0 \<longleftrightarrow> v = w"
  by (metis xor_self_eq xor.left_neutral xor.assoc xor.right_neutral)

lemma ct_fold_zero:
  "length x = length y \<Longrightarrow>
   foldl (\<lambda>v (a, b). v OR (a XOR b)) v (zip x y) = 0 \<longleftrightarrow> v = (0 :: byte) \<and> x = y"
  by (induction x y arbitrary: v rule: list_induct2) (auto simp: word_or_eq_0 word_xor_eq_0)

lemma ConstantTimeCompare_eq: "ConstantTimeCompare x y = (if x = y then 1 else 0)"
  by (auto simp: ConstantTimeCompare_def ct_fold_zero)

lemma hmac_Equal_eq [simp]: "hmac_Equal x y \<longleftrightarrow> x = y"
  by (simp add: hmac_Equal_def ConstantTimeCompare_eq)

end
