(* ===== verification/Ustar.thy ===== *)
theory Ustar
  imports Codec
begin

text \<open>
  The USTAR archive format as Go's \<open>archive/tar\<close> writes it for regular files: a 512-byte header
  with octal fields and a byte-sum checksum, the data rounded up to whole 512-byte blocks, and
  two zero blocks at the end.  \<open>tar_next\<close> reads one entry of such an archive as the reader of
  the library does; it reports an error for a block whose checksum or magic is wrong.  A file that
  does not fit the format (a name over 100 bytes or not plain ASCII, a sz of 8 GiB or more), for
  which the library would switch to PAX records, makes \<open>tar_entry\<close> return \<open>None\<close>.
\<close>

definition zeros :: "nat \<Rightarrow> bytes" where "zeros n = replicate n 0"

lemma length_zeros [simp, len_simps]: "length (zeros n) = n"
  by (simp add: zeros_def)

section \<open>Octal fields\<close>

fun oct_digits :: "nat \<Rightarrow> nat \<Rightarrow> bytes" where
  "oct_digits 0 n = []"
| "oct_digits (Suc k) n = oct_digits k (n div 8) @ [of_nat (48 + n mod 8)]"

definition oct_field :: "nat \<Rightarrow> nat \<Rightarrow> bytes" where
  "oct_field k n = oct_digits k n @ [0]"

definition parse_octal :: "bytes \<Rightarrow> nat" where
  "parse_octal b = foldl (\<lambda>a d. a * 8 + (unat d - 48)) 0 (takeWhile (\<lambda>d. d \<noteq> 0 \<and> d \<noteq> 32) b)"

lemma length_oct_digits [simp, len_simps]: "length (oct_digits k n) = k"
  by (induction k arbitrary: n) auto

lemma length_oct_field [simp, len_simps]: "length (oct_field k n) = Suc k"
  by (simp add: oct_field_def)

lemma oct_digit_byte: "unat (of_nat (48 + n mod 8) :: byte) = 48 + n mod 8"
proof -
  have "n mod 8 < 8" by simp
  then have "48 + n mod 8 < 256" by linarith
  then show ?thesis by (simp only: unat_of_nat_byte mod_less)
qed

lemma oct_digits_nonzero: "d \<in> set (oct_digits k n) \<Longrightarrow> d \<noteq> 0 \<and> d \<noteq> 32"
proof (induction k arbitrary: n)
  case 0
  then show ?case by simp
next
  case (Suc k)
  then consider "d \<in> set (oct_digits k (n div 8))" | "d = of_nat (48 + n mod 8)" by auto
  then show ?case
  proof cases
    case 1
    then show ?thesis by (rule Suc.IH)
  next
    case 2
    have "unat d = 48 + n mod 8" unfolding 2 by (rule oct_digit_byte)
    then show ?thesis by auto
  qed
qed

lemma foldl_oct_digits:
  "foldl (\<lambda>a d. a * 8 + (unat d - 48)) 0 (oct_digits k n) = n mod 8 ^ k"
proof (induction k arbitrary: n)
  case 0
  then show ?case by simp
next
  case (Suc k)
  have "foldl (\<lambda>a d. a * 8 + (unat d - 48)) 0 (oct_digits (Suc k) n)
      = (n div 8 mod 8 ^ k) * 8 + n mod 8"
    by (simp only: oct_digits.simps foldl_append Suc.IH foldl.simps oct_digit_byte)
  also have "\<dots> = n mod 8 ^ Suc k" by (simp add: mod_mult2_eq mult.commute)
  finally show ?case .
qed

lemma takeWhile_append_stop: "(\<And>x. x \<in> set xs \<Longrightarrow> P x) \<Longrightarrow> \<not> P y \<Longrightarrow> takeWhile P (xs @ y # ys) = xs"
  by (induction xs) auto

lemma parse_oct_digits:
  "n < 8 ^ k \<Longrightarrow> z \<in> {0, 32} \<Longrightarrow> parse_octal (oct_digits k n @ z # rest) = n"
proof -
  assume n: "n < 8 ^ k" and z: "z \<in> {0, 32}"
  have "takeWhile (\<lambda>d. d \<noteq> 0 \<and> d \<noteq> 32) (oct_digits k n @ z # rest) = oct_digits k n"
    using oct_digits_nonzero z by (intro takeWhile_append_stop) auto
  with n show ?thesis by (simp add: parse_octal_def foldl_oct_digits)
qed

lemma parse_oct_field [simp]: "n < 8 ^ k \<Longrightarrow> parse_octal (oct_field k n) = n"
  using parse_oct_digits [of n k 0 "[]"] by (simp add: oct_field_def)

section \<open>Headers\<close>

record tar_hdr =
  th_name :: string
  th_type :: byte
  th_size :: nat

definition name_field :: "string \<Rightarrow> bytes" where
  "name_field nm = bytes_of nm @ zeros (100 - length nm)"

definition hdr_pre :: "string \<Rightarrow> nat \<Rightarrow> bytes" where
  "hdr_pre nm sz =
     name_field nm @ oct_field 7 384 @ oct_field 7 0 @ oct_field 7 0 @ oct_field 11 sz
     @ oct_field 11 0"

definition hdr_post :: bytes where
  "hdr_post = [48] @ zeros 100 @ bytes_of ''ustar'' @ [0] @ bytes_of ''00'' @ zeros 32 @ zeros 32
     @ oct_field 7 0 @ oct_field 7 0 @ zeros 155 @ zeros 12"

definition byte_sum :: "bytes \<Rightarrow> nat" where
  "byte_sum b = sum_list (map unat b)"

definition hdr_checksum :: "bytes \<Rightarrow> bytes \<Rightarrow> nat" where
  "hdr_checksum pre post = byte_sum pre + 8 * 32 + byte_sum post"

definition tar_header :: "string \<Rightarrow> nat \<Rightarrow> bytes" where
  "tar_header nm sz =
     hdr_pre nm sz @ (oct_field 6 (hdr_checksum (hdr_pre nm sz) hdr_post) @ [32]) @ hdr_post"

definition block_fill :: "nat \<Rightarrow> nat" where
  "block_fill n = (512 - n mod 512) mod 512"

record tar_file =
  tf_Name :: string
  tf_Data :: bytes

definition ustar_name_ok :: "string \<Rightarrow> bool" where
  "ustar_name_ok nm \<longleftrightarrow> nm \<noteq> [] \<and> length nm \<le> 100 \<and> list_all (\<lambda>c. 0 < ordc c \<and> ordc c < 128) nm
     \<and> last nm \<noteq> slash"

definition tar_entry :: "tar_file \<Rightarrow> bytes option" where
  "tar_entry f =
     (if ustar_name_ok (tf_Name f) \<and> length (tf_Data f) < 8 ^ 11
      then Some (tar_header (tf_Name f) (length (tf_Data f)) @ tf_Data f
                 @ zeros (block_fill (length (tf_Data f))))
      else None)"

fun tar_entries :: "tar_file list \<Rightarrow> bytes option" where
  "tar_entries [] = Some []"
| "tar_entries (f # fs) =
     (case tar_entry f of None \<Rightarrow> None
      | Some e \<Rightarrow> (case tar_entries fs of None \<Rightarrow> None | Some r \<Rightarrow> Some (e @ r)))"

definition tar_archive :: "tar_file list \<Rightarrow> bytes option" where
  "tar_archive fs = (case tar_entries fs of None \<Rightarrow> None | Some b \<Rightarrow> Some (b @ zeros 1024))"

section \<open>Reading\<close>

datatype tar_result = TarEOF | TarErr error | TarEntry tar_hdr bytes bytes

definition tar_next :: "bytes \<Rightarrow> tar_result" where
  "tar_next b =
     (if b = [] then TarEOF
      else if length b < 512 then TarErr (Err ''unexpected EOF'')
      else
        let blk = take 512 b; rest = drop 512 b in
        if blk = zeros 512 then
          (if rest = [] then TarEOF
           else if length rest < 512 then TarErr (Err ''unexpected EOF'')
           else if take 512 rest = zeros 512 then TarEOF
           else TarErr (Err ''archive/tar: invalid tar header''))
        else if parse_octal (take 8 (drop 148 blk)) \<noteq> hdr_checksum (take 148 blk) (drop 156 blk)
                \<or> take 5 (drop 257 blk) \<noteq> bytes_of ''ustar''
        then TarErr (Err ''archive/tar: invalid tar header'')
        else
          let sz = parse_octal (take 12 (drop 124 blk)) in
          if length rest < sz then TarErr (Err ''unexpected EOF'')
          else TarEntry
            \<lparr>th_name = str_of (takeWhile (\<lambda>c. c \<noteq> 0) (take 100 blk)),
             th_type = blk ! 156, th_size = sz\<rparr>
            (take sz rest) (drop (sz + block_fill sz) rest))"

text \<open>All entries, in order, until the end of the archive or the first error; every entry takes at
  least its header, so the length of the input bounds the number of steps.\<close>

function tar_read_all :: "bytes \<Rightarrow> (tar_hdr \<times> bytes) list \<times> error option" where
  "tar_read_all b =
     (case tar_next b of
        TarEOF \<Rightarrow> ([], None)
      | TarErr e \<Rightarrow> ([], Some e)
      | TarEntry h d rest \<Rightarrow>
          (if length rest < length b
           then (case tar_read_all rest of (es, e) \<Rightarrow> ((h, d) # es, e))
           else ([], Some (Err ''unexpected EOF''))))"
  by pat_completeness auto
termination
  by (relation "measure length") auto

declare tar_read_all.simps [simp del]

section \<open>Reading back what was written\<close>

lemma length_name_field: "length nm \<le> 100 \<Longrightarrow> length (name_field nm) = 100"
  by (simp add: name_field_def)

lemma length_hdr_pre: "length nm \<le> 100 \<Longrightarrow> length (hdr_pre nm sz) = 148"
  by (simp add: hdr_pre_def length_name_field)

lemma length_hdr_post: "length hdr_post = 356"
  by (simp add: hdr_post_def)

lemma length_tar_header: "length nm \<le> 100 \<Longrightarrow> length (tar_header nm sz) = 512"
  by (simp add: tar_header_def length_hdr_pre length_hdr_post)

lemma byte_sum_bound: "byte_sum b \<le> 255 * length b"
proof (induction b)
  case Nil
  then show ?case by (simp add: byte_sum_def)
next
  case (Cons x b)
  have "unat x \<le> 255" using unat_byte_less [of x] by linarith
  with Cons show ?case by (simp add: byte_sum_def)
qed

lemma checksum_bound: "length nm \<le> 100 \<Longrightarrow> hdr_checksum (hdr_pre nm sz) hdr_post < 8 ^ 6"
  using byte_sum_bound [of "hdr_pre nm sz"] byte_sum_bound [of hdr_post]
  by (simp add: hdr_checksum_def length_hdr_pre length_hdr_post)

lemma takeWhile_zeros: "(\<forall>c \<in> set xs. c \<noteq> 0) \<Longrightarrow> takeWhile (\<lambda>c. c \<noteq> 0) (xs @ zeros n) = xs"
  by (cases n) (auto simp: zeros_def takeWhile_append_stop takeWhile_all)

lemma name_bytes_nonzero: "ustar_name_ok nm \<Longrightarrow> \<forall>c \<in> set (bytes_of nm). c \<noteq> 0"
proof
  fix b assume ok: "ustar_name_ok nm" and "b \<in> set (bytes_of nm)"
  then obtain c where c: "c \<in> set nm" "b = of_char c" by (auto simp: bytes_of_def)
  then have "0 < ordc c" using ok by (auto simp: ustar_name_ok_def list_all_iff)
  moreover have "unat b = ordc c" by (simp add: c(2) ordc_def)
  ultimately show "b \<noteq> 0" by auto
qed

lemma hdr_fields:
  assumes "length nm \<le> 100"
  shows "take 148 (tar_header nm sz) = hdr_pre nm sz"
    and "drop 156 (tar_header nm sz) = hdr_post"
    and "take 8 (drop 148 (tar_header nm sz)) = oct_field 6 (hdr_checksum (hdr_pre nm sz) hdr_post) @ [32]"
    and "take 5 (drop 257 (tar_header nm sz)) = bytes_of ''ustar''"
    and "take 12 (drop 124 (tar_header nm sz)) = oct_field 11 sz"
    and "take 100 (tar_header nm sz) = name_field nm"
    and "tar_header nm sz ! 156 = 48"
proof -
  note len = length_hdr_pre [OF assms] length_name_field [OF assms]
  show "take 148 (tar_header nm sz) = hdr_pre nm sz"
    by (simp add: tar_header_def len)
  show post: "drop 156 (tar_header nm sz) = hdr_post"
    by (simp add: tar_header_def len)
  show "take 8 (drop 148 (tar_header nm sz)) = oct_field 6 (hdr_checksum (hdr_pre nm sz) hdr_post) @ [32]"
    by (simp add: tar_header_def len)
  have "drop 257 (tar_header nm sz) = drop 101 (drop 156 (tar_header nm sz))" by simp
  then show "take 5 (drop 257 (tar_header nm sz)) = bytes_of ''ustar''"
    unfolding post by (simp add: hdr_post_def)
  show "take 12 (drop 124 (tar_header nm sz)) = oct_field 11 sz"
    by (simp add: tar_header_def hdr_pre_def len)
  show "take 100 (tar_header nm sz) = name_field nm"
    by (simp add: tar_header_def hdr_pre_def len)
  have "tar_header nm sz ! 156 = drop 156 (tar_header nm sz) ! 0"
    using length_tar_header [OF assms] by simp
  then show "tar_header nm sz ! 156 = 48" unfolding post by (simp add: hdr_post_def)
qed

lemma header_not_zero: "length nm \<le> 100 \<Longrightarrow> tar_header nm sz \<noteq> zeros 512"
  using hdr_fields(7) [of nm sz] by (auto simp: zeros_def)

lemma parse_octal_app: "n < 8 ^ k \<Longrightarrow> parse_octal (oct_field k n @ rest) = n"
  using parse_oct_digits [of n k 0 rest] by (simp add: oct_field_def)

lemma tar_next_entry:
  assumes e: "tar_entry f = Some e"
  shows "tar_next (e @ rest) =
    TarEntry \<lparr>th_name = tf_Name f, th_type = 48, th_size = length (tf_Data f)\<rparr> (tf_Data f) rest"
proof -
  let ?nm = "tf_Name f" and ?d = "tf_Data f"
  from e have ok: "ustar_name_ok ?nm" and sz: "length ?d < 8 ^ 11"
    and e': "e = tar_header ?nm (length ?d) @ ?d @ zeros (block_fill (length ?d))"
    by (auto simp: tar_entry_def split: if_splits)
  have nm: "length ?nm \<le> 100" using ok by (simp add: ustar_name_ok_def)
  note h = hdr_fields [OF nm, of "length ?d"]
  have t: "take 512 (e @ rest) = tar_header ?nm (length ?d)"
    "drop 512 (e @ rest) = ?d @ zeros (block_fill (length ?d)) @ rest"
    "e @ rest \<noteq> []" "\<not> length (e @ rest) < 512"
    using length_tar_header [OF nm, of "length ?d"] by (simp_all add: e') (metis length_0_conv zero_neq_numeral)
  have name: "str_of (takeWhile (\<lambda>c. c \<noteq> 0) (name_field ?nm)) = ?nm"
    by (simp add: name_field_def takeWhile_zeros [OF name_bytes_nonzero [OF ok]])
  have pz: "parse_octal (oct_field 11 (length ?d)) = length ?d" by (rule parse_oct_field [OF sz])
  have pc: "parse_octal (oct_field 6 (hdr_checksum (hdr_pre ?nm (length ?d)) hdr_post) @ [32])
      = hdr_checksum (hdr_pre ?nm (length ?d)) hdr_post"
    by (rule parse_octal_app [OF checksum_bound [OF nm]])
  show ?thesis
    unfolding tar_next_def Let_def t(1,2) h pz pc name
    using t(3,4) header_not_zero [OF nm] by simp
qed

lemma tar_next_trailer: "tar_next (zeros 1024 @ pad) = TarEOF"
proof -
  have z: "zeros 1024 = zeros 512 @ zeros 512" by (simp add: zeros_def replicate_add [symmetric])
  show ?thesis
    unfolding tar_next_def Let_def z by (simp add: zeros_def)
qed

definition tar_entry_of :: "tar_file \<Rightarrow> tar_hdr \<times> bytes" where
  "tar_entry_of f = (\<lparr>th_name = tf_Name f, th_type = 48, th_size = length (tf_Data f)\<rparr>, tf_Data f)"

lemma tar_read_entries:
  "tar_entries fs = Some b \<Longrightarrow> tar_read_all (b @ zeros 1024 @ pad) = (map tar_entry_of fs, None)"
proof (induction fs arbitrary: b)
  case Nil
  then show ?case by (simp add: tar_read_all.simps tar_next_trailer)
next
  case (Cons f fs)
  then obtain e r where e: "tar_entry f = Some e" "tar_entries fs = Some r" "b = e @ r"
    by (auto split: option.splits)
  have ne: "e \<noteq> []" using tar_next_entry [OF e(1), of "[]"] by (auto simp: tar_next_def)
  have "tar_next (b @ zeros 1024 @ pad)
      = TarEntry (fst (tar_entry_of f)) (tf_Data f) (r @ zeros 1024 @ pad)"
    using tar_next_entry [OF e(1), of "r @ zeros 1024 @ pad"] by (simp add: e(3) tar_entry_of_def)
  with Cons.IH [OF e(2)] ne show ?case
    by (simp add: tar_read_all.simps [of "e @ r @ zeros 1024 @ pad"] e(3) tar_entry_of_def)
qed

lemma tar_archive_read:
  "tar_archive fs = Some b \<Longrightarrow> tar_read_all (b @ pad) = (map tar_entry_of fs, None)"
  using tar_read_entries [of fs _ pad] by (auto simp: tar_archive_def split: option.splits)

lemma block_fill_dvd: "512 dvd n + block_fill n"
proof -
  have f: "512 dvd r + (512 - r) mod 512" if "r < 512" for r :: nat
    using that by (cases "r = 0") simp_all
  have "512 dvd 512 * (n div 512) + (n mod 512 + (512 - n mod 512) mod 512)"
    by (intro dvd_add dvd_triv_left f) simp
  then show ?thesis by (simp only: block_fill_def add.assoc [symmetric] mult_div_mod_eq)
qed

lemma length_tar_entry: "tar_entry f = Some e \<Longrightarrow> 512 dvd length e"
  using block_fill_dvd [of "length (tf_Data f)"]
  by (auto simp: tar_entry_def ustar_name_ok_def length_tar_header split: if_splits)

lemma length_tar_entries: "tar_entries fs = Some b \<Longrightarrow> 512 dvd length b"
  by (induction fs arbitrary: b) (auto dest: length_tar_entry split: option.splits)

lemma length_tar_archive: "tar_archive fs = Some b \<Longrightarrow> 512 dvd length b"
  by (auto simp: tar_archive_def dest: length_tar_entries split: option.splits)

lemma tar_archive_total:
  "(\<And>f. f \<in> set fs \<Longrightarrow> ustar_name_ok (tf_Name f) \<and> length (tf_Data f) < 8 ^ 11) \<Longrightarrow>
   \<exists>b. tar_archive fs = Some b"
proof -
  assume "\<And>f. f \<in> set fs \<Longrightarrow> ustar_name_ok (tf_Name f) \<and> length (tf_Data f) < 8 ^ 11"
  then have "\<exists>b. tar_entries fs = Some b"
    by (induction fs) (auto simp: tar_entry_def)
  then show ?thesis by (auto simp: tar_archive_def)
qed

end
