(* ===== verification/Sha256.thy ===== *)
theory Sha256
  imports Codec
begin

text \<open>
  \<open>crypto/sha256\<close>, \<open>crypto/hmac\<close> and \<open>golang.org/x/crypto/hkdf\<close> as kakekomi uses them:
  SHA-256 on byte lists over 32-bit words, HMAC-SHA256 and HKDF-SHA256.  Components rely only
  on the interface \<open>keyed_hash\<close> (a keyed function with outputs of one fixed length), which
  is interpreted on HMAC-SHA256.
\<close>

type_synonym u32 = "32 word"

section \<open>SHA-256\<close>

definition sha_k :: "u32 list" where
  "sha_k =
    [1116352408, 1899447441, 3049323471, 3921009573, 961987163, 1508970993, 2453635748,
     2870763221, 3624381080, 310598401, 607225278, 1426881987, 1925078388, 2162078206,
     2614888103, 3248222580, 3835390401, 4022224774, 264347078, 604807628, 770255983,
     1249150122, 1555081692, 1996064986, 2554220882, 2821834349, 2952996808, 3210313671,
     3336571891, 3584528711, 113926993, 338241895, 666307205, 773529912, 1294757372,
     1396182291, 1695183700, 1986661051, 2177026350, 2456956037, 2730485921, 2820302411,
     3259730800, 3345764771, 3516065817, 3600352804, 4094571909, 275423344, 430227734,
     506948616, 659060556, 883997877, 958139571, 1322822218, 1537002063, 1747873779,
     1955562222, 2024104815, 2227730452, 2361852424, 2428436474, 2756734187, 3204031479,
     3329325298]"

definition sha_h0 :: "u32 list" where
  "sha_h0 =
    [1779033703, 3144134277, 1013904242, 2773480762, 1359893119, 2600822924, 528734635,
     1541459225]"

definition big_sigma0 :: "u32 \<Rightarrow> u32" where
  "big_sigma0 x = word_rotr 2 x XOR word_rotr 13 x XOR word_rotr 22 x"

definition big_sigma1 :: "u32 \<Rightarrow> u32" where
  "big_sigma1 x = word_rotr 6 x XOR word_rotr 11 x XOR word_rotr 25 x"

definition small_sigma0 :: "u32 \<Rightarrow> u32" where
  "small_sigma0 x = word_rotr 7 x XOR word_rotr 18 x XOR drop_bit 3 x"

definition small_sigma1 :: "u32 \<Rightarrow> u32" where
  "small_sigma1 x = word_rotr 17 x XOR word_rotr 19 x XOR drop_bit 10 x"

definition sha_pad :: "bytes \<Rightarrow> bytes" where
  "sha_pad m =
     m @ [128] @ replicate ((119 - length m mod 64) mod 64) 0 @ be_bytes 8 (8 * length m)"

fun chunks :: "nat \<Rightarrow> nat \<Rightarrow> 'a list \<Rightarrow> 'a list list" where
  "chunks k 0 xs = []"
| "chunks k (Suc n) xs = take k xs # chunks k n (drop k xs)"

definition block_words :: "bytes \<Rightarrow> u32 list" where
  "block_words b = map (\<lambda>c. of_nat (be_val c)) (chunks 4 16 b)"

fun schedule :: "nat \<Rightarrow> u32 list \<Rightarrow> u32 list" where
  "schedule 0 win = win"
| "schedule (Suc n) win =
     (case win of [] \<Rightarrow> []
      | w0 # rest \<Rightarrow>
          w0 # schedule n (rest @ [small_sigma1 (win ! 14) + win ! 9 + small_sigma0 (win ! 1) + w0]))"

fun sha_round :: "u32 list \<Rightarrow> u32 \<times> u32 \<Rightarrow> u32 list" where
  "sha_round [a, b, c, d, e, f, g, h] (k, w) =
     (let t1 = h + big_sigma1 e + ((e AND f) XOR (NOT e AND g)) + k + w;
          t2 = big_sigma0 a + ((a AND b) XOR (a AND c) XOR (b AND c))
      in [t1 + t2, a, b, c, d + t1, e, f, g])"
| "sha_round st _ = st"

definition sha_block :: "u32 list \<Rightarrow> bytes \<Rightarrow> u32 list" where
  "sha_block st b =
     map2 (+) st (foldl sha_round st (zip sha_k (schedule 48 (block_words b))))"

definition sha256 :: "bytes \<Rightarrow> bytes" where
  "sha256 m =
     (let p = sha_pad m
      in concat (map (\<lambda>w. be_bytes 4 (unat w))
           (foldl sha_block sha_h0 (chunks 64 (length p div 64) p))))"

lemma length_sha_round: "length st = 8 \<Longrightarrow> length (sha_round st kw) = 8"
  by (cases "(st, kw)" rule: sha_round.cases) (auto simp: Let_def)

lemma length_sha_rounds: "length st = 8 \<Longrightarrow> length (foldl sha_round st kws) = 8"
  by (induction kws arbitrary: st) (auto simp: length_sha_round)

lemma length_sha_blocks: "length st = 8 \<Longrightarrow> length (foldl sha_block st bs) = 8"
proof (induction bs arbitrary: st)
  case Nil
  then show ?case by simp
next
  case (Cons b bs)
  have "length (sha_block st b) = 8"
    using Cons.prems by (simp add: sha_block_def length_sha_rounds)
  with Cons.IH show ?case by simp
qed

lemma length_concat_const: "(\<And>x. x \<in> set xs \<Longrightarrow> length (f x) = k) \<Longrightarrow> length (concat (map f xs)) = k * length xs"
  by (induction xs) auto

lemma length_sha256 [simp, len_simps]: "length (sha256 m) = 32"
proof -
  have "length sha_h0 = 8" by (simp add: sha_h0_def)
  then show ?thesis
    by (simp add: sha256_def Let_def length_concat_const [where k = 4] length_sha_blocks)
qed

lemma length_sha_pad: "64 dvd length (sha_pad m)"
proof -
  have "length (sha_pad m) = length m + 9 + (119 - length m mod 64) mod 64"
    by (simp add: sha_pad_def)
  moreover have "64 dvd r + 9 + (119 - r) mod 64" if "r < 64" for r :: nat
  proof (cases "r \<le> 55")
    case True
    then have "(119 - r) mod 64 = (64 + (55 - r)) mod 64" by simp
    also have "\<dots> = 55 - r" using True by (simp only: mod_add_self1) simp
    finally show ?thesis using True by simp
  next
    case False
    with that have "(119 - r) mod 64 = 119 - r" by simp
    with that False show ?thesis by simp
  qed
  then have "64 dvd length m mod 64 + 9 + (119 - length m mod 64) mod 64" by simp
  then have "64 dvd length m div 64 * 64 + (length m mod 64 + 9 + (119 - length m mod 64) mod 64)"
    by (rule dvd_add [OF dvd_triv_right])
  ultimately show ?thesis by (simp add: add.assoc [symmetric])
qed

section \<open>HMAC and HKDF\<close>

definition hmac_key_block :: "bytes \<Rightarrow> bytes" where
  "hmac_key_block k =
     (let k0 = (if 64 < length k then sha256 k else k) in k0 @ replicate (64 - length k0) 0)"

definition hmac_sha256 :: "bytes \<Rightarrow> bytes \<Rightarrow> bytes" where
  "hmac_sha256 k m =
     (let kb = hmac_key_block k
      in sha256 (map (\<lambda>b. b XOR 92) kb @ sha256 (map (\<lambda>b. b XOR 54) kb @ m)))"

fun hkdf_blocks :: "bytes \<Rightarrow> bytes \<Rightarrow> nat \<Rightarrow> bytes \<Rightarrow> nat \<Rightarrow> bytes" where
  "hkdf_blocks prk info 0 prev ctr = []"
| "hkdf_blocks prk info (Suc n) prev ctr =
     (let t = hmac_sha256 prk (prev @ info @ [of_nat ctr])
      in t @ hkdf_blocks prk info n t (Suc ctr))"

definition hkdf_read :: "bytes \<Rightarrow> bytes \<Rightarrow> bytes \<Rightarrow> nat \<Rightarrow> error + bytes" where
  "hkdf_read secret salt info n =
     (if 255 * 32 < n then Inl (Err ''hkdf: entropy limit reached'')
      else Inr (take n (hkdf_blocks (hmac_sha256 salt secret) info ((n + 31) div 32) [] 1)))"

lemma length_hmac_sha256 [simp, len_simps]: "length (hmac_sha256 k m) = 32"
  by (simp add: hmac_sha256_def Let_def)

lemma length_hmac_key_block: "length (hmac_key_block k) = 64"
  by (auto simp: hmac_key_block_def Let_def)

lemma length_hkdf_blocks [simp, len_simps]: "length (hkdf_blocks prk info n prev ctr) = 32 * n"
  by (induction n arbitrary: prev ctr) (auto simp: Let_def)

lemma hkdf_read_length: "hkdf_read secret salt info n = Inr k \<Longrightarrow> length k = n"
  by (auto simp: hkdf_read_def split: if_splits)

section \<open>The keyed-hash interface\<close>

locale keyed_hash =
  fixes mac :: "bytes \<Rightarrow> bytes \<Rightarrow> bytes" and size :: nat
  assumes mac_length: "length (mac k m) = size"
begin

lemma mac_take_length: "n \<le> size \<Longrightarrow> length (take n (mac k m)) = n"
  by (simp add: mac_length)

lemma mac_tag_split:
  assumes "n \<le> size"
  shows "take (length p) (p @ take n (mac k m)) = p"
    and "drop (length p) (p @ take n (mac k m)) = take n (mac k m)"
  by simp_all

lemma mac_hex_length: "length (hex_EncodeToString (mac k m)) = 2 * size"
  by (simp add: mac_length)

end

interpretation hm: keyed_hash hmac_sha256 32
  by unfold_locales simp

end
