(* ===== verification/Tables.thy ===== *)
theory Tables
  imports Prelude "HOL-Library.List_Lexorder" "HOL-Library.Char_ord"
begin

text \<open>
  The interface of a table with unique keys, as the components use it: the session map of
  \<open>session.go\<close>, the rows of the \<open>cases\<close> table and the entries of a directory all satisfy
  it.  The facts about deleting a list of keys (garbage collection, the duress wipe) and about
  repeated updates are proved once here.
\<close>

locale keyed_del =
  fixes get :: "'t \<Rightarrow> 'k \<Rightarrow> 'v option" and del :: "'k \<Rightarrow> 't \<Rightarrow> 't"
  assumes get_del: "get (del k t) x = (if x = k then None else get t x)"
begin

lemma get_del_same [simp]: "get (del k t) k = None"
  by (simp add: get_del)

lemma get_del_all: "get (fold del ks t) x = (if x \<in> set ks then None else get t x)"
  by (induction ks arbitrary: t) (auto simp: get_del)

lemma del_all_empty: "(\<And>x v. get t x = Some v \<Longrightarrow> x \<in> set ks) \<Longrightarrow> get (fold del ks t) x = None"
  by (cases "get t x") (auto simp: get_del_all)

end

text \<open>Insertion of a fresh key only, as SQL \<open>INSERT\<close> with a primary key.\<close>

locale keyed_insert = keyed_del get del
  for get :: "'t \<Rightarrow> 'k \<Rightarrow> 'v option" and del :: "'k \<Rightarrow> 't \<Rightarrow> 't" +
  fixes ins :: "'k \<Rightarrow> 'v \<Rightarrow> 't \<Rightarrow> 't"
  assumes get_ins: "get t k = None \<Longrightarrow> get (ins k v t) x = (if x = k then Some v else get t x)"
begin

lemma ins_del_restore: "get t k = None \<Longrightarrow> get (del k (ins k v t)) x = get t x"
  by (simp add: get_del get_ins)

lemma ins_keeps: "get t k = None \<Longrightarrow> get t x = Some u \<Longrightarrow> get (ins k v t) x = Some u"
  by (auto simp: get_ins)

end

text \<open>Unconditional update, as a Go map assignment.\<close>

locale keyed_table = keyed_del get del
  for get :: "'t \<Rightarrow> 'k \<Rightarrow> 'v option" and del :: "'k \<Rightarrow> 't \<Rightarrow> 't" +
  fixes put :: "'k \<Rightarrow> 'v \<Rightarrow> 't \<Rightarrow> 't"
  assumes get_put: "get (put k v t) x = (if x = k then Some v else get t x)"
begin

lemma get_put_same [simp]: "get (put k v t) k = Some v"
  by (simp add: get_put)

lemma get_put_put: "get (put k v (put k u t)) x = get (put k v t) x"
  by (simp add: get_put)

end

sublocale keyed_table \<subseteq> keyed_insert get del put
  by unfold_locales (simp add: get_put)

section \<open>Sorted association lists\<close>

fun al_put :: "'k :: linorder \<Rightarrow> 'v \<Rightarrow> ('k \<times> 'v) list \<Rightarrow> ('k \<times> 'v) list" where
  "al_put k v [] = [(k, v)]"
| "al_put k v ((k', u) # es) =
     (if k = k' then (k, v) # es
      else if k < k' then (k, v) # (k', u) # es
      else (k', u) # al_put k v es)"

definition al_del :: "'k \<Rightarrow> ('k \<times> 'v) list \<Rightarrow> ('k \<times> 'v) list" where
  "al_del k es = filter (\<lambda>e. fst e \<noteq> k) es"

lemma map_of_al_put: "map_of (al_put k v es) x = (if x = k then Some v else map_of es x)"
  by (induction k v es rule: al_put.induct) auto

lemma map_of_al_del: "map_of (al_del k es) x = (if x = k then None else map_of es x)"
  by (simp add: al_del_def map_of_filter_ne)

lemma fst_set_al_put: "fst ` set (al_put k v es) = insert k (fst ` set es)"
  by (induction k v es rule: al_put.induct) auto

lemma sorted_al_put: "sorted (map fst es) \<Longrightarrow> sorted (map fst (al_put k v es))"
proof (induction k v es rule: al_put.induct)
  case (1 k v)
  then show ?case by simp
next
  case (2 k v k' u es)
  then have tail: "sorted (map fst es)" and le: "\<forall>x \<in> fst ` set es. k' \<le> x" by auto
  show ?case
  proof (cases "k = k' \<or> k < k'")
    case True
    with tail le show ?thesis by auto
  next
    case False
    then have "sorted (map fst (al_put k v es))" using 2 tail by auto
    moreover have "\<forall>x \<in> fst ` set (al_put k v es). k' \<le> x"
      using le False by (auto simp: fst_set_al_put)
    ultimately show ?thesis using False by auto
  qed
qed

interpretation dirt: keyed_table "map_of :: ('k :: linorder \<times> 'v) list \<Rightarrow> 'k \<Rightarrow> 'v option" al_del al_put
  by unfold_locales (simp_all add: map_of_al_put map_of_al_del)

end
