(* ===== verification/Os_Model.thy ===== *)
theory Os_Model
  imports Tables
begin

text \<open>
  The operating system as the program sees it: a clock (nanoseconds since the Unix epoch), the
  entropy that \<open>crypto/rand\<close> delivers, and a file system.  The file system is a tree; a path
  is the list of its components, and a directory keeps its entries sorted by name, the order in
  which \<open>os.ReadDir\<close> reports them.  Every call can fail: \<open>os_fault\<close> says which call on
  which path the system refuses; a refused \<open>os.WriteFile\<close> may have truncated the file and
  written some of the data first (\<open>Short n\<close>).
\<close>

section \<open>The file tree\<close>

datatype node = File bytes | Dir "(string \<times> node) list"

fun node_at :: "path \<Rightarrow> node \<Rightarrow> node option" where
  "node_at [] n = Some n"
| "node_at (c # cs) (File b) = None"
| "node_at (c # cs) (Dir es) = (case map_of es c of None \<Rightarrow> None | Some n \<Rightarrow> node_at cs n)"

fun put_node :: "path \<Rightarrow> node \<Rightarrow> node \<Rightarrow> node option" where
  "put_node [] x n = Some x"
| "put_node (c # cs) x (File b) = None"
| "put_node (c # cs) x (Dir es) =
     (if cs = [] then Some (Dir (al_put c x es))
      else case map_of es c of None \<Rightarrow> None
        | Some n \<Rightarrow> map_option (\<lambda>n'. Dir (al_put c n' es)) (put_node cs x n))"

fun del_node :: "path \<Rightarrow> node \<Rightarrow> node" where
  "del_node [] n = n"
| "del_node (c # cs) (File b) = File b"
| "del_node (c # cs) (Dir es) =
     (if cs = [] then Dir (al_del c es)
      else case map_of es c of None \<Rightarrow> Dir es | Some n \<Rightarrow> Dir (al_put c (del_node cs n) es))"

fun mkdirs :: "path \<Rightarrow> node \<Rightarrow> node option" where
  "mkdirs [] (Dir es) = Some (Dir es)"
| "mkdirs p (File b) = None"
| "mkdirs (c # cs) (Dir es) =
     map_option (\<lambda>n'. Dir (al_put c n' es))
       (mkdirs cs (case map_of es c of None \<Rightarrow> Dir [] | Some n \<Rightarrow> n))"

definition rd :: "node \<Rightarrow> path \<Rightarrow> bytes option" where
  "rd n p = (case node_at p n of Some (File b) \<Rightarrow> Some b | _ \<Rightarrow> None)"

definition is_dir :: "node \<Rightarrow> path \<Rightarrow> bool" where
  "is_dir n p = (case node_at p n of Some (Dir _) \<Rightarrow> True | _ \<Rightarrow> False)"

definition wr :: "path \<Rightarrow> bytes \<Rightarrow> node \<Rightarrow> node option" where
  "wr p b n = (if is_dir n p then None else put_node p (File b) n)"

lemma node_at_append: "node_at (p @ q) n = (case node_at p n of None \<Rightarrow> None | Some m \<Rightarrow> node_at q m)"
  by (induction p n rule: node_at.induct) (auto split: option.splits)

lemma node_at_put: "put_node p x n = Some n' \<Longrightarrow> node_at p n' = Some x"
  by (induction p x n arbitrary: n' rule: put_node.induct)
    (auto simp: map_of_al_put split: if_splits option.splits)

lemma node_at_put_below: "put_node p x n = Some n' \<Longrightarrow> node_at (p @ q) n' = node_at q x"
  by (simp add: node_at_append node_at_put)

lemma node_at_put_other:
  "put_node p x n = Some n' \<Longrightarrow> \<not> prefix p q \<Longrightarrow> \<not> prefix q p \<Longrightarrow> node_at q n' = node_at q n"
proof (induction p x n arbitrary: n' q rule: put_node.induct)
  case (1 x n)
  then show ?case by simp
next
  case (2 c cs x b)
  then show ?case by simp
next
  case (3 c cs x es)
  then obtain d ds where q: "q = d # ds" by (cases q) auto
  show ?case
  proof (cases "d = c")
    case False
    with 3 q show ?thesis by (auto simp: map_of_al_put split: if_splits option.splits)
  next
    case True
    with 3 q have cs: "cs \<noteq> []" by auto
    with 3 obtain m m' where m: "map_of es c = Some m" "put_node cs x m = Some m'"
      "n' = Dir (al_put c m' es)"
      by (auto split: option.splits)
    with 3 q True cs have "node_at ds m' = node_at ds m" by auto
    with m q True show ?thesis by (simp add: map_of_al_put)
  qed
qed

lemma put_parent_dirs:
  "put_node p x n = Some n' \<Longrightarrow> strict_prefix q p \<Longrightarrow> is_dir n q \<and> is_dir n' q"
proof (induction p x n arbitrary: n' q rule: put_node.induct)
  case (1 x n)
  then show ?case by simp
next
  case (2 c cs x b)
  then show ?case by simp
next
  case (3 c cs x es)
  show ?case
  proof (cases q)
    case Nil
    with 3 show ?thesis by (auto simp: is_dir_def split: if_splits option.splits)
  next
    case (Cons d ds)
    with 3 have d: "d = c" "strict_prefix ds cs" by auto
    then have cs: "cs \<noteq> []" by auto
    with 3 obtain m m' where m: "map_of es c = Some m" "put_node cs x m = Some m'"
      "n' = Dir (al_put c m' es)"
      by (auto split: option.splits)
    with 3 d cs have "is_dir m ds \<and> is_dir m' ds" by auto
    with m Cons d show ?thesis by (simp add: is_dir_def map_of_al_put)
  qed
qed

lemma rd_is_dir: "is_dir n p \<Longrightarrow> rd n p = None"
  by (auto simp: is_dir_def rd_def split: option.splits node.splits)

lemma rd_wr_same: "wr p b n = Some n' \<Longrightarrow> rd n' p = Some b"
  by (auto simp: wr_def rd_def node_at_put split: if_splits)

lemma node_at_below_file: "node_at p n = Some (File b) \<Longrightarrow> q \<noteq> [] \<Longrightarrow> node_at (p @ q) n = None"
  by (cases q) (auto simp: node_at_append)

lemma wr_below:
  assumes "wr p b n = Some n'" and "strict_prefix p q"
  shows "rd n q = None" and "rd n' q = None"
proof -
  from assms(2) obtain r where q: "q = p @ r" and r: "r \<noteq> []"
    by (metis prefixE strict_prefix_def append_Nil2)
  from assms(1) have "\<not> is_dir n p" and put: "put_node p (File b) n = Some n'"
    by (auto simp: wr_def split: if_splits)
  have "node_at q n = None"
  proof (cases "node_at p n")
    case None
    with q show ?thesis by (simp add: node_at_append)
  next
    case (Some m)
    with \<open>\<not> is_dir n p\<close> obtain c where "m = File c"
      by (cases m) (auto simp: is_dir_def)
    with Some q r show ?thesis by (simp add: node_at_below_file)
  qed
  then show "rd n q = None" by (simp add: rd_def)
  from node_at_put [OF put] q r have "node_at q n' = None" by (simp add: node_at_below_file)
  then show "rd n' q = None" by (simp add: rd_def)
qed

lemma rd_wr_other:
  assumes w: "wr p b n = Some n'" and "q \<noteq> p"
  shows "rd n' q = rd n q"
proof -
  from w have put: "put_node p (File b) n = Some n'" by (auto simp: wr_def split: if_splits)
  consider "strict_prefix p q" | "strict_prefix q p" | "\<not> prefix p q" "\<not> prefix q p"
    using assms(2) by (auto simp: strict_prefix_def)
  then show ?thesis
  proof cases
    case 1
    with wr_below [OF w] show ?thesis by simp
  next
    case 2
    from put_parent_dirs [OF put 2] show ?thesis by (simp add: rd_is_dir)
  next
    case 3
    with node_at_put_other [OF put] show ?thesis by (simp add: rd_def)
  qed
qed

section \<open>The file-store interface\<close>

locale file_store =
  fixes fread :: "'s \<Rightarrow> 'p \<Rightarrow> 'b option" and fwrite :: "'p \<Rightarrow> 'b \<Rightarrow> 's \<Rightarrow> 's option"
  assumes read_same: "fwrite p b s = Some s' \<Longrightarrow> fread s' p = Some b"
    and read_other: "fwrite p b s = Some s' \<Longrightarrow> q \<noteq> p \<Longrightarrow> fread s' q = fread s q"
begin

lemma read_write: "fwrite p b s = Some s' \<Longrightarrow> fread s' q = (if q = p then Some b else fread s q)"
  by (simp add: read_same read_other)

lemma read_write2:
  "fwrite p b s = Some s' \<Longrightarrow> fwrite p' b' s' = Some s'' \<Longrightarrow>
   fread s'' q = (if q = p' then Some b' else if q = p then Some b else fread s q)"
  by (simp add: read_write)

end

interpretation fsi: file_store rd wr
  by unfold_locales (auto simp: rd_wr_same rd_wr_other)

section \<open>System calls\<close>

datatype fs_op = OpRead | OpWrite | OpMkdir | OpRemove | OpReadDir | OpStat

datatype fault = NoFault | Refused | Short nat

record os =
  os_now :: int
  os_rng :: bytes
  os_root :: node
  os_fault :: "fs_op \<Rightarrow> path \<Rightarrow> fault"

definition readRandom :: "nat \<Rightarrow> 'a os_scheme \<Rightarrow> (error + bytes) \<times> 'a os_scheme" where
  "readRandom n w =
     (if n \<le> length (os_rng w)
      then (Inr (take n (os_rng w)), w\<lparr>os_rng := drop n (os_rng w)\<rparr>)
      else (Inl (ErrIO ''entropy source failed''), w))"

definition os_ReadFile :: "path \<Rightarrow> 'a os_scheme \<Rightarrow> error + bytes" where
  "os_ReadFile p w =
     (if os_fault w OpRead p \<noteq> NoFault then Inl (ErrIO ''read'')
      else case node_at p (os_root w) of
        None \<Rightarrow> Inl ErrNotExist
      | Some (Dir _) \<Rightarrow> Inl (ErrIO ''is a directory'')
      | Some (File b) \<Rightarrow> Inr b)"

definition os_WriteFile :: "path \<Rightarrow> bytes \<Rightarrow> 'a os_scheme \<Rightarrow> error option \<times> 'a os_scheme" where
  "os_WriteFile p b w =
     (case os_fault w OpWrite p of
        Refused \<Rightarrow> (Some (ErrIO ''write''), w)
      | Short k \<Rightarrow>
          (Some (ErrIO ''short write''),
           case wr p (take k b) (os_root w) of None \<Rightarrow> w | Some n \<Rightarrow> w\<lparr>os_root := n\<rparr>)
      | NoFault \<Rightarrow>
          (case wr p b (os_root w) of
             None \<Rightarrow> (Some ErrNotExist, w)
           | Some n \<Rightarrow> (None, w\<lparr>os_root := n\<rparr>)))"

definition os_MkdirAll :: "path \<Rightarrow> 'a os_scheme \<Rightarrow> error option \<times> 'a os_scheme" where
  "os_MkdirAll p w =
     (if os_fault w OpMkdir p \<noteq> NoFault then (Some (ErrIO ''mkdir''), w)
      else case mkdirs p (os_root w) of
        None \<Rightarrow> (Some (ErrIO ''not a directory''), w)
      | Some n \<Rightarrow> (None, w\<lparr>os_root := n\<rparr>))"

definition os_RemoveAll :: "path \<Rightarrow> 'a os_scheme \<Rightarrow> error option \<times> 'a os_scheme" where
  "os_RemoveAll p w =
     (if os_fault w OpRemove p \<noteq> NoFault then (Some (ErrIO ''remove''), w)
      else (None, w\<lparr>os_root := del_node p (os_root w)\<rparr>))"

definition os_Stat_size :: "path \<Rightarrow> 'a os_scheme \<Rightarrow> error + int" where
  "os_Stat_size p w =
     (if os_fault w OpStat p \<noteq> NoFault then Inl (ErrIO ''stat'')
      else case node_at p (os_root w) of
        None \<Rightarrow> Inl ErrNotExist
      | Some (Dir _) \<Rightarrow> Inr 4096
      | Some (File b) \<Rightarrow> Inr (int (length b)))"

definition os_exists :: "path \<Rightarrow> 'a os_scheme \<Rightarrow> bool" where
  "os_exists p w = is_ok (os_Stat_size p w)"

definition no_faults :: "'a os_scheme \<Rightarrow> bool" where
  "no_faults w \<longleftrightarrow> (\<forall>opn p. os_fault w opn p = NoFault)"

end
