(* ===== verification/Crypto.thy ===== *)
theory Crypto
  imports Sha256 Os_Model
begin

text \<open>
  \<open>internal/kakekomi/crypto.go\<close>: the versioned blob envelope, code and identifier generation,
  the code lookup HMAC, argon2id verification, and the two encryption layers.

  The primitives of third-party packages (argon2id, XChaCha20-Poly1305, age, the BIP39 word
  list, TOTP validation) are the fields of the record \<open>prims\<close>, an argument of every definition
  that uses one.  What the code relies on is stated by \<open>aead_correct\<close>, \<open>age_correct\<close>,
  \<open>argon2_sized\<close> and \<open>wordlist_ok\<close>, the documented behaviour of those packages.
\<close>

record prims =
  argon2_IDKey :: "bytes \<Rightarrow> bytes \<Rightarrow> nat \<Rightarrow> nat \<Rightarrow> nat \<Rightarrow> nat \<Rightarrow> bytes"
  aead_Seal :: "bytes \<Rightarrow> bytes \<Rightarrow> bytes \<Rightarrow> bytes"
  aead_Open :: "bytes \<Rightarrow> bytes \<Rightarrow> bytes \<Rightarrow> bytes option"
  age_Keypair :: "bytes \<Rightarrow> string \<times> string"
  age_ParseRecipient :: "string \<Rightarrow> bool"
  age_Encrypt :: "string \<Rightarrow> bytes \<Rightarrow> bytes \<Rightarrow> bytes"
  age_ParseIdentity :: "string \<Rightarrow> bool"
  age_Decrypt :: "string \<Rightarrow> bytes \<Rightarrow> error + bytes"
  bip39_words :: "string list"
  totp_Validate :: "int \<Rightarrow> string \<Rightarrow> string \<Rightarrow> bool"
  totp_Secret :: "bytes \<Rightarrow> string"

definition aead_correct :: "prims \<Rightarrow> bool" where
  "aead_correct P \<longleftrightarrow> (\<forall>k nonce pt. length k = 32 \<longrightarrow> length nonce = 24 \<longrightarrow>
     aead_Open P k nonce (aead_Seal P k nonce pt) = Some pt)"

definition age_correct :: "prims \<Rightarrow> bool" where
  "age_correct P \<longleftrightarrow> (\<forall>seed pub sec rnd pt. length seed = 32 \<longrightarrow> age_Keypair P seed = (pub, sec) \<longrightarrow>
     pub \<noteq> [] \<and> age_ParseRecipient P pub \<and> age_ParseIdentity P sec
     \<and> age_Decrypt P sec (age_Encrypt P pub rnd pt) = Inr pt)"

definition argon2_sized :: "prims \<Rightarrow> bool" where
  "argon2_sized P \<longleftrightarrow> (\<forall>pw salt t m p n. length (argon2_IDKey P pw salt t m p n) = n)"

definition wordlist_ok :: "prims \<Rightarrow> bool" where
  "wordlist_ok P \<longleftrightarrow> length (bip39_words P) = 2048 \<and> distinct (bip39_words P)
     \<and> (\<forall>x \<in> set (bip39_words P). x \<noteq> [] \<and> (\<forall>c \<in> set x. \<not> space_char c))"

section \<open>Envelope\<close>

definition envelopeMagic :: string where "envelopeMagic = ''KKK1''"

definition envelopeVersion :: "16 word" where "envelopeVersion = 1"

definition errOnlyV1 :: error where
  "errOnlyV1 = Err ''envelope version unsupported (only v1 in this build)''"

definition wrapEnvelope :: "16 word \<Rightarrow> bytes \<Rightarrow> bytes" where
  "wrapEnvelope version payload =
     bytes_of envelopeMagic @ be_bytes 2 (unat version) @ [0, 0] @ payload"

definition unwrapEnvelope :: "bytes \<Rightarrow> error + (16 word \<times> bytes)" where
  "unwrapEnvelope blob =
     (if length blob < 8 then Inl (Err ''blob too short'')
      else if str_of (take 4 blob) \<noteq> envelopeMagic then Inl (Err ''bad envelope magic'')
      else Inr (of_nat (be_val (take 2 (drop 4 blob))), drop 8 blob))"

definition envelope_option :: "bytes \<Rightarrow> (16 word \<times> bytes) option" where
  "envelope_option b = (case unwrapEnvelope b of Inl e \<Rightarrow> None | Inr x \<Rightarrow> Some x)"

lemma unat_word16_less: "unat (v :: 16 word) < 256 ^ 2"
proof -
  have "unat v < 2 ^ LENGTH(16)" by (rule unsigned_less)
  then show ?thesis by simp
qed

lemma be_word16: "of_nat (be_val (be_bytes 2 (unat v))) = (v :: 16 word)"
  using unat_word16_less [of v] by (simp add: be_val_be_bytes del: be_bytes.simps)

lemma length_wrapEnvelope [simp, len_simps]: "length (wrapEnvelope v p) = 8 + length p"
  by (simp add: wrapEnvelope_def envelopeMagic_def)

lemma wrap_take4: "take 4 (wrapEnvelope v p) = bytes_of envelopeMagic"
  by (simp add: wrapEnvelope_def envelopeMagic_def)

lemma wrap_version: "take 2 (drop 4 (wrapEnvelope v p)) = be_bytes 2 (unat v)"
  by (simp add: wrapEnvelope_def envelopeMagic_def)

lemma wrap_payload: "drop 8 (wrapEnvelope v p) = p"
  by (simp add: wrapEnvelope_def envelopeMagic_def)

lemma unwrap_wrap [simp]: "unwrapEnvelope (wrapEnvelope v p) = Inr (v, p)"
  by (simp add: unwrapEnvelope_def wrap_take4 wrap_version wrap_payload be_word16)

interpretation envc: codec "\<lambda>(v, p). wrapEnvelope v p" envelope_option "\<lambda>_. True"
  by unfold_locales (auto simp: envelope_option_def)

section \<open>Random values\<close>

definition NewSalt :: "'a os_scheme \<Rightarrow> (error + bytes) \<times> 'a os_scheme" where
  "NewSalt w = readRandom 16 w"

definition NewID :: "'a os_scheme \<Rightarrow> (error + string) \<times> 'a os_scheme" where
  "NewID w = (case readRandom 8 w of (Inl e, w') \<Rightarrow> (Inl e, w')
     | (Inr b, w') \<Rightarrow> (Inr (hex_EncodeToString b), w'))"

definition GenerateAgeKey :: "prims \<Rightarrow> 'a os_scheme \<Rightarrow> (error + string \<times> string) \<times> 'a os_scheme" where
  "GenerateAgeKey P w = (case readRandom 32 w of (Inl e, w') \<Rightarrow> (Inl e, w')
     | (Inr seed, w') \<Rightarrow> (Inr (age_Keypair P seed), w'))"

definition code_index :: "byte \<Rightarrow> byte \<Rightarrow> nat" where
  "code_index b0 b1 = (push_bit 8 (unat b0) OR unat b1) AND 0x07FF"

fun code_words :: "string list \<Rightarrow> nat \<Rightarrow> 'a os_scheme \<Rightarrow> (error + string list) \<times> 'a os_scheme" where
  "code_words words 0 w = (Inr [], w)"
| "code_words words (Suc n) w =
     (case readRandom 2 w of
        (Inl e, w') \<Rightarrow> (Inl e, w')
      | (Inr buf, w') \<Rightarrow>
          (case code_words words n w' of
             (Inl e, w'') \<Rightarrow> (Inl e, w'')
           | (Inr out, w'') \<Rightarrow> (Inr (words ! code_index (buf ! 0) (buf ! 1) # out), w'')))"

definition GenerateCode :: "prims \<Rightarrow> 'a os_scheme \<Rightarrow> (error + string) \<times> 'a os_scheme" where
  "GenerateCode P w =
     (if length (bip39_words P) \<noteq> 2048 then (Inl (Err ''unexpected wordlist size''), w)
      else case code_words (bip39_words P) 7 w of
        (Inl e, w') \<Rightarrow> (Inl e, w')
      | (Inr out, w') \<Rightarrow> (Inr (str_Join out '' ''), w'))"

section \<open>Derivations\<close>

definition HKDFReplyKey :: string where "HKDFReplyKey = ''kakekomi/v1/reply-key''"
definition HMACCaseCodeLookup :: string where "HMACCaseCodeLookup = ''kakekomi/v1/case-code-lookup''"

definition CaseCodeLookup :: "bytes \<Rightarrow> string \<Rightarrow> bytes" where
  "CaseCodeLookup lookupKey c = hmac_sha256 lookupKey (bytes_of HMACCaseCodeLookup @ bytes_of c)"

definition HashCode :: "prims \<Rightarrow> string \<Rightarrow> bytes \<Rightarrow> bytes" where
  "HashCode P c salt = argon2_IDKey P (bytes_of c) salt 2 (64 * 1024) 2 32"

definition VerifyCode :: "prims \<Rightarrow> string \<Rightarrow> bytes \<Rightarrow> bytes \<Rightarrow> bool" where
  "VerifyCode P c salt expected = (ConstantTimeCompare (HashCode P c salt) expected = 1)"

definition DeriveMasterKey :: "prims \<Rightarrow> string \<Rightarrow> bytes \<Rightarrow> bytes" where
  "DeriveMasterKey P passphrase salt =
     argon2_IDKey P (bytes_of passphrase) salt 4 (256 * 1024) 4 32"

definition HKDFKey :: "bytes \<Rightarrow> bytes \<Rightarrow> string \<Rightarrow> nat \<Rightarrow> error + bytes" where
  "HKDFKey secret salt info n = hkdf_read secret salt (bytes_of info) n"

definition PubkeyFingerprint :: "string \<Rightarrow> string" where
  "PubkeyFingerprint publicKey = hex_EncodeToString (sha256 (bytes_of publicKey))"

section \<open>Encryption\<close>

definition EncryptToReceiver ::
    "prims \<Rightarrow> string \<Rightarrow> bytes \<Rightarrow> 'a os_scheme \<Rightarrow> (error + bytes) \<times> 'a os_scheme" where
  "EncryptToReceiver P publicKey plaintext w =
     (if \<not> age_ParseRecipient P publicKey then (Inl (Err ''malformed recipient''), w)
      else case readRandom 64 w of
        (Inl e, w') \<Rightarrow> (Inl e, w')
      | (Inr rnd, w') \<Rightarrow>
          (Inr (wrapEnvelope envelopeVersion (age_Encrypt P publicKey rnd plaintext)), w'))"

definition DecryptFromReceiver :: "prims \<Rightarrow> string \<Rightarrow> bytes \<Rightarrow> error + bytes" where
  "DecryptFromReceiver P secretKey blob =
     (if \<not> age_ParseIdentity P secretKey then Inl (Err ''malformed secret key'')
      else case unwrapEnvelope blob of
        Inl e \<Rightarrow> Inl e
      | Inr (version, payload) \<Rightarrow>
          (if version \<noteq> envelopeVersion then Inl errOnlyV1
           else age_Decrypt P secretKey payload))"

definition EncryptSymmetric ::
    "prims \<Rightarrow> bytes \<Rightarrow> bytes \<Rightarrow> 'a os_scheme \<Rightarrow> (error + bytes) \<times> 'a os_scheme" where
  "EncryptSymmetric P key plaintext w =
     (if length key \<noteq> 32 then (Inl (Err ''chacha20poly1305: bad key length''), w)
      else case readRandom 24 w of
        (Inl e, w') \<Rightarrow> (Inl e, w')
      | (Inr nonce, w') \<Rightarrow>
          (let payload = nonce @ aead_Seal P key nonce plaintext
           in (Inr (wrapEnvelope envelopeVersion payload), w')))"

definition DecryptSymmetric :: "prims \<Rightarrow> bytes \<Rightarrow> bytes \<Rightarrow> error + bytes" where
  "DecryptSymmetric P key blob =
     (case unwrapEnvelope blob of
        Inl e \<Rightarrow> Inl e
      | Inr (version, payload) \<Rightarrow>
          (if version \<noteq> envelopeVersion then Inl errOnlyV1
           else if length key \<noteq> 32 then Inl (Err ''chacha20poly1305: bad key length'')
           else if length payload < 24 then Inl (Err ''ciphertext too short'')
           else case aead_Open P key (take 24 payload) (drop 24 payload) of
             None \<Rightarrow> Inl (Err ''chacha20poly1305: message authentication failed'')
           | Some pt \<Rightarrow> Inr pt))"

section \<open>Properties\<close>

lemma readRandom_ok:
  "readRandom n w = (Inr b, w') \<longleftrightarrow>
     n \<le> length (os_rng w) \<and> b = take n (os_rng w) \<and> w' = w\<lparr>os_rng := drop n (os_rng w)\<rparr>"
  by (auto simp: readRandom_def)

lemma readRandom_length: "readRandom n w = (Inr b, w') \<Longrightarrow> length b = n"
  by (auto simp: readRandom_ok)

lemma readRandom_fail:
  "readRandom n w = (Inl e, w') \<longleftrightarrow>
     length (os_rng w) < n \<and> e = ErrIO ''entropy source failed'' \<and> w' = w"
  by (auto simp: readRandom_def)

lemma readRandom_frame:
  "readRandom n w = (r, w') \<Longrightarrow>
     os_root w' = os_root w \<and> os_now w' = os_now w \<and> os_fault w' = os_fault w"
  by (auto simp: readRandom_def split: if_splits)

text \<open>The envelope parser accepts exactly the blobs that start with the magic, a
  big-endian version and two reserved bytes (whose value it ignores), and returns that version
  and everything after the eight-byte header.\<close>

lemma unwrapEnvelope_iff:
  "unwrapEnvelope blob = Inr (v, p) \<longleftrightarrow>
     (\<exists>reserved. length reserved = 2 \<and>
        blob = bytes_of ''KKK1'' @ be_bytes 2 (unat v) @ reserved @ p)"
proof
  assume ok: "unwrapEnvelope blob = Inr (v, p)"
  then have len: "8 \<le> length blob" and magic: "str_of (take 4 blob) = ''KKK1''"
    and v: "v = of_nat (be_val (take 2 (drop 4 blob)))" and p: "p = drop 8 blob"
    by (auto simp: unwrapEnvelope_def envelopeMagic_def split: if_splits)
  let ?ver = "take 2 (drop 4 blob)" and ?res = "take 2 (drop 6 blob)"
  have lens: "length ?ver = 2" "length ?res = 2" using len by simp_all
  have "be_val ?ver < 256 ^ 2" using be_val_less [of ?ver] lens by simp
  then have "unat v = be_val ?ver" using v by (simp add: unsigned_of_nat take_bit_nat_eq_self)
  then have ver: "be_bytes 2 (unat v) = ?ver" using be_bytes_be_val [OF lens(1)] by simp
  have m: "take 4 blob = bytes_of ''KKK1''"
    using magic by (metis bytes_of_str_of)
  have d6: "drop 6 blob = ?res @ drop 8 blob"
    using append_take_drop_id [of 2 "drop 6 blob", symmetric] by simp
  have d4: "drop 4 blob = ?ver @ drop 6 blob"
    using append_take_drop_id [of 2 "drop 4 blob", symmetric] by simp
  have "blob = take 4 blob @ drop 4 blob" by simp
  then have "blob = take 4 blob @ ?ver @ ?res @ drop 8 blob"
    by (simp only: d4 [symmetric] d6 [symmetric])
  with m ver p lens show "\<exists>reserved. length reserved = 2 \<and>
        blob = bytes_of ''KKK1'' @ be_bytes 2 (unat v) @ reserved @ p"
    by metis
next
  assume "\<exists>reserved. length reserved = 2 \<and>
        blob = bytes_of ''KKK1'' @ be_bytes 2 (unat v) @ reserved @ p"
  then obtain r where r: "length r = 2"
    and b: "blob = bytes_of ''KKK1'' @ be_bytes 2 (unat v) @ r @ p" by blast
  have "take 4 blob = bytes_of ''KKK1''" "take 2 (drop 4 blob) = be_bytes 2 (unat v)"
    "drop 8 blob = p"
    using r by (simp_all add: b del: be_bytes.simps)
  then show "unwrapEnvelope blob = Inr (v, p)"
    using r by (simp add: unwrapEnvelope_def envelopeMagic_def be_word16 b del: be_bytes.simps)
qed

text \<open>A reply or secrets blob sealed with a 32-byte key opens again, with the same key, to
  the plaintext; sealing succeeds whenever 24 bytes of entropy are available, and its nonce is
  entropy that no later call can see.\<close>

lemma symmetric_roundtrip:
  assumes "aead_correct P" and "length key = 32" and "24 \<le> length (os_rng w)"
  shows "\<exists>blob w'. EncryptSymmetric P key pt w = (Inr blob, w')
           \<and> DecryptSymmetric P key blob = Inr pt
           \<and> take 24 (drop 8 blob) = take 24 (os_rng w)
           \<and> w' = w\<lparr>os_rng := drop 24 (os_rng w)\<rparr>"
  using assms
  by (auto simp: EncryptSymmetric_def DecryptSymmetric_def readRandom_def aead_correct_def
      Let_def wrap_payload)

lemma symmetric_opens:
  assumes "aead_correct P" and "EncryptSymmetric P key pt w = (Inr blob, w')"
  shows "DecryptSymmetric P key blob = Inr pt"
  using assms
  by (auto simp: EncryptSymmetric_def DecryptSymmetric_def readRandom_def aead_correct_def
      Let_def wrap_payload split: if_splits)

lemma EncryptSymmetric_frame:
  "EncryptSymmetric P key pt w = (r, w') \<Longrightarrow>
     os_root w' = os_root w \<and> os_now w' = os_now w \<and> os_fault w' = os_fault w"
  by (auto simp: EncryptSymmetric_def Let_def split: if_splits prod.splits sum.splits
      dest!: readRandom_frame)

lemma receiver_roundtrip:
  assumes "age_correct P" and "length seed = 32" and "age_Keypair P seed = (pub, sec)"
    and "EncryptToReceiver P pub pt w = (Inr blob, w')"
  shows "DecryptFromReceiver P sec blob = Inr pt"
  using assms
  by (auto simp: EncryptToReceiver_def DecryptFromReceiver_def age_correct_def
      split: if_splits prod.splits sum.splits)

lemma code_index_mod: "code_index b0 b1 = (unat b0 * 256 + unat b1) mod 2048"
proof -
  have "push_bit 8 (unat b0) OR unat b1 = push_bit 8 (unat b0) + unat b1"
  proof (rule disjunctive_add_eq_or [symmetric], rule bit_eqI)
    fix n
    have "unat b1 = take_bit 8 (unat b1)"
      using unat_byte_less [of b1] by (simp add: take_bit_nat_eq_self)
    then have "bit (unat b1) n \<Longrightarrow> n < 8" by (metis bit_take_bit_iff)
    then show "bit (push_bit 8 (unat b0) AND unat b1) n = bit 0 n"
      by (auto simp: bit_simps)
  qed
  moreover have "x AND 0x07FF = x mod 2048" for x :: nat
  proof -
    have "x AND mask 11 = x mod 2 ^ 11"
      by (simp only: take_bit_eq_mask [symmetric] take_bit_eq_mod)
    then show ?thesis by (simp add: mask_eq_exp_minus_1)
  qed
  ultimately show ?thesis by (simp add: code_index_def push_bit_eq_mult)
qed


lemma code_index_less: "code_index b0 b1 < 2048"
  by (simp add: code_index_mod)

lemma card_mod_class:
  assumes "i < (2048 :: nat)"
  shows "card {n. n < 65536 \<and> n mod 2048 = i} = 32"
proof -
  have "{n. n < 65536 \<and> n mod 2048 = i} = (\<lambda>k. i + 2048 * k) ` {..<32}"
  proof (rule set_eqI, rule iffI)
    fix n assume "n \<in> {n. n < 65536 \<and> n mod 2048 = i}"
    then have "n = i + 2048 * (n div 2048)" and "n div 2048 < 32" by auto
    then show "n \<in> (\<lambda>k. i + 2048 * k) ` {..<32}" by blast
  next
    fix n assume "n \<in> (\<lambda>k. i + 2048 * k) ` {..<32}"
    then show "n \<in> {n. n < 65536 \<and> n mod 2048 = i}" using assms by auto
  qed
  moreover have "inj_on (\<lambda>k. i + 2048 * k) {..<32}" by (auto simp: inj_on_def)
  ultimately show ?thesis by (simp add: card_image)
qed

lemma byte_pair_less: "unat (b0 :: byte) * 256 + unat (b1 :: byte) < 65536"
  using unat_byte_less [of b0] unat_byte_less [of b1] by linarith

definition pair_val :: "byte \<times> byte \<Rightarrow> nat" where
  "pair_val x = unat (fst x) * 256 + unat (snd x)"

lemma byte_pair_bij: "bij_betw pair_val UNIV {n. n < 65536}"
proof (rule bij_betw_byWitness [where f' = "\<lambda>n. (of_nat (n div 256), of_nat (n mod 256))"])
  have "(unat b0 * 256 + unat b1) div 256 = unat b0" "(unat b0 * 256 + unat b1) mod 256 = unat b1"
    for b0 b1 :: byte
    using unat_byte_less [of b1] by simp_all
  then show "\<forall>a \<in> UNIV. (of_nat (pair_val a div 256), of_nat (pair_val a mod 256)) = a"
    by (simp add: pair_val_def)
  show "\<forall>n \<in> {n. n < 65536}. pair_val (of_nat (n div 256), of_nat (n mod 256)) = n"
    by (auto simp: pair_val_def)
  show "pair_val ` UNIV \<subseteq> {n. n < 65536}"
    by (auto simp: pair_val_def byte_pair_less)
qed simp

text \<open>The code generator is unbiased: of the 65536 values of the two random bytes spent on
  a word, exactly 32 select each of the 2048 words, and no value selects anything else.\<close>

lemma code_index_unbiased:
  "card {(b0, b1). code_index b0 b1 = i} = (if i < 2048 then 32 else 0)"
proof (cases "i < 2048")
  case True
  let ?A = "{n. n < 65536 \<and> n mod 2048 = i}"
  have eq: "{(b0, b1). code_index b0 b1 = i} = {x. pair_val x \<in> ?A}"
    by (auto simp: code_index_mod pair_val_def byte_pair_less)
  have "bij_betw pair_val {x. pair_val x \<in> ?A} ?A"
  proof (rule bij_betw_subset [OF byte_pair_bij])
    have "n \<in> range pair_val" if "n < 65536" for n
      using that bij_betw_imp_surj_on [OF byte_pair_bij] by blast
    then show "pair_val ` {x. pair_val x \<in> ?A} = ?A" by auto
  qed simp
  then have "card {x. pair_val x \<in> ?A} = card ?A" by (rule bij_betw_same_card)
  with True show ?thesis by (simp only: eq card_mod_class if_True)
next
  case False
  then have "{(b0, b1). code_index b0 b1 = i} = {}" using code_index_less by auto
  with False show ?thesis by simp
qed

lemma code_words_ok:
  "2 * n \<le> length (os_rng w) \<Longrightarrow>
   code_words words n w =
     (Inr (map (\<lambda>i. words ! code_index (os_rng w ! (2 * i)) (os_rng w ! (2 * i + 1))) [0 ..< n]),
      w\<lparr>os_rng := drop (2 * n) (os_rng w)\<rparr>)"
proof (induction n arbitrary: w)
  case 0
  then show ?case by simp
next
  case (Suc n)
  let ?r = "os_rng w" and ?w = "w\<lparr>os_rng := drop 2 (os_rng w)\<rparr>"
  have r: "readRandom 2 w = (Inr (take 2 ?r), ?w)" using Suc.prems by (simp add: readRandom_def)
  have len: "2 * n \<le> length (os_rng ?w)" using Suc.prems by simp
  have nth: "os_rng ?w ! j = ?r ! (2 + j)" if "j < 2 * n" for j
    using that Suc.prems by simp
  have "map (\<lambda>i. words ! code_index (?r ! (2 * i)) (?r ! (2 * i + 1))) [0 ..< Suc n]
      = words ! code_index (?r ! 0) (?r ! 1)
        # map (\<lambda>i. words ! code_index (os_rng ?w ! (2 * i)) (os_rng ?w ! (2 * i + 1))) [0 ..< n]"
    using nth by (simp only: upt_conv_Cons map_Suc_upt [symmetric]) (simp add: comp_def)
  with r Suc.IH [OF len] show ?case by simp
qed


definition code_word_list :: "prims \<Rightarrow> bytes \<Rightarrow> string list" where
  "code_word_list P r =
     map (\<lambda>i. bip39_words P ! code_index (r ! (2 * i)) (r ! (2 * i + 1))) [0 ..< 7]"

lemma GenerateCode_eq:
  "wordlist_ok P \<Longrightarrow> 14 \<le> length (os_rng w) \<Longrightarrow>
   GenerateCode P w =
     (Inr (str_Join (code_word_list P (os_rng w)) '' ''), w\<lparr>os_rng := drop 14 (os_rng w)\<rparr>)"
  by (simp add: GenerateCode_def wordlist_ok_def code_words_ok code_word_list_def
      del: code_words.simps upt_Suc)

lemma code_word_list_mem: "wordlist_ok P \<Longrightarrow> x \<in> set (code_word_list P r) \<Longrightarrow> x \<in> set (bip39_words P)"
  using code_index_less by (auto simp: code_word_list_def wordlist_ok_def)

lemma length_code_word_list [simp]: "length (code_word_list P r) = 7"
  by (simp add: code_word_list_def)

lemma hd_str_Join: "xs \<noteq> [] \<Longrightarrow> hd xs \<noteq> [] \<Longrightarrow> hd (str_Join xs sep) = hd (hd xs)"
  by (cases "(xs, sep)" rule: str_Join.cases) auto

lemma last_str_Join:
  "xs \<noteq> [] \<Longrightarrow> last xs \<noteq> [] \<Longrightarrow> str_Join xs sep \<noteq> [] \<and> last (str_Join xs sep) = last (last xs)"
  by (induction xs sep rule: str_Join.induct) auto

lemma TrimSpace_words:
  assumes "xs \<noteq> []" and "\<And>x c. x \<in> set xs \<Longrightarrow> x \<noteq> [] \<and> (c \<in> set x \<longrightarrow> \<not> space_char c)"
  shows "TrimSpace (str_Join xs sep) = str_Join xs sep"
proof -
  have h: "hd xs \<in> set xs" "last xs \<in> set xs" using assms(1) by simp_all
  then have "hd xs \<noteq> []" "last xs \<noteq> []" using assms(2) by blast+
  moreover from this have "\<not> space_char (hd (hd xs))" "\<not> space_char (last (last xs))"
    using h assms(2) hd_in_set last_in_set by blast+
  ultimately show ?thesis
    using assms(1) hd_str_Join [of xs sep] last_str_Join [of xs sep]
    by (intro TrimSpace_id) simp_all
qed

lemma GenerateCode_spec:
  assumes "wordlist_ok P" and "14 \<le> length (os_rng w)"
  shows "\<exists>ws. GenerateCode P w = (Inr (str_Join ws '' ''), w\<lparr>os_rng := drop 14 (os_rng w)\<rparr>)
           \<and> length ws = 7 \<and> set ws \<subseteq> set (bip39_words P)
           \<and> split_on (CHR '' '') (str_Join ws '' '') = ws
           \<and> TrimSpace (str_Join ws '' '') = str_Join ws '' ''"
proof (intro exI conjI)
  let ?ws = "code_word_list P (os_rng w)"
  have words: "x \<noteq> [] \<and> (\<forall>c \<in> set x. \<not> space_char c)" if "x \<in> set ?ws" for x
    using code_word_list_mem [OF assms(1) that] assms(1) by (simp add: wordlist_ok_def)
  have ne: "?ws \<noteq> []" by (metis length_code_word_list list.size(3) zero_neq_numeral)
  show "GenerateCode P w = (Inr (str_Join ?ws '' ''), w\<lparr>os_rng := drop 14 (os_rng w)\<rparr>)"
    by (rule GenerateCode_eq [OF assms])
  show "length ?ws = 7" by simp
  show "set ?ws \<subseteq> set (bip39_words P)" using code_word_list_mem [OF assms(1)] by blast
  have "space_char (CHR '' '')" by (simp add: space_char_def ordc_def)
  then show "split_on (CHR '' '') (str_Join ?ws '' '') = ?ws"
    using ne words by (intro split_on_Join) auto
  show "TrimSpace (str_Join ?ws '' '') = str_Join ?ws '' ''"
    using ne words by (intro TrimSpace_words) auto
qed

text \<open>A generated case code is seven words of the word list joined by single blanks; the
  words can be read back from the code, trimming user input that holds it changes nothing, and
  exactly fourteen bytes of entropy are spent.\<close>

lemma GenerateCode_words:
  assumes "wordlist_ok P" and "14 \<le> length (os_rng w)"
  shows "\<exists>ws. GenerateCode P w = (Inr (str_Join ws '' ''), w\<lparr>os_rng := drop 14 (os_rng w)\<rparr>)
           \<and> length ws = 7 \<and> set ws \<subseteq> set (bip39_words P)
           \<and> split_on (CHR '' '') (str_Join ws '' '') = ws
           \<and> TrimSpace (str_Join ws '' '') = str_Join ws '' ''"
  using assms by (rule GenerateCode_spec)

lemma GenerateCode_nonempty:
  assumes "wordlist_ok P" and "GenerateCode P w = (Inr c, w')"
  shows "c \<noteq> [] \<and> TrimSpace c = c"
proof -
  have "14 \<le> length (os_rng w)"
  proof (rule ccontr)
    assume short: "\<not> 14 \<le> length (os_rng w)"
    have "2 * n > length (os_rng v) \<Longrightarrow> \<exists>e v'. code_words ws n v = (Inl e, v')"
      for n ws and v :: "'a os_scheme"
    proof (induction n arbitrary: v)
      case 0
      then show ?case by simp
    next
      case (Suc n)
      show ?case
      proof (cases "readRandom 2 v")
        case (Pair r v')
        show ?thesis
        proof (cases r)
          case (Inl e)
          with Pair show ?thesis by simp
        next
          case (Inr b)
          with Pair have "os_rng v' = drop 2 (os_rng v)" "2 \<le> length (os_rng v)"
            by (auto simp: readRandom_ok)
          with Suc.prems have "length (os_rng v') < 2 * n" by simp
          with Suc.IH [of v'] Pair Inr show ?thesis by auto
        qed
      qed
    qed
    from this [of w 7 "bip39_words P"] short
    obtain e v' where "code_words (bip39_words P) 7 w = (Inl e, v')" by auto
    with assms show False
      by (simp add: GenerateCode_def wordlist_ok_def split: prod.splits sum.splits)
  qed
  from GenerateCode_spec [OF assms(1) this] assms(2) have
    "\<exists>ws. c = str_Join ws '' '' \<and> length ws = 7 \<and> set ws \<subseteq> set (bip39_words P) \<and> TrimSpace c = c"
    by auto
  then obtain ws where ws: "c = str_Join ws '' ''" "length ws = 7" "set ws \<subseteq> set (bip39_words P)"
    "TrimSpace c = c" by blast
  then have "ws \<noteq> []" by auto
  moreover from this ws assms(1) have "last ws \<noteq> []" by (auto simp: wordlist_ok_def subset_iff)
  ultimately show ?thesis using ws(1,4) last_str_Join [of ws "'' ''"] by metis
qed

end
