(* ===== verification/Mime.thy ===== *)
theory Mime
  imports Crypto
begin

text \<open>
  \<open>internal/kakekomi/mime.go\<close> and \<open>image.go\<close>: attachment sniffing, the allow-list check,
  the plain-text check, and metadata stripping.

  \<open>net/http.DetectContentType\<close> (WHATWG MIME sniffing) is modelled as its signature table,
  tried in order on the first 512 bytes.  The floating-point test
  \<open>float64(nul)/float64(len(b)+1) < 0.01\<close> is written over integers; the two agree for every
  buffer shorter than \<open>2^52\<close> bytes, because the quotient then differs from \<open>1/100\<close> by more
  than a rounding step whenever it differs at all.  The image codecs (\<open>image/jpeg\<close>, \<open>image/png\<close>,
  \<open>image/gif\<close>, \<open>golang.org/x/image/webp\<close>) are the fields of \<open>image_codecs\<close>.
\<close>

section \<open>Content sniffing\<close>

datatype sniff_sig =
    HtmlSig string
  | MaskedSig bytes bytes bool string
  | ExactSig bytes string
  | Mp4Sig
  | TextSig

definition is_ws :: "byte \<Rightarrow> bool" where
  "is_ws b \<longleftrightarrow> b \<in> {9, 10, 12, 13, 32}"

definition bytes_prefix :: "bytes \<Rightarrow> bytes \<Rightarrow> bool" where
  "bytes_prefix p d \<longleftrightarrow> take (length p) d = p"

definition html_char_match :: "byte \<Rightarrow> byte \<Rightarrow> bool" where
  "html_char_match b db = ((if 65 \<le> unat b \<and> unat b \<le> 90 then db AND 0xDF else db) = b)"

definition binary_byte :: "byte \<Rightarrow> bool" where
  "binary_byte b \<longleftrightarrow> (let n = unat b in
     n \<le> 8 \<or> n = 11 \<or> (14 \<le> n \<and> n \<le> 26) \<or> (28 \<le> n \<and> n \<le> 31))"

definition mp4_match :: "bytes \<Rightarrow> bool" where
  "mp4_match data =
     (12 \<le> length data \<and>
      (let box = be_val (take 4 data) in
         box \<le> length data \<and> box mod 4 = 0 \<and> take 4 (drop 4 data) = bytes_of ''ftyp''
         \<and> list_ex (\<lambda>i. let st = 4 * i in 8 \<le> st \<and> st < box \<and> st \<noteq> 12
               \<and> take 3 (drop st data) = bytes_of ''mp4'') [0 ..< length data div 4 + 1]))"

fun sig_match :: "bytes \<Rightarrow> bytes \<Rightarrow> sniff_sig \<Rightarrow> string option" where
  "sig_match data rest (HtmlSig h) =
     (if length rest < length h + 1 then None
      else if list_all2 html_char_match (bytes_of h) (take (length h) rest)
              \<and> rest ! length h \<in> {32, 62}
      then Some ''text/html; charset=utf-8'' else None)"
| "sig_match data rest (MaskedSig mk pat skipWS ct) =
     (let d = (if skipWS then rest else data) in
      if length pat \<noteq> length mk then None
      else if length d < length pat then None
      else if map2 (AND) (take (length pat) d) mk = pat then Some ct else None)"
| "sig_match data rest (ExactSig s ct) = (if bytes_prefix s data then Some ct else None)"
| "sig_match data rest Mp4Sig = (if mp4_match data then Some ''video/mp4'' else None)"
| "sig_match data rest TextSig =
     (if list_ex binary_byte rest then None else Some ''text/plain; charset=utf-8'')"

definition png_magic :: bytes where "png_magic = [0x89, 0x50, 0x4E, 0x47, 0x0D, 0x0A, 0x1A, 0x0A]"
definition jpeg_magic :: bytes where "jpeg_magic = [0xFF, 0xD8, 0xFF]"

definition riff_mask :: "nat \<Rightarrow> bytes" where
  "riff_mask n = replicate 4 0xFF @ replicate 4 0 @ replicate n 0xFF"

definition riff_pat :: "string \<Rightarrow> string \<Rightarrow> bytes" where
  "riff_pat a b = bytes_of a @ replicate 4 0 @ bytes_of b"

definition html_sigs :: "sniff_sig list" where
  "html_sigs = map HtmlSig
     [''<!DOCTYPE HTML'', ''<HTML'', ''<HEAD'', ''<SCRIPT'', ''<IFRAME'', ''<H1'', ''<DIV'', ''<FONT'',
      ''<TABLE'', ''<A'', ''<STYLE'', ''<TITLE'', ''<B'', ''<BODY'', ''<BR'', ''<P'', ''<!--'']"

definition doc_sigs :: "sniff_sig list" where
  "doc_sigs =
     [MaskedSig (replicate 5 0xFF) (bytes_of ''<?xml'') True ''text/xml; charset=utf-8'',
      ExactSig (bytes_of ''%PDF-'') ''application/pdf'',
      ExactSig (bytes_of ''%!PS-Adobe-'') ''application/postscript'',
      MaskedSig [0xFF, 0xFF, 0, 0] [0xFE, 0xFF, 0, 0] False ''text/plain; charset=utf-16be'',
      MaskedSig [0xFF, 0xFF, 0, 0] [0xFF, 0xFE, 0, 0] False ''text/plain; charset=utf-16le'',
      MaskedSig [0xFF, 0xFF, 0xFF, 0] [0xEF, 0xBB, 0xBF, 0] False ''text/plain; charset=utf-8'']"

definition image_sigs :: "sniff_sig list" where
  "image_sigs =
     [ExactSig [0, 0, 1, 0] ''image/x-icon'',
      ExactSig [0, 0, 2, 0] ''image/x-icon'',
      ExactSig (bytes_of ''BM'') ''image/bmp'',
      ExactSig (bytes_of ''GIF87a'') ''image/gif'',
      ExactSig (bytes_of ''GIF89a'') ''image/gif'',
      MaskedSig (riff_mask 6) (riff_pat ''RIFF'' ''WEBPVP'') False ''image/webp'',
      ExactSig png_magic ''image/png'',
      ExactSig jpeg_magic ''image/jpeg'']"

definition media_sigs :: "sniff_sig list" where
  "media_sigs =
     [MaskedSig (riff_mask 4) (riff_pat ''FORM'' ''AIFF'') False ''audio/aiff'',
      MaskedSig (replicate 3 0xFF) (bytes_of ''ID3'') False ''audio/mpeg'',
      MaskedSig (replicate 5 0xFF) (bytes_of ''OggS'' @ [0]) False ''application/ogg'',
      MaskedSig (replicate 8 0xFF) (bytes_of ''MThd'' @ [0, 0, 0, 6]) False ''audio/midi'',
      MaskedSig (riff_mask 4) (riff_pat ''RIFF'' ''AVI '') False ''video/avi'',
      MaskedSig (riff_mask 4) (riff_pat ''RIFF'' ''WAVE'') False ''audio/wave'',
      Mp4Sig,
      ExactSig [0x1A, 0x45, 0xDF, 0xA3] ''video/webm'']"

definition archive_sigs :: "sniff_sig list" where
  "archive_sigs =
     [MaskedSig (replicate 34 0 @ [0xFF, 0xFF]) (replicate 34 0 @ bytes_of ''LP'') False
        ''application/vnd.ms-fontobject'',
      ExactSig [0, 1, 0, 0] ''font/ttf'',
      ExactSig (bytes_of ''OTTO'') ''font/otf'',
      ExactSig (bytes_of ''ttcf'') ''font/collection'',
      ExactSig (bytes_of ''wOFF'') ''font/woff'',
      ExactSig (bytes_of ''wOF2'') ''font/woff2'',
      ExactSig [0x1F, 0x8B, 8] ''application/x-gzip'',
      ExactSig (bytes_of ''PK'' @ [3, 4]) ''application/zip'',
      ExactSig (bytes_of ''Rar!'' @ [0x1A, 7, 0]) ''application/x-rar-compressed'',
      ExactSig (bytes_of ''Rar!'' @ [0x1A, 7, 1, 0]) ''application/x-rar-compressed'',
      ExactSig (0 # bytes_of ''asm'') ''application/wasm'']"

definition sniff_sigs :: "sniff_sig list" where
  "sniff_sigs = html_sigs @ doc_sigs @ image_sigs @ media_sigs @ archive_sigs @ [TextSig]"

fun first_match :: "bytes \<Rightarrow> bytes \<Rightarrow> sniff_sig list \<Rightarrow> string option" where
  "first_match data rest [] = None"
| "first_match data rest (s # ss) =
     (case sig_match data rest s of None \<Rightarrow> first_match data rest ss | Some ct \<Rightarrow> Some ct)"

definition DetectContentType :: "bytes \<Rightarrow> string" where
  "DetectContentType data =
     (let d = take 512 data in
      case first_match d (dropWhile is_ws d) sniff_sigs of
        None \<Rightarrow> ''application/octet-stream'' | Some ct \<Rightarrow> ct)"

section \<open>Attachment checks\<close>

definition safeMIMEs :: "string list" where
  "safeMIMEs = [''image/jpeg'', ''image/png'', ''image/webp'', ''image/gif'', ''text/plain'']"

definition mimeIsSafe :: "string \<Rightarrow> bool" where
  "mimeIsSafe m \<longleftrightarrow> m \<in> set safeMIMEs"

definition SniffMIME :: "bytes \<Rightarrow> string" where
  "SniffMIME data =
     (let d = (if 512 < length data then take 512 data else data)
      in str_ToLower (takeWhile (\<lambda>c. c \<noteq> CHR '';'') (DetectContentType d)))"

fun str_list_contains :: "string list \<Rightarrow> string \<Rightarrow> bool" where
  "str_list_contains [] x = False"
| "str_list_contains (v # xs) x = (if v = x then True else str_list_contains xs x)"

fun bytes_Contains :: "bytes \<Rightarrow> bytes \<Rightarrow> bool" where
  "bytes_Contains [] t = (t = [])"
| "bytes_Contains (b # bs) t = (bytes_prefix t (b # bs) \<or> bytes_Contains bs t)"

definition looksLikeText :: "bytes \<Rightarrow> bool" where
  "looksLikeText b =
     (if bytes_Contains b [0xFF, 0xFE] \<or> bytes_Contains b [0xFE, 0xFF] then False
      else 100 * length (filter (\<lambda>c. c = 0) b) < length b + 1)"

definition errAttachmentUnsupported :: error where
  "errAttachmentUnsupported = Err ''attachment MIME unsupported (only image/* and text/plain)''"
definition errAttachmentDisallowed :: error where
  "errAttachmentDisallowed = Err ''attachment MIME not in config allowed list''"
definition errAttachmentNotPlainText :: error where
  "errAttachmentNotPlainText = Err ''attachment claims text/plain but contains binary bytes''"

definition VerifyAttachment :: "bytes \<Rightarrow> string list \<Rightarrow> string \<times> error option" where
  "VerifyAttachment data allowed =
     (let mt = SniffMIME data in
      if \<not> mimeIsSafe mt then (mt, Some errAttachmentUnsupported)
      else if \<not> str_list_contains allowed mt \<and> 0 < length allowed
      then (mt, Some errAttachmentDisallowed)
      else if mt = ''text/plain'' \<and> \<not> looksLikeText data
      then (mt, Some errAttachmentNotPlainText)
      else (mt, None))"

section \<open>Metadata stripping\<close>

record ('i, 'g) image_codecs =
  jpeg_Decode :: "bytes \<Rightarrow> error + 'i"
  jpeg_Encode :: "'i \<Rightarrow> nat \<Rightarrow> error + bytes"
  png_Decode :: "bytes \<Rightarrow> error + 'i"
  png_Encode :: "'i \<Rightarrow> error + bytes"
  gif_DecodeAll :: "bytes \<Rightarrow> error + 'g"
  gif_EncodeAll :: "'g \<Rightarrow> error + bytes"
  webp_Decode :: "bytes \<Rightarrow> error + 'i"

definition reencode :: "(bytes \<Rightarrow> error + 'i) \<Rightarrow> ('i \<Rightarrow> error + bytes) \<Rightarrow> string \<Rightarrow> bytes
    \<Rightarrow> error + (bytes \<times> string)" where
  "reencode decode encode outMIME input =
     (case decode input of
        Inl e \<Rightarrow> Inl e
      | Inr img \<Rightarrow> (case encode img of Inl e \<Rightarrow> Inl e | Inr b \<Rightarrow> Inr (b, outMIME)))"

definition StripImageMetadata :: "('i, 'g) image_codecs \<Rightarrow> bytes \<Rightarrow> error + (bytes \<times> string)" where
  "StripImageMetadata C input =
     (let mt = SniffMIME input in
      if mt = ''image/jpeg'' then reencode (jpeg_Decode C) (\<lambda>i. jpeg_Encode C i 90) ''image/jpeg'' input
      else if mt = ''image/png'' then reencode (png_Decode C) (png_Encode C) ''image/png'' input
      else if mt = ''image/gif'' then reencode (gif_DecodeAll C) (gif_EncodeAll C) ''image/gif'' input
      else if mt = ''image/webp'' then reencode (webp_Decode C) (png_Encode C) ''image/png'' input
      else Inr (input, mt))"

section \<open>Properties\<close>

lemma first_match_mem:
  "first_match data rest ss = Some ct \<Longrightarrow> \<exists>s \<in> set ss. sig_match data rest s = Some ct"
  by (induction ss) (auto split: option.splits)

definition mime_norm :: "string \<Rightarrow> string" where
  "mime_norm ct = str_ToLower (takeWhile (\<lambda>c. c \<noteq> CHR '';'') ct)"

lemma SniffMIME_norm: "SniffMIME data = mime_norm (DetectContentType data)"
  by (simp add: SniffMIME_def mime_norm_def DetectContentType_def Let_def min_def)

lemma str_list_contains_iff [simp]: "str_list_contains xs x \<longleftrightarrow> x \<in> set xs"
  by (induction xs) auto

text \<open>Which signatures of the table yield an accepted type.\<close>

definition accepting_sigs :: "sniff_sig list" where
  "accepting_sigs = filter (\<lambda>s. case s of
      HtmlSig h \<Rightarrow> mimeIsSafe (mime_norm ''text/html; charset=utf-8'')
    | MaskedSig mk pat skip ct \<Rightarrow> mimeIsSafe (mime_norm ct)
    | ExactSig p ct \<Rightarrow> mimeIsSafe (mime_norm ct)
    | Mp4Sig \<Rightarrow> mimeIsSafe (mime_norm ''video/mp4'')
    | TextSig \<Rightarrow> mimeIsSafe (mime_norm ''text/plain; charset=utf-8'')) sniff_sigs"

lemma accepting_sigs_eval:
  "accepting_sigs =
     [MaskedSig [0xFF, 0xFF, 0, 0] [0xFE, 0xFF, 0, 0] False ''text/plain; charset=utf-16be'',
      MaskedSig [0xFF, 0xFF, 0, 0] [0xFF, 0xFE, 0, 0] False ''text/plain; charset=utf-16le'',
      MaskedSig [0xFF, 0xFF, 0xFF, 0] [0xEF, 0xBB, 0xBF, 0] False ''text/plain; charset=utf-8'',
      ExactSig (bytes_of ''GIF87a'') ''image/gif'',
      ExactSig (bytes_of ''GIF89a'') ''image/gif'',
      MaskedSig (riff_mask 6) (riff_pat ''RIFF'' ''WEBPVP'') False ''image/webp'',
      ExactSig png_magic ''image/png'',
      ExactSig jpeg_magic ''image/jpeg'',
      TextSig]"
  by (simp add: accepting_sigs_def sniff_sigs_def html_sigs_def doc_sigs_def image_sigs_def
      media_sigs_def archive_sigs_def mimeIsSafe_def safeMIMEs_def mime_norm_def
      str_ToLower_def ascii_lower_def ordc_def)

lemma detect_accepting:
  assumes "mimeIsSafe (SniffMIME data)"
  shows "\<exists>s \<in> set accepting_sigs. \<exists>ct. SniffMIME data = mime_norm ct
     \<and> sig_match (take 512 data) (dropWhile is_ws (take 512 data)) s = Some ct"
proof -
  let ?d = "take 512 data" and ?r = "dropWhile is_ws (take 512 data)"
  show ?thesis
  proof (cases "first_match ?d ?r sniff_sigs")
    case None
    then have "SniffMIME data = mime_norm ''application/octet-stream''"
      by (simp add: SniffMIME_norm DetectContentType_def)
    with assms have False
      by (simp add: mimeIsSafe_def safeMIMEs_def mime_norm_def str_ToLower_def ascii_lower_def ordc_def)
    then show ?thesis ..
  next
    case (Some ct)
    then obtain s where s: "s \<in> set sniff_sigs" "sig_match ?d ?r s = Some ct"
      using first_match_mem by blast
    have sn: "SniffMIME data = mime_norm ct"
      using Some by (simp add: SniffMIME_norm DetectContentType_def)
    have "s \<in> set accepting_sigs"
      using s assms unfolding accepting_sigs_def set_filter mem_Collect_eq sn
      by (auto simp: Let_def split: sniff_sig.splits if_splits)
    with s sn show ?thesis by blast
  qed
qed

lemma bytes_prefix_take: "bytes_prefix p (take n d) \<Longrightarrow> bytes_prefix p d"
  by (auto simp: bytes_prefix_def min_def split: if_splits)

lemma length_8_decomp:
  assumes "14 \<le> length d" and "map2 (AND) (take 14 d) (riff_mask 6) = riff_pat ''RIFF'' ''WEBPVP''"
  shows "take 4 d = bytes_of ''RIFF'' \<and> take 6 (drop 8 d) = bytes_of ''WEBPVP''"
proof -
  have ff: "(b AND 0xFF :: byte) = b" for b
  proof -
    have "(0xFF :: byte) = - 1" by simp
    then show ?thesis by (simp only: and.right_neutral)
  qed
  have m: "take k (map2 (AND) xs ys) = map2 (AND) (take k xs) (take k ys)"
    "drop k (map2 (AND) xs ys) = map2 (AND) (drop k xs) (drop k ys)" for k and xs ys :: bytes
    by (simp_all add: take_map drop_map take_zip drop_zip)
  have id: "map2 (AND) xs (replicate (length xs) 0xFF) = xs" for xs :: bytes
    by (induction xs) (auto simp: ff)
  have "take 4 (map2 (AND) (take 14 d) (riff_mask 6)) = take 4 (riff_pat ''RIFF'' ''WEBPVP'')"
    "drop 8 (map2 (AND) (take 14 d) (riff_mask 6)) = drop 8 (riff_pat ''RIFF'' ''WEBPVP'')"
    using assms(2) by simp_all
  then have "map2 (AND) (take 4 d) (replicate 4 0xFF) = bytes_of ''RIFF''"
    "map2 (AND) (take 6 (drop 8 d)) (replicate 6 0xFF) = bytes_of ''WEBPVP''"
    unfolding m by (simp_all add: riff_mask_def riff_pat_def drop_take)
  with assms(1) id [of "take 4 d"] id [of "take 6 (drop 8 d)"] show ?thesis by simp
qed

lemma sig_accept_shape:
  assumes "s \<in> set accepting_sigs" and "sig_match d r s = Some ct"
  shows "mime_norm ct = ''text/plain''
    \<or> mime_norm ct = ''image/gif'' \<and> (bytes_prefix (bytes_of ''GIF87a'') d \<or> bytes_prefix (bytes_of ''GIF89a'') d)
    \<or> mime_norm ct = ''image/webp'' \<and> take 4 d = bytes_of ''RIFF'' \<and> take 6 (drop 8 d) = bytes_of ''WEBPVP''
    \<or> mime_norm ct = ''image/png'' \<and> bytes_prefix png_magic d
    \<or> mime_norm ct = ''image/jpeg'' \<and> bytes_prefix jpeg_magic d"
proof -
  have n: "mime_norm ''text/plain; charset=utf-16be'' = ''text/plain''"
    "mime_norm ''text/plain; charset=utf-16le'' = ''text/plain''"
    "mime_norm ''text/plain; charset=utf-8'' = ''text/plain''"
    "mime_norm ''image/gif'' = ''image/gif''" "mime_norm ''image/webp'' = ''image/webp''"
    "mime_norm ''image/png'' = ''image/png''" "mime_norm ''image/jpeg'' = ''image/jpeg''"
    by (simp_all add: mime_norm_def str_ToLower_def ascii_lower_def ordc_def)
  have l: "length (riff_pat ''RIFF'' ''WEBPVP'') = 14" by (simp add: riff_pat_def)
  have exact: "bytes_prefix q d \<and> ct = c" if "sig_match d r (ExactSig q c) = Some ct" for q c
    using that by (simp split: if_splits)
  have masked: "ct = c" if "sig_match d r (MaskedSig k q f c) = Some ct" for k q f c
    using that by (simp add: Let_def split: if_splits)
  have plain: "ct = ''text/plain; charset=utf-8''" if "sig_match d r TextSig = Some ct"
    using that by (simp split: if_splits)
  have webp: "take 4 d = bytes_of ''RIFF'' \<and> take 6 (drop 8 d) = bytes_of ''WEBPVP''"
    if "sig_match d r (MaskedSig (riff_mask 6) (riff_pat ''RIFF'' ''WEBPVP'') False c) = Some ct" for c
    using that by (intro length_8_decomp) (auto simp: l Let_def split: if_splits)
  from assms(1) show ?thesis
    unfolding accepting_sigs_eval list.set insert_iff empty_iff
    using assms(2) n exact masked plain webp by (elim disjE FalseE) (simp_all only:, blast+)
qed

text \<open>C39: an attachment that passes the check has a type of the fixed safe list that the
  configuration allows (or restricts nothing), an image starts with the magic bytes of its type
  whatever the client called it, and a text file has no UTF-16 byte-order pair and fewer than one
  NUL in a hundred bytes; a failing check names the type it saw and one of the three reasons.\<close>

theorem VerifyAttachment_sound:
  "case VerifyAttachment data allowed of
     (mt, None) \<Rightarrow>
       mt \<in> set safeMIMEs \<and> (allowed = [] \<or> mt \<in> set allowed) \<and>
       (mt = ''text/plain'' \<and> looksLikeText data
        \<or> mt = ''image/gif'' \<and> (bytes_prefix (bytes_of ''GIF87a'') data \<or> bytes_prefix (bytes_of ''GIF89a'') data)
        \<or> mt = ''image/webp'' \<and> take 4 data = bytes_of ''RIFF'' \<and> take 6 (drop 8 data) = bytes_of ''WEBPVP''
        \<or> mt = ''image/png'' \<and> bytes_prefix png_magic data
        \<or> mt = ''image/jpeg'' \<and> bytes_prefix jpeg_magic data)
   | (mt, Some e) \<Rightarrow>
       mt = SniffMIME data \<and>
       e \<in> {errAttachmentUnsupported, errAttachmentDisallowed, errAttachmentNotPlainText}"
proof (cases "snd (VerifyAttachment data allowed)")
  case None
  let ?mt = "SniffMIME data"
  have v: "VerifyAttachment data allowed = (?mt, None)" and safe: "mimeIsSafe ?mt"
    and al: "allowed = [] \<or> ?mt \<in> set allowed" and tx: "?mt = ''text/plain'' \<longrightarrow> looksLikeText data"
    using None by (auto simp: VerifyAttachment_def Let_def split: if_splits)
  obtain s ct where s: "s \<in> set accepting_sigs" "?mt = mime_norm ct"
    "sig_match (take 512 data) (dropWhile is_ws (take 512 data)) s = Some ct"
    using detect_accepting [OF safe] by blast
  note shape = sig_accept_shape [OF s(1,3), folded s(2)]
  have t: "take 4 (take 512 data) = take 4 data" "take 6 (drop 8 (take 512 data)) = take 6 (drop 8 data)"
    by (simp_all add: drop_take min_def)
  from shape tx al safe show ?thesis
    unfolding v t by (auto simp: mimeIsSafe_def dest: bytes_prefix_take)
next
  case (Some e)
  then show ?thesis
    by (cases "VerifyAttachment data allowed")
      (auto simp: VerifyAttachment_def Let_def split: if_splits)
qed

lemma replicate_num: "replicate (numeral k) x = x # replicate (pred_numeral k) x"
  by (simp add: numeral_eq_Suc)

lemma first_match_append:
  "first_match d r (xs @ ys) =
     (case first_match d r xs of None \<Rightarrow> first_match d r ys | Some ct \<Rightarrow> Some ct)"
  by (induction xs) (auto split: option.splits)

lemma html_sigs_first_byte:
  assumes "r = b # bs" and "b \<noteq> 60" 
  shows "first_match d r html_sigs = None"
proof -
  have "sig_match d r (HtmlSig (CHR ''<'' # h)) = None" for h
  proof -
    have "bytes_of (CHR ''<'' # h) = 60 # bytes_of h" by (simp add: bytes_of_def)
    moreover have "\<not> html_char_match 60 b" using assms(2) by (simp add: html_char_match_def)
    ultimately show ?thesis using assms(1) by simp
  qed
  then show ?thesis unfolding html_sigs_def by (simp del: sig_match.simps)
qed

text \<open>A PDF file is never accepted, whatever follows its header and whatever the
  configuration allows.\<close>

lemma pdf_rejected:
  "snd (VerifyAttachment (bytes_of ''%PDF-'' @ rest) allowed) = Some errAttachmentUnsupported"
proof -
  let ?d = "take 512 (bytes_of ''%PDF-'' @ rest)"
  have b: "bytes_of ''%PDF-'' = [37, 80, 68, 70, 45]" by (simp add: bytes_of_def)
  then have d: "?d = [37, 80, 68, 70, 45] @ take 507 rest" by simp
  have r: "dropWhile is_ws ?d = ?d" unfolding d by (simp add: is_ws_def)
  have "first_match ?d ?d html_sigs = None"
    unfolding d by (rule html_sigs_first_byte [where b = 37]) simp_all
  moreover have "first_match ?d ?d doc_sigs = Some ''application/pdf''"
    unfolding d doc_sigs_def by (simp add: b bytes_prefix_def bytes_of_def replicate_num)
  ultimately have "DetectContentType (bytes_of ''%PDF-'' @ rest) = ''application/pdf''"
    unfolding DetectContentType_def Let_def r sniff_sigs_def first_match_append by simp
  then have "\<not> mimeIsSafe (SniffMIME (bytes_of ''%PDF-'' @ rest))"
    by (simp add: SniffMIME_norm mime_norm_def mimeIsSafe_def safeMIMEs_def str_ToLower_def
        ascii_lower_def ordc_def)
  then show ?thesis by (simp add: VerifyAttachment_def)
qed

text \<open>Two files the check lets through as plain text: an SVG drawing without an XML prolog, and
  a byte that is not valid UTF-8.\<close>

lemmas sniff_eval =
  VerifyAttachment_def SniffMIME_def DetectContentType_def sniff_sigs_def html_sigs_def doc_sigs_def
  image_sigs_def media_sigs_def archive_sigs_def bytes_of_def bytes_prefix_def html_char_match_def
  is_ws_def binary_byte_def mp4_match_def looksLikeText_def mimeIsSafe_def safeMIMEs_def
  str_ToLower_def ascii_lower_def ordc_def png_magic_def jpeg_magic_def riff_mask_def riff_pat_def
  replicate_num Let_def

lemma svg_accepted_as_text:
  "VerifyAttachment (bytes_of ''<svg onload=x>'') [''text/plain''] = (''text/plain'', None)"
  by (simp add: sniff_eval)

lemma non_utf8_accepted_as_text:
  "VerifyAttachment [0x80] [''text/plain''] = (''text/plain'', None)"
  by (simp add: sniff_eval)

definition same_pixels :: "('i, 'g) image_codecs \<Rightarrow> bytes \<Rightarrow> bytes \<Rightarrow> bool" where
  "same_pixels C a b \<longleftrightarrow> SniffMIME a = SniffMIME b
     \<and> (SniffMIME a = ''image/jpeg'' \<longrightarrow> jpeg_Decode C a = jpeg_Decode C b)
     \<and> (SniffMIME a = ''image/png'' \<longrightarrow> png_Decode C a = png_Decode C b)
     \<and> (SniffMIME a = ''image/gif'' \<longrightarrow> gif_DecodeAll C a = gif_DecodeAll C b)
     \<and> (SniffMIME a = ''image/webp'' \<longrightarrow> webp_Decode C a = webp_Decode C b)"

lemma reencode_cong: "decode a = decode b \<Longrightarrow> reencode decode encode m a = reencode decode encode m b"
  by (simp add: reencode_def)

lemma reencode_mime: "reencode decode encode m a = Inr (out, m') \<Longrightarrow> m' = m"
  by (auto simp: reencode_def split: sum.splits)

lemma strip_cases:
  "SniffMIME a = ''image/jpeg'' \<Longrightarrow>
     StripImageMetadata C a = reencode (jpeg_Decode C) (\<lambda>i. jpeg_Encode C i 90) ''image/jpeg'' a"
  "SniffMIME a = ''image/png'' \<Longrightarrow>
     StripImageMetadata C a = reencode (png_Decode C) (png_Encode C) ''image/png'' a"
  "SniffMIME a = ''image/gif'' \<Longrightarrow>
     StripImageMetadata C a = reencode (gif_DecodeAll C) (gif_EncodeAll C) ''image/gif'' a"
  "SniffMIME a = ''image/webp'' \<Longrightarrow>
     StripImageMetadata C a = reencode (webp_Decode C) (png_Encode C) ''image/png'' a"
  by (simp_all add: StripImageMetadata_def)

text \<open>Metadata stripping depends on the decoded pixels only: two accepted image files of the
  same type that decode to the same image give the same result, so nothing else the file carried
  survives; and the result, when there is one, is a JPEG, PNG or GIF encoding.\<close>

lemma strip_depends_on_pixels:
  assumes "same_pixels C a b" and "mimeIsSafe (SniffMIME a)" and "SniffMIME a \<noteq> ''text/plain''"
  shows "StripImageMetadata C a = StripImageMetadata C b
    \<and> (\<forall>out m. StripImageMetadata C a = Inr (out, m) \<longrightarrow>
          m \<in> {''image/jpeg'', ''image/png'', ''image/gif''})"
proof -
  from assms(2,3) consider "SniffMIME a = ''image/jpeg''" | "SniffMIME a = ''image/png''"
    | "SniffMIME a = ''image/gif''" | "SniffMIME a = ''image/webp''"
    unfolding mimeIsSafe_def safeMIMEs_def by (simp only: list.set insert_iff empty_iff) blast
  then show ?thesis
  proof cases
    case 1
    then have b: "SniffMIME b = ''image/jpeg''" "jpeg_Decode C a = jpeg_Decode C b"
      using assms(1) unfolding same_pixels_def by metis+
    show ?thesis unfolding strip_cases(1) [OF 1] strip_cases(1) [OF b(1)]
      using reencode_cong [OF b(2)] by (blast dest: reencode_mime)
  next
    case 2
    then have b: "SniffMIME b = ''image/png''" "png_Decode C a = png_Decode C b"
      using assms(1) unfolding same_pixels_def by metis+
    show ?thesis unfolding strip_cases(2) [OF 2] strip_cases(2) [OF b(1)]
      using reencode_cong [OF b(2)] by (blast dest: reencode_mime)
  next
    case 3
    then have b: "SniffMIME b = ''image/gif''" "gif_DecodeAll C a = gif_DecodeAll C b"
      using assms(1) unfolding same_pixels_def by metis+
    show ?thesis unfolding strip_cases(3) [OF 3] strip_cases(3) [OF b(1)]
      using reencode_cong [OF b(2)] by (blast dest: reencode_mime)
  next
    case 4
    then have b: "SniffMIME b = ''image/webp''" "webp_Decode C a = webp_Decode C b"
      using assms(1) unfolding same_pixels_def by metis+
    show ?thesis unfolding strip_cases(4) [OF 4] strip_cases(4) [OF b(1)]
      using reencode_cong [OF b(2)] by (blast dest: reencode_mime)
  qed
qed

definition demo_codecs :: "(bytes, bytes) image_codecs" where
  "demo_codecs = \<lparr>jpeg_Decode = \<lambda>b. Inr (take 3 b), jpeg_Encode = \<lambda>i q. Inr i,
     png_Decode = \<lambda>b. Inr (take 8 b), png_Encode = \<lambda>i. Inr i,
     gif_DecodeAll = \<lambda>b. Inr (take 6 b), gif_EncodeAll = \<lambda>i. Inr i,
     webp_Decode = \<lambda>b. Inr (take 14 b)\<rparr>"

lemma demo_png_sniff: "SniffMIME (png_magic @ [1, 1]) = ''image/png''"
  "SniffMIME (png_magic @ [2, 2]) = ''image/png''"
  by code_simp+

end
