(* ===== verification/Demo_Prims.thy ===== *)
theory Demo_Prims
  imports Crypto
begin

text \<open>
  A concrete instance of the third-party primitives, used by the witnesses to show that the
  hypotheses \<open>aead_correct\<close>, \<open>age_correct\<close>, \<open>argon2_sized\<close> and \<open>wordlist_ok\<close> can hold
  together.  It is not a cipher: sealing appends a tag and an age file names its recipient.
\<close>

definition demo_word :: "nat \<Rightarrow> string" where
  "demo_word n = [char_of (97 + n div 676), char_of (97 + n div 26 mod 26), char_of (97 + n mod 26)]"

definition demo_tag :: bytes where "demo_tag = replicate 16 0"

definition demo_prims :: prims where
  "demo_prims = \<lparr>
     argon2_IDKey = (\<lambda>pw salt t m p n. take n (pw @ salt @ replicate n 0)),
     aead_Seal = (\<lambda>k nonce pt. pt @ demo_tag),
     aead_Open = (\<lambda>k nonce ct.
       if length ct < 16 then None
       else if drop (length ct - 16) ct = demo_tag then Some (take (length ct - 16) ct) else None),
     age_Keypair = (\<lambda>seed. (CHR ''p'' # hex_EncodeToString seed, CHR ''s'' # hex_EncodeToString seed)),
     age_ParseRecipient = (\<lambda>s. HasPrefix s ''p''),
     age_Encrypt = (\<lambda>pub rnd pt. of_nat (length pub) # bytes_of pub @ pt),
     age_ParseIdentity = (\<lambda>s. HasPrefix s ''s''),
     age_Decrypt = (\<lambda>sec ct.
       if take (length sec) (drop 1 ct) = bytes_of (CHR ''p'' # tl sec)
       then Inr (drop (Suc (length sec)) ct) else Inl (Err ''no identity matched'')),
     bip39_words = map demo_word [0 ..< 2048],
     totp_Validate = (\<lambda>t c secret. c = secret),
     totp_Secret = (\<lambda>b. map (\<lambda>w. char_of (65 + unat w mod 16)) b)\<rparr>"

lemma demo_aead: "aead_correct demo_prims"
  by (simp add: aead_correct_def demo_prims_def demo_tag_def)

lemma demo_age: "age_correct demo_prims"
  by (auto simp: age_correct_def demo_prims_def)

lemma demo_argon2: "argon2_sized demo_prims"
  by (auto simp: argon2_sized_def demo_prims_def)

lemma demo_word_inj: "n < 2048 \<Longrightarrow> m < 2048 \<Longrightarrow> demo_word n = demo_word m \<Longrightarrow> n = m"
proof -
  assume n: "n < 2048" and m: "m < 2048" and eq: "demo_word n = demo_word m"
  have inj: "a = b" if "char_of a = char_of b" "a < 256" "b < 256" for a b :: nat
    using that by (metis ordc_char_of)
  from n m have b: "97 + n div 676 < 256" "97 + m div 676 < 256" by auto
  have "97 + n div 676 = 97 + m div 676" using eq b by (intro inj) (simp_all add: demo_word_def)
  moreover have "97 + n div 26 mod 26 = 97 + m div 26 mod 26"
    using eq by (intro inj) (simp_all add: demo_word_def)
  moreover have "97 + n mod 26 = 97 + m mod 26"
    using eq by (intro inj) (simp_all add: demo_word_def)
  ultimately have d: "n div 676 = m div 676" "n div 26 mod 26 = m div 26 mod 26"
    "n mod 26 = m mod 26" by simp_all
  have "x div 676 = (x div 26) div 26" for x :: nat by (simp add: div_mult2_eq [symmetric])
  with d have "n div 26 = m div 26" by (metis div_mult_mod_eq)
  with d show "n = m" by (metis div_mult_mod_eq)
qed

lemma demo_word_plain: "n < 2048 \<Longrightarrow> c \<in> set (demo_word n) \<Longrightarrow> \<not> space_char c"
  by (auto simp: demo_word_def space_char_def)

lemma demo_wordlist: "wordlist_ok demo_prims"
proof -
  have "inj_on demo_word {0 ..< 2048}" by (auto intro!: inj_onI demo_word_inj)
  then have "distinct (map demo_word [0 ..< 2048])" by (simp add: distinct_map)
  then show ?thesis
    by (auto simp: wordlist_ok_def demo_prims_def dest: demo_word_plain)
      (simp add: demo_word_def)
qed

lemmas demo_laws = demo_aead demo_age demo_argon2 demo_wordlist

definition demo_os :: os where
  "demo_os = \<lparr>os_now = 1778803200 * 10 ^ 9, os_rng = replicate 400 7, os_root = Dir [],
     os_fault = (\<lambda>_ _. NoFault)\<rparr>"

lemma demo_rng: "os_rng demo_os = replicate 400 7"
  by (simp add: demo_os_def)

end
