(* ===== verification/Pow.thy ===== *)
theory Pow
  imports Demo_Prims
begin

text \<open>
  \<open>internal/kakekomi/pow.go\<close>: the server-side proof-of-work token
  \<open>hex(ts || nonce || HMAC(key, ts || nonce)[:16])\<close>, its verification against a five-minute
  window, and the SHA-256 hash chain.  The clock is in nanoseconds; \<open>time.Since\<close> saturates
  at the range of a 64-bit duration.
\<close>

definition second :: int where "second = 1000000000"

definition unix_seconds :: "int \<Rightarrow> int" where
  "unix_seconds t = t div second"

definition sat64 :: "int \<Rightarrow> int" where
  "sat64 d = max (- (2 ^ 63)) (min (2 ^ 63 - 1) d)"

definition powTokenLifetime :: int where "powTokenLifetime = 5 * 60 * second"

definition powHashChainCost :: int where "powHashChainCost = 65536"

definition errBadPoWToken :: error where "errBadPoWToken = Err ''invalid PoW token''"
definition errExpiredPoWToken :: error where "errExpiredPoWToken = Err ''PoW token expired''"

definition pow_mac :: "bytes \<Rightarrow> bytes \<Rightarrow> bytes \<Rightarrow> bytes" where
  "pow_mac key ts nonce = take 16 (hmac_sha256 key (ts @ nonce))"

definition IssuePoWToken :: "bytes \<Rightarrow> 'a os_scheme \<Rightarrow> string \<times> 'a os_scheme" where
  "IssuePoWToken key w =
     (let ts = be_bytes 8 (nat (unix_seconds (os_now w) mod 2 ^ 64)) in
      case readRandom 16 w of
        (Inl e, w') \<Rightarrow> ([], w')
      | (Inr nonce, w') \<Rightarrow>
          (hex_EncodeToString (ts @ nonce @ pow_mac key ts nonce), w'))"

definition VerifyPoWToken :: "bytes \<Rightarrow> string \<Rightarrow> 'a os_scheme \<Rightarrow> error option" where
  "VerifyPoWToken key token w =
     (case hex_DecodeString (TrimSpace token) of
        None \<Rightarrow> Some errBadPoWToken
      | Some raw \<Rightarrow>
          (if length raw \<noteq> 40 then Some errBadPoWToken
           else
             let ts = take 8 raw; nonce = take 16 (drop 8 raw); got = drop 24 raw in
             if \<not> hmac_Equal got (pow_mac key ts nonce) then Some errBadPoWToken
             else
               let tsVal = i64 (int (be_val ts)); age = sat64 (os_now w - tsVal * second) in
               if age < 0 \<or> powTokenLifetime < age then Some errExpiredPoWToken
               else None))"

fun hash_chain :: "nat \<Rightarrow> bytes \<Rightarrow> bytes" where
  "hash_chain 0 buf = buf"
| "hash_chain (Suc n) buf = hash_chain n (sha256 buf)"

definition PoWWork :: "string \<Rightarrow> int \<Rightarrow> bytes" where
  "PoWWork token cost =
     (let c = (if cost \<le> 0 then powHashChainCost else cost)
      in hash_chain (nat c) (sha256 (bytes_of token)))"

section \<open>Properties\<close>

lemma length_pow_mac [simp, len_simps]: "length (pow_mac key ts nonce) = 16"
  unfolding pow_mac_def by (rule hm.mac_take_length) simp

lemma hash_chain_funpow: "hash_chain n buf = (sha256 ^^ n) buf"
  by (induction n arbitrary: buf) (simp_all add: funpow_swap1)

text \<open>The work function hashes the token once and then runs exactly \<open>cost\<close> further SHA-256
  iterations, 65536 of them when the configured cost is zero or negative, so no configuration
  switches the work off.\<close>

lemma PoWWork_iterations:
  "\<exists>n. PoWWork token cost = (sha256 ^^ Suc n) (bytes_of token)
       \<and> 0 < n \<and> (0 < cost \<longrightarrow> int n = cost) \<and> (cost \<le> 0 \<longrightarrow> n = 65536)"
proof -
  let ?n = "nat (if cost \<le> 0 then powHashChainCost else cost)"
  have "PoWWork token cost = (sha256 ^^ Suc ?n) (bytes_of token)"
    by (simp add: PoWWork_def Let_def hash_chain_funpow funpow_swap1)
  moreover have "0 < ?n \<and> (0 < cost \<longrightarrow> int ?n = cost) \<and> (cost \<le> 0 \<longrightarrow> ?n = 65536)"
    by (simp add: powHashChainCost_def)
  ultimately show ?thesis by blast
qed

definition pow_window :: "'a os_scheme \<Rightarrow> bytes \<Rightarrow> bool" where
  "pow_window w ts \<longleftrightarrow>
     (let age = sat64 (os_now w - i64 (int (be_val ts)) * second)
      in 0 \<le> age \<and> age \<le> powTokenLifetime)"

text \<open>A proof-of-work token is accepted exactly when, blanks aside, it is the hexadecimal
  form (of either case) of a timestamp, a nonce and the first sixteen bytes of the server's HMAC
  over both, and the timestamp lies at most five minutes in the past and not in the future.\<close>

lemma VerifyPoWToken_iff:
  "VerifyPoWToken key token w = None \<longleftrightarrow>
     (\<exists>ts nonce. length ts = 8 \<and> length nonce = 16
        \<and> hex_DecodeString (TrimSpace token) = Some (ts @ nonce @ pow_mac key ts nonce)
        \<and> pow_window w ts)"
proof
  assume "VerifyPoWToken key token w = None"
  then obtain raw where raw: "hex_DecodeString (TrimSpace token) = Some raw" "length raw = 40"
    and mac: "drop 24 raw = pow_mac key (take 8 raw) (take 16 (drop 8 raw))"
    and win: "pow_window w (take 8 raw)"
    by (auto simp: VerifyPoWToken_def Let_def pow_window_def split: option.splits if_splits)
  have "raw = take 8 raw @ take 16 (drop 8 raw) @ drop 24 raw"
    using append_take_drop_id [of 16 "drop 8 raw", symmetric] by simp
  then have split: "raw = take 8 raw @ take 16 (drop 8 raw)
      @ pow_mac key (take 8 raw) (take 16 (drop 8 raw))"
    by (simp only: mac [symmetric])
  show "\<exists>ts nonce. length ts = 8 \<and> length nonce = 16
        \<and> hex_DecodeString (TrimSpace token) = Some (ts @ nonce @ pow_mac key ts nonce)
        \<and> pow_window w ts"
  proof (intro exI conjI)
    show "length (take 8 raw) = 8" "length (take 16 (drop 8 raw)) = 16" using raw by simp_all
    show "hex_DecodeString (TrimSpace token) = Some (take 8 raw @ take 16 (drop 8 raw)
      @ pow_mac key (take 8 raw) (take 16 (drop 8 raw)))"
      using raw(1) split by simp
    show "pow_window w (take 8 raw)" by (rule win)
  qed
next
  assume "\<exists>ts nonce. length ts = 8 \<and> length nonce = 16
        \<and> hex_DecodeString (TrimSpace token) = Some (ts @ nonce @ pow_mac key ts nonce)
        \<and> pow_window w ts"
  then obtain ts nonce where len: "length ts = 8" "length nonce = 16"
    and dec: "hex_DecodeString (TrimSpace token) = Some (ts @ nonce @ pow_mac key ts nonce)"
    and win: "pow_window w ts" by blast
  then show "VerifyPoWToken key token w = None"
    by (simp add: VerifyPoWToken_def Let_def pow_window_def not_less not_le)
qed

lemma sane_seconds:
  assumes "0 \<le> t" and "t < 2 ^ 63"
  shows "i64 (int (be_val (be_bytes 8 (nat (unix_seconds t mod 2 ^ 64))))) = unix_seconds t"
proof -
  have r: "0 \<le> unix_seconds t" "unix_seconds t < 2 ^ 63"
    using assms by (simp_all add: unix_seconds_def second_def pos_imp_zdiv_nonneg_iff)
  then have m: "unix_seconds t mod 2 ^ 64 = unix_seconds t" by simp
  have "nat (unix_seconds t) < 256 ^ 8" using r by (simp add: nat_less_iff)
  then have "be_val (be_bytes 8 (nat (unix_seconds t))) = nat (unix_seconds t)"
    by (simp add: be_val_be_bytes del: be_bytes.simps)
  with r m show ?thesis by (simp add: i64_id del: be_bytes.simps)
qed

text \<open>A token issued at one time and checked at another, on the same key, passes exactly
  while its age, counted from the issue second, is between zero and five minutes; after that the
  answer is "expired", never "invalid".\<close>

lemma issued_token_lifetime:
  assumes "IssuePoWToken key w = (tok, w')" and "16 \<le> length (os_rng w)"
    and "0 \<le> os_now w" and "os_now w < 2 ^ 63" and "0 \<le> os_now v" and "os_now v < 2 ^ 63"
  shows "VerifyPoWToken key tok v =
     (let age = os_now v - unix_seconds (os_now w) * second
      in if 0 \<le> age \<and> age \<le> 300 * second then None else Some errExpiredPoWToken)"
proof -
  let ?ts = "be_bytes 8 (nat (unix_seconds (os_now w) mod 2 ^ 64))"
  let ?nonce = "take 16 (os_rng w)"
  let ?age = "os_now v - unix_seconds (os_now w) * second"
  have tok: "tok = hex_EncodeToString (?ts @ ?nonce @ pow_mac key ?ts ?nonce)"
    using assms(1,2) by (simp add: IssuePoWToken_def readRandom_def Let_def del: be_bytes.simps)
  have "unix_seconds (os_now w) * second \<le> os_now w" "0 \<le> unix_seconds (os_now w) * second"
    using assms(3) by (simp_all add: unix_seconds_def second_def pos_imp_zdiv_nonneg_iff)
  then have sat: "sat64 ?age = ?age" using assms(4,5,6) by (simp add: sat64_def)
  have win: "pow_window v ?ts \<longleftrightarrow> 0 \<le> ?age \<and> ?age \<le> 300 * second"
    unfolding pow_window_def Let_def sane_seconds [OF assms(3,4)] sat powTokenLifetime_def
    by simp
  have len: "length ?nonce = 16" using assms(2) by simp
  have split: "take 8 (?ts @ ?nonce @ m) = ?ts" "take 16 (drop 8 (?ts @ ?nonce @ m)) = ?nonce"
    "drop 24 (?ts @ ?nonce @ m) = m" for m
    using len by (simp_all del: be_bytes.simps)
  show ?thesis
    using win len
    by (auto simp: VerifyPoWToken_def tok Let_def split pow_window_def not_le simp del: be_bytes.simps)
qed

end
