(* ===== verification/Padding.thy ===== *)
theory Padding
  imports Pow
begin

text \<open>
  \<open>internal/kakekomi/padding.go\<close>: the padded response writer, the fixed wait and the size
  buckets of the inbox.  \<open>strings.Repeat\<close> panics on a negative count; \<open>None\<close> is that panic.
\<close>

definition blockSize :: int where "blockSize = 4096"

definition str_Repeat :: "string \<Rightarrow> int \<Rightarrow> string option" where
  "str_Repeat s n = (if n < 0 then None else Some (concat (replicate (nat n) s)))"

definition neededPad :: "int \<Rightarrow> int" where
  "neededPad n =
     (let r = n mod blockSize in
      if r = 0 then 0
      else let p = blockSize - r in if p < 14 then p + blockSize else p)"

record padded_writer =
  pw_buf :: string
  pw_wrote :: bool

definition NewPaddedWriter :: padded_writer where
  "NewPaddedWriter = \<lparr>pw_buf = [], pw_wrote = False\<rparr>"

definition pw_Write :: "string \<Rightarrow> padded_writer \<Rightarrow> padded_writer" where
  "pw_Write b p = p\<lparr>pw_buf := pw_buf p @ b, pw_wrote := True\<rparr>"

definition pad_prefix :: string where "pad_prefix = CHR 0x0A # ''<!-- pad:''"
definition pad_suffix :: string where "pad_suffix = '' -->''"

definition pw_Flush :: "padded_writer \<Rightarrow> string option" where
  "pw_Flush p =
     (let body = pw_buf p; pad = neededPad (int (length body)) in
      if 0 < pad
      then (case str_Repeat ''x'' (pad - int (length pad_prefix) - int (length pad_suffix)) of
              None \<Rightarrow> None
            | Some fill \<Rightarrow> Some (body @ pad_prefix @ fill @ pad_suffix))
      else Some body)"

definition pad_body :: "string \<Rightarrow> string option" where
  "pad_body body = pw_Flush (pw_Write body NewPaddedWriter)"

definition FixedWaitUntil :: "int \<Rightarrow> 'a os_scheme \<Rightarrow> 'a os_scheme" where
  "FixedWaitUntil deadline w =
     (let d = deadline - os_now w in if 0 < d then w\<lparr>os_now := os_now w + d\<rparr> else w)"

text \<open>The labels are UTF-8: the size words are written as their bytes.\<close>

definition bucket_small :: string where
  "bucket_small = map char_of [0xE5, 0xB0, 0x8F :: nat] @ '' (<100KB)''"
definition bucket_medium :: string where
  "bucket_medium = map char_of [0xE4, 0xB8, 0xAD :: nat] @ '' (100KB-1MB)''"
definition bucket_large :: string where
  "bucket_large = map char_of [0xE5, 0xA4, 0xA7 :: nat] @ '' (1-10MB)''"
definition bucket_huge :: string where
  "bucket_huge = map char_of [0xE7, 0x89, 0xB9, 0xE5, 0xA4, 0xA7 :: nat] @ '' (>10MB)''"

definition SizeBucket :: "int \<Rightarrow> string" where
  "SizeBucket n =
     (if n < 100 * 1024 then bucket_small
      else if n < 1024 * 1024 then bucket_medium
      else if n < 10 * 1024 * 1024 then bucket_large
      else bucket_huge)"

section \<open>Properties\<close>

lemma neededPad_cases:
  "neededPad n = 0 \<and> n mod 4096 = 0
    \<or> 14 \<le> neededPad n \<and> neededPad n < 4110 \<and> (n + neededPad n) mod 4096 = 0"
proof (cases "n mod 4096 = 0")
  case True
  then show ?thesis by (simp add: neededPad_def blockSize_def)
next
  case False
  define r where "r = n mod 4096"
  define q where "q = n div 4096"
  have n: "n = 4096 * q + r" by (simp add: q_def r_def)
  have r: "r \<noteq> 0" "0 \<le> r" "r < 4096" using False by (simp_all add: r_def)
  have np: "neededPad n = (if 4096 - r < 14 then 8192 - r else 4096 - r)"
    using r by (simp add: neededPad_def blockSize_def Let_def r_def [symmetric])
  then have "n + neededPad n = 4096 * (q + (if 4096 - r < 14 then 2 else 1))"
    by (simp add: n)
  then have "(n + neededPad n) mod 4096 = 0" by (simp only: mod_mult_self1_is_0)
  with np r show ?thesis by auto
qed

lemma neededPad_mono_block: "neededPad n \<noteq> 0 \<Longrightarrow> 0 < neededPad n"
  by (auto simp: neededPad_def blockSize_def Let_def split: if_splits)

lemma pad_body_spec:
  "\<exists>out fill. pad_body body = Some out \<and> 4096 dvd length out
     \<and> length out < length body + 4096 + 14
     \<and> (out = body \<or> out = body @ (CHR 0x0A # ''<!-- pad:'') @ replicate fill (CHR ''x'') @ '' -->'')"
proof -
  let ?pad = "neededPad (int (length body))"
  have c: "concat (replicate k ''x'') = replicate k (CHR ''x'')" for k
    by (induction k) auto
  consider "?pad = 0" "int (length body) mod 4096 = 0"
    | "14 \<le> ?pad" "?pad < 4096 + 14" "(int (length body) + ?pad) mod 4096 = 0"
    using neededPad_cases [of "int (length body)"] by linarith
  then show ?thesis
  proof cases
    case 1
    then have "4096 dvd length body" by presburger
    with 1 show ?thesis
      by (simp add: pad_body_def pw_Flush_def pw_Write_def NewPaddedWriter_def Let_def)
  next
    case 2
    let ?k = "nat (?pad - 14)"
    let ?out = "body @ pad_prefix @ replicate ?k (CHR ''x'') @ pad_suffix"
    have out: "pad_body body = Some ?out"
      using 2 by (simp add: pad_body_def pw_Flush_def pw_Write_def NewPaddedWriter_def Let_def
          str_Repeat_def pad_prefix_def pad_suffix_def c)
    have len: "int (length ?out) = int (length body) + ?pad"
      using 2 by (simp add: pad_prefix_def pad_suffix_def)
    then have "4096 dvd length ?out" using 2 by presburger
    moreover have "length ?out < length body + 4096 + 14" using len 2 by linarith
    ultimately show ?thesis using out by (auto simp: pad_prefix_def pad_suffix_def)
  qed
qed

lemma pad_body_total: "\<exists>out. pad_body body = Some out \<and> 4096 dvd length out"
  using pad_body_spec by blast

lemma FixedWaitUntil_max [simp]: "os_now (FixedWaitUntil d w) = max d (os_now w)"
  by (simp add: FixedWaitUntil_def Let_def)

lemma FixedWaitUntil_frame [simp]:
  "os_root (FixedWaitUntil d w) = os_root w" "os_rng (FixedWaitUntil d w) = os_rng w"
  by (simp_all add: FixedWaitUntil_def Let_def)

definition size_class :: "int \<Rightarrow> nat" where
  "size_class n = (if n < 102400 then 0 else if n < 1048576 then 1 else if n < 10485760 then 2 else 3)"

lemma bucket_distinct:
  "distinct [bucket_small, bucket_medium, bucket_large, bucket_huge]"
  by (simp add: bucket_small_def bucket_medium_def bucket_large_def bucket_huge_def)

text \<open>The inbox label of a blob tells its size class and nothing else: two sizes get the same
  label exactly when they fall in the same of the four classes.\<close>

lemma SizeBucket_class: "SizeBucket n = SizeBucket m \<longleftrightarrow> size_class n = size_class m"
proof -
  let ?l = "[bucket_small, bucket_medium, bucket_large, bucket_huge]"
  have lab: "SizeBucket k = ?l ! size_class k" for k
    by (simp add: SizeBucket_def size_class_def)
  have "size_class k < length ?l" for k by (simp add: size_class_def)
  then show ?thesis
    unfolding lab using nth_eq_iff_index_eq [OF bucket_distinct] by blast
qed

end
