(* ===== verification/Tarpack.thy ===== *)
theory Tarpack
  imports Ustar Mime Padding
begin

text \<open>
  \<open>internal/kakekomi/tarpack.go\<close>: packing one submission.  A Go map with string keys is a key
  sorted association list (the order in which \<open>encoding/json\<close> prints it).  The JSON document
  \<open>meta.json\<close> is produced as \<open>json.MarshalIndent(m, "", "  ")\<close> prints it, with Go's string
  escapes and the replacement of invalid UTF-8.
\<close>

section \<open>Decimal numbers and JSON strings\<close>

fun dec_nat :: "nat \<Rightarrow> string" where
  "dec_nat n = (if n < 10 then [char_of (48 + n)] else dec_nat (n div 10) @ [char_of (48 + n mod 10)])"

declare dec_nat.simps [simp del]

definition dec_int :: "int \<Rightarrow> string" where
  "dec_int i = (if i < 0 then CHR ''-'' # dec_nat (nat (- i)) else dec_nat (nat i))"

definition pad3 :: "string \<Rightarrow> string" where
  "pad3 s = replicate (3 - length s) (CHR ''0'') @ s"

definition utf8_cont :: "string \<Rightarrow> nat \<Rightarrow> nat \<Rightarrow> nat \<Rightarrow> bool" where
  "utf8_cont s i lo hi = (i < length s \<and> lo \<le> ordc (s ! i) \<and> ordc (s ! i) \<le> hi)"

text \<open>Length of the well-formed UTF-8 sequence at the head of a non-empty string, 0 if there is
  none.\<close>

definition utf8_len :: "string \<Rightarrow> nat" where
  "utf8_len s =
     (let b = ordc (hd s) in
      if b < 0x80 then 1
      else if 0xC2 \<le> b \<and> b \<le> 0xDF then (if utf8_cont s 1 0x80 0xBF then 2 else 0)
      else if 0xE0 \<le> b \<and> b \<le> 0xEF then
        (if utf8_cont s 1 (if b = 0xE0 then 0xA0 else 0x80) (if b = 0xED then 0x9F else 0xBF)
            \<and> utf8_cont s 2 0x80 0xBF then 3 else 0)
      else if 0xF0 \<le> b \<and> b \<le> 0xF4 then
        (if utf8_cont s 1 (if b = 0xF0 then 0x90 else 0x80) (if b = 0xF4 then 0x8F else 0xBF)
            \<and> utf8_cont s 2 0x80 0xBF \<and> utf8_cont s 3 0x80 0xBF then 4 else 0)
      else 0)"

definition json_escape_ascii :: "char \<Rightarrow> string" where
  "json_escape_ascii c =
     (let n = ordc c in
      if n = 34 then [CHR 0x5C, CHR 0x22]
      else if n = 92 then [CHR 0x5C, CHR 0x5C]
      else if n = 8 then CHR 0x5C # ''b''
      else if n = 12 then CHR 0x5C # ''f''
      else if n = 10 then CHR 0x5C # ''n''
      else if n = 13 then CHR 0x5C # ''r''
      else if n = 9 then CHR 0x5C # ''t''
      else if n < 32 \<or> n = 60 \<or> n = 62 \<or> n = 38
        then CHR 0x5C # ''u00'' @ [hex_digit (n div 16), hex_digit (n mod 16)]
      else [c])"

function json_chars :: "string \<Rightarrow> string" where
  "json_chars [] = []"
| "json_chars (c # cs) =
     (let s = c # cs; k = utf8_len s in
      if k = 0 then CHR 0x5C # ''ufffd'' @ json_chars cs
      else if k = 1 then json_escape_ascii c @ json_chars cs
      else (if take k s = map char_of [0xE2, 0x80, 0xA8 :: nat] then CHR 0x5C # ''u2028''
            else if take k s = map char_of [0xE2, 0x80, 0xA9 :: nat] then CHR 0x5C # ''u2029''
            else take k s) @ json_chars (drop k s))"
  by pat_completeness auto
termination
  by (relation "measure length") (auto simp: Let_def)

declare json_chars.simps(2) [simp del]

definition json_string :: "string \<Rightarrow> string" where
  "json_string s = CHR 0x22 # json_chars s @ [CHR 0x22]"

section \<open>The envelope and meta.json\<close>

record attachment =
  att_OriginalName :: string
  att_MIME :: string
  att_Data :: bytes

record submission_envelope =
  env_Code :: string
  env_Fields :: "(string \<times> string) list"
  env_Attachments :: "attachment list"
  env_ReceivedAt :: int

record meta_file =
  mf_Index :: nat
  mf_OriginalName :: string
  mf_MIME :: string
  mf_Bytes :: nat

record meta =
  meta_Version :: int
  meta_Code :: string
  meta_Fields :: "(string \<times> string) list"
  meta_Files :: "meta_file list"
  meta_ReceivedAt :: int

definition nl :: string where "nl = [CHR 0x0A]"

definition json_key :: "string \<Rightarrow> string" where
  "json_key k = json_string k @ '': ''"

definition json_block :: "string \<Rightarrow> char \<Rightarrow> string list \<Rightarrow> char \<Rightarrow> string" where
  "json_block indent opening items closing =
     (if items = [] then [opening, closing]
      else [opening] @ nl @ str_Join (map (\<lambda>i. indent @ ''  '' @ i) items) ('','' @ nl)
           @ nl @ indent @ [closing])"

definition json_meta_file :: "meta_file \<Rightarrow> string" where
  "json_meta_file f = json_block ''    '' (CHR 0x7B)
     [json_key ''index'' @ dec_nat (mf_Index f),
      json_key ''original_name'' @ json_string (mf_OriginalName f),
      json_key ''mime'' @ json_string (mf_MIME f),
      json_key ''bytes'' @ dec_nat (mf_Bytes f)] (CHR 0x7D)"

definition json_meta :: "meta \<Rightarrow> string" where
  "json_meta m = json_block [] (CHR 0x7B)
     [json_key ''version'' @ dec_int (meta_Version m),
      json_key ''code'' @ json_string (meta_Code m),
      json_key ''fields'' @ json_block ''  '' (CHR 0x7B)
        (map (\<lambda>(k, v). json_key k @ json_string v) (meta_Fields m)) (CHR 0x7D),
      json_key ''files'' @
        (if meta_Files m = [] then ''null''
         else json_block ''  '' (CHR 0x5B) (map json_meta_file (meta_Files m)) (CHR 0x5D)),
      json_key ''received_at_rounded_hour'' @ dec_int (meta_ReceivedAt m)] (CHR 0x7D)"

section \<open>File names\<close>

definition extForMIME :: "string \<Rightarrow> string" where
  "extForMIME m =
     (if m = ''image/jpeg'' then ''.jpg''
      else if m = ''image/png'' then ''.png''
      else if m = ''image/gif'' then ''.gif''
      else if m = ''image/webp'' then ''.webp''
      else if m = ''text/plain'' then ''.txt''
      else ''.bin'')"

definition name_char :: "char \<Rightarrow> bool" where
  "name_char c \<longleftrightarrow> (let n = ordc c in
     (97 \<le> n \<and> n \<le> 122) \<or> (65 \<le> n \<and> n \<le> 90) \<or> (48 \<le> n \<and> n \<le> 57) \<or> n = 95 \<or> n = 45)"

fun clean_loop :: "int \<Rightarrow> int \<Rightarrow> string \<Rightarrow> string" where
  "clean_loop len i [] = []"
| "clean_loop len i (c # cs) =
     (if name_char c then c # clean_loop len (i + 1) cs
      else if c = CHR ''.'' \<and> i < len - 4 then []
      else clean_loop len (i + 1) cs)"

definition safeFilename :: "string \<Rightarrow> string \<Rightarrow> string" where
  "safeFilename orig mime =
     (let clean = clean_loop (int (length orig)) 0 orig;
          clean1 = (if length clean = 0 then ''file'' else clean);
          clean2 = (if 60 < length clean1 then take 60 clean1 else clean1)
      in clean2 @ extForMIME mime)"

section \<open>Packing\<close>

definition hour :: int where "hour = 3600 * second"

definition truncate_hour :: "int \<Rightarrow> int" where
  "truncate_hour t = t div hour * hour"

fun pack_files :: "nat \<Rightarrow> attachment list \<Rightarrow> meta_file list \<times> tar_file list" where
  "pack_files i [] = ([], [])"
| "pack_files i (a # as) =
     (let idx = i + 1;
          name = pad3 (dec_nat idx) @ ''-'' @ safeFilename (att_OriginalName a) (att_MIME a)
      in case pack_files idx as of (ms, fs) \<Rightarrow>
        (\<lparr>mf_Index = idx, mf_OriginalName = att_OriginalName a, mf_MIME = att_MIME a,
           mf_Bytes = length (att_Data a)\<rparr> # ms,
         \<lparr>tf_Name = ''attachments/'' @ name, tf_Data = att_Data a\<rparr> # fs))"

definition submission_meta :: "submission_envelope \<Rightarrow> meta" where
  "submission_meta s =
     \<lparr>meta_Version = 1, meta_Code = env_Code s, meta_Fields = env_Fields s,
      meta_Files = fst (pack_files 0 (env_Attachments s)),
      meta_ReceivedAt = unix_seconds (truncate_hour (env_ReceivedAt s))\<rparr>"

definition submission_files :: "submission_envelope \<Rightarrow> tar_file list" where
  "submission_files s =
     \<lparr>tf_Name = ''meta.json'', tf_Data = bytes_of (json_meta (submission_meta s))\<rparr>
     # snd (pack_files 0 (env_Attachments s))"

definition pack_padding :: "nat \<Rightarrow> bytes" where
  "pack_padding n = (let rem = 65536 - n mod 65536 in replicate rem (of_nat (rem mod 256)))"

definition PackSubmission :: "submission_envelope \<Rightarrow> error + bytes" where
  "PackSubmission s =
     (case tar_archive (submission_files s) of
        None \<Rightarrow> Inl (Err ''archive/tar: cannot encode header'')
      | Some buf \<Rightarrow> Inr (buf @ pack_padding (length buf)))"

section \<open>Properties\<close>

lemma clean_loop_chars: "c \<in> set (clean_loop n i s) \<Longrightarrow> name_char c"
  by (induction n i s rule: clean_loop.induct) (auto split: if_splits)

lemma ext_cases:
  "extForMIME m \<in> {''.jpg'', ''.png'', ''.gif'', ''.webp'', ''.txt'', ''.bin''}"
  by (simp add: extForMIME_def)

lemma ext_props: "length (extForMIME m) \<le> 5 \<and> 4 \<le> length (extForMIME m)
   \<and> (\<forall>c \<in> set (extForMIME m). name_char c \<or> c = CHR ''.'')
   \<and> last (extForMIME m) \<noteq> slash \<and> extForMIME m \<noteq> []"
  using ext_cases [of m]
  by (auto simp: name_char_def ordc_def slash_def)

lemma safeFilename_chars:
  "\<exists>stem. safeFilename orig mime = stem @ extForMIME mime
     \<and> stem \<noteq> [] \<and> length stem \<le> 60 \<and> (\<forall>c \<in> set stem. name_char c)
     \<and> length (safeFilename orig mime) \<le> 65"
proof -
  let ?c = "clean_loop (int (length orig)) 0 orig"
  let ?c1 = "if length ?c = 0 then ''file'' else ?c"
  let ?c2 = "if 60 < length ?c1 then take 60 ?c1 else ?c1"
  have c1: "?c1 \<noteq> []" "\<forall>c \<in> set ?c1. name_char c"
    using clean_loop_chars by (auto simp: name_char_def ordc_def)
  then have "?c2 \<noteq> []" "length ?c2 \<le> 60" "\<forall>c \<in> set ?c2. name_char c"
    by (auto dest: in_set_takeD)
  moreover have "safeFilename orig mime = ?c2 @ extForMIME mime"
    by (simp add: safeFilename_def Let_def)
  ultimately show ?thesis using ext_props [of mime]
    by (intro exI [of _ ?c2]) simp
qed

text \<open>The archive name derived from an uploaded file name is never empty, is at most 65 bytes,
  ends in the extension fixed by the checked type, and before it has only ASCII letters, digits,
  underscore and hyphen, whatever bytes the client sent.\<close>

lemma safeFilename_shape:
  "\<exists>stem. safeFilename orig mime = stem @ extForMIME mime
     \<and> stem \<noteq> [] \<and> length stem \<le> 60 \<and> list_all name_char stem
     \<and> length (safeFilename orig mime) \<le> 65"
  using safeFilename_chars [of orig mime] by (simp add: list_all_iff)

text \<open>A three-letter extension is not dropped as the comment in the code says: only its dot is.\<close>

lemma safeFilename_keeps_short_extension:
  "safeFilename ''photo.jpg'' ''image/png'' = ''photojpg.png''"
  "safeFilename ''photo.jpeg'' ''image/png'' = ''photo.png''"
  by (simp_all add: safeFilename_def extForMIME_def name_char_def ordc_def)

lemma length_dec_nat: "n < 10 ^ Suc k \<Longrightarrow> length (dec_nat n) \<le> Suc k"
proof (induction k arbitrary: n)
  case 0
  then show ?case by (subst dec_nat.simps) simp
next
  case (Suc k)
  show ?case
  proof (cases "n < 10")
    case True
    then show ?thesis by (subst dec_nat.simps) simp
  next
    case False
    have "n div 10 < 10 ^ Suc k" using Suc.prems by (simp add: less_mult_imp_div_less)
    from Suc.IH [OF this] False show ?thesis by (subst dec_nat.simps) simp
  qed
qed

lemma dec_nat_digits: "c \<in> set (dec_nat n) \<Longrightarrow> 48 \<le> ordc c \<and> ordc c \<le> 57"
proof (induction n rule: dec_nat.induct)
  case (1 n)
  have m: "n mod 10 < 10" by simp
  show ?case
  proof (cases "n < 10")
    case True
    with "1.prems" show ?thesis by (subst (asm) dec_nat.simps) auto
  next
    case False
    then have "c \<in> set (dec_nat (n div 10)) \<or> c = char_of (48 + n mod 10)"
      using "1.prems" by (subst (asm) dec_nat.simps) auto
    then show ?thesis
    proof
      assume "c \<in> set (dec_nat (n div 10))"
      with "1.IH" [OF False] show ?thesis .
    next
      assume c: "c = char_of (48 + n mod 10)"
      from m have "48 + n mod 10 < 256" by linarith
      with c m show ?thesis by simp
    qed
  qed
qed

definition entry_name :: "nat \<Rightarrow> attachment \<Rightarrow> string" where
  "entry_name i a =
     ''attachments/'' @ pad3 (dec_nat i) @ ''-'' @ safeFilename (att_OriginalName a) (att_MIME a)"

lemma pack_files_eq:
  "pack_files k as =
     (map (\<lambda>(i, a). \<lparr>mf_Index = k + Suc i, mf_OriginalName = att_OriginalName a,
         mf_MIME = att_MIME a, mf_Bytes = length (att_Data a)\<rparr>) (enumerate 0 as),
      map (\<lambda>(i, a). \<lparr>tf_Name = entry_name (k + Suc i) a, tf_Data = att_Data a\<rparr>) (enumerate 0 as))"
proof (induction as arbitrary: k)
  case Nil
  then show ?case by simp
next
  case (Cons a as)
  have e: "enumerate (Suc 0) as = map (\<lambda>(i, x). (Suc i, x)) (enumerate 0 as)"
    by (auto simp: enumerate_Suc_eq)
  show ?case
    by (simp add: Cons.IH Let_def e comp_def case_prod_unfold entry_name_def)
qed

lemma entry_name_chars:
  "c \<in> set (entry_name i a) \<Longrightarrow> c = CHR ''/'' \<or> c = CHR ''.'' \<or> name_char c"
proof -
  assume "c \<in> set (entry_name i a)"
  moreover obtain stem where "safeFilename (att_OriginalName a) (att_MIME a) = stem @ extForMIME (att_MIME a)"
    "\<forall>c \<in> set stem. name_char c"
    using safeFilename_chars by blast
  ultimately show ?thesis
    using ext_props [of "att_MIME a"] dec_nat_digits [of c i]
    by (auto simp: entry_name_def pad3_def name_char_def ordc_def split: if_splits)
qed

lemma entry_name_ok: "i < 10 ^ 20 \<Longrightarrow> ustar_name_ok (entry_name i a)"
proof -
  assume i: "i < 10 ^ 20"
  let ?f = "safeFilename (att_OriginalName a) (att_MIME a)"
  have "length (pad3 (dec_nat i)) \<le> 20"
    using length_dec_nat [of i 19] i by (auto simp: pad3_def)
  moreover have f: "length ?f \<le> 65" using safeFilename_chars by blast
  ultimately have "length (entry_name i a) \<le> 100" by (simp add: entry_name_def)
  moreover have "0 < ordc c \<and> ordc c < 128" if "c \<in> set (entry_name i a)" for c
    using entry_name_chars [OF that] by (auto simp: name_char_def ordc_def Let_def)
  moreover have "last (entry_name i a) \<noteq> slash"
  proof -
    obtain stem where "?f = stem @ extForMIME (att_MIME a)" using safeFilename_chars by blast
    then have "last (entry_name i a) = last (extForMIME (att_MIME a))"
      using ext_props [of "att_MIME a"] by (simp add: entry_name_def)
    then show ?thesis using ext_props [of "att_MIME a"] by simp
  qed
  moreover have "entry_name i a \<noteq> []" by (simp add: entry_name_def)
  ultimately show ?thesis by (simp add: ustar_name_ok_def list_all_iff)
qed

lemma pad_up_dvd: "0 < m \<Longrightarrow> (m :: nat) dvd n + (m - n mod m)"
proof -
  assume "0 < m"
  then have "n mod m + (m - n mod m) = m" by (simp add: less_imp_le)
  then have "n div m * m + (n mod m + (m - n mod m)) = n div m * m + m" by simp
  then have "n + (m - n mod m) = n div m * m + m"
    by (simp only: add.assoc [symmetric] div_mult_mod_eq)
  then show ?thesis by simp
qed

definition packable :: "submission_envelope \<Rightarrow> bool" where
  "packable s \<longleftrightarrow> length (env_Attachments s) < 10 ^ 9
     \<and> length (json_meta (submission_meta s)) < 8 ^ 11
     \<and> (\<forall>a \<in> set (env_Attachments s). length (att_Data a) < 8 ^ 11)"

lemma submission_files_ok:
  assumes "packable s" and "f \<in> set (submission_files s)"
  shows "ustar_name_ok (tf_Name f) \<and> length (tf_Data f) < 8 ^ 11"
proof -
  from assms(2) consider "f = \<lparr>tf_Name = ''meta.json'', tf_Data = bytes_of (json_meta (submission_meta s))\<rparr>"
    | i a where "f = \<lparr>tf_Name = entry_name (Suc i) a, tf_Data = att_Data a\<rparr>"
        "(i, a) \<in> set (enumerate 0 (env_Attachments s))"
    by (auto simp: submission_files_def pack_files_eq)
  then show ?thesis
  proof cases
    case 1
    with assms(1) show ?thesis
      by (simp add: packable_def ustar_name_ok_def ordc_def slash_def)
  next
    case (2 i a)
    then have "i < length (env_Attachments s)" "a \<in> set (env_Attachments s)"
      by (auto simp: in_set_enumerate_eq)
    with assms(1) 2 entry_name_ok [of "Suc i" a] show ?thesis by (auto simp: packable_def)
  qed
qed

lemma PackSubmission_archive:
  assumes "packable s"
  shows "\<exists>archive k. PackSubmission s = Inr (archive @ replicate k 0)
     \<and> 0 < k \<and> k \<le> 65536 \<and> 65536 dvd length archive + k
     \<and> tar_read_all (archive @ replicate k 0) = (map tar_entry_of (submission_files s), None)"
proof -
  obtain b where b: "tar_archive (submission_files s) = Some b"
    using tar_archive_total submission_files_ok [OF assms] by blast
  let ?rem = "65536 - length b mod 65536"
  have len: "512 dvd length b" by (rule length_tar_archive [OF b])
  then obtain q where q: "length b = 512 * q" by blast
  have m: "length b mod 65536 = 512 * (q mod 128)"
    unfolding q using mult_mod_right [of 512 q 128] by simp
  have "q mod 128 < 128" by simp
  then have r: "?rem = 512 * (128 - q mod 128)" unfolding m by (simp add: diff_mult_distrib2)
  have "?rem mod 256 = 0" unfolding r by (simp add: mod_mult_left_eq mult.assoc [symmetric])
  then have "PackSubmission s = Inr (b @ replicate ?rem 0)"
    by (simp add: PackSubmission_def b pack_padding_def Let_def)
  moreover have "0 < ?rem" "?rem \<le> 65536" by simp_all
  moreover have "65536 dvd length b + ?rem" by (rule pad_up_dvd) simp
  ultimately show ?thesis using tar_archive_read [OF b] by blast
qed

lemma PackSubmission_read:
  "packable s \<Longrightarrow> PackSubmission s = Inr tar \<Longrightarrow> tar_read_all tar = (map tar_entry_of (submission_files s), None)"
  using PackSubmission_archive [of s] by auto

text \<open>C27: packing a submission succeeds whenever every file fits the archive format's size field;
  the packed blob is a whole number of 64 KiB blocks, at most one block longer than the archive,
  every padding byte is zero (never the PKCS#7 value, as the archive length is a multiple of 512),
  and reading the blob back yields \<open>meta.json\<close> followed by every attachment with its exact bytes.\<close>

theorem PackSubmission_roundtrip:
  assumes "packable s"
  shows "\<exists>archive k. PackSubmission s = Inr (archive @ replicate k 0)
     \<and> 0 < k \<and> k \<le> 65536 \<and> 65536 dvd length archive + k
     \<and> tar_read_all (archive @ replicate k 0) = (map tar_entry_of (submission_files s), None)"
  by (rule PackSubmission_archive [OF assms])

lemmas json_eval =
  json_block_def json_meta_file_def json_key_def json_string_def json_chars.simps utf8_len_def
  json_escape_ascii_def ordc_def nl_def dec_int_def dec_nat.simps pad3_def truncate_hour_def hour_def
  second_def unix_seconds_def Let_def

definition demo_envelope :: submission_envelope where
  "demo_envelope = \<lparr>env_Code = ''a b'', env_Fields = [(''body'', ''x'')],
       env_Attachments = [\<lparr>att_OriginalName = ''../p.png'', att_MIME = ''image/png'', att_Data = [1, 2]\<rparr>],
       env_ReceivedAt = 0\<rparr>"

lemma demo_packable: "packable demo_envelope"
proof -
  have "length (json_meta (submission_meta demo_envelope)) < 8 ^ 11"
    by (simp add: demo_envelope_def json_meta_def submission_meta_def json_eval)
  then show ?thesis by (simp add: packable_def demo_envelope_def)
qed

theorem PackSubmission_roundtrip_witness:
  "\<exists>blob. PackSubmission demo_envelope = Inr blob \<and> 65536 dvd length blob"
  using PackSubmission_roundtrip [OF demo_packable] by auto

end
