(* ===== verification/Json.thy ===== *)
theory Json
  imports Tarpack
begin

text \<open>
  What \<open>secrets.go\<close> uses of \<open>encoding/json\<close> and \<open>encoding/base64\<close>: standard base64 with
  padding, the JSON grammar with its string escapes, and the decoding of byte slices and strings.
  The parser takes fuel; the length of the input plus one is always enough, because every
  recursive call has consumed a character.  The nesting limit of the library is not modelled.
\<close>

section \<open>Base64\<close>

definition b64_char :: "nat \<Rightarrow> char" where
  "b64_char n = char_of (if n < 26 then 65 + n else if n < 52 then 71 + n else if n < 62 then n - 4
     else if n = 62 then 43 else 47)"

definition b64_val :: "char \<Rightarrow> nat option" where
  "b64_val c = (let n = ordc c in
     if 65 \<le> n \<and> n \<le> 90 then Some (n - 65)
     else if 97 \<le> n \<and> n \<le> 122 then Some (n - 71)
     else if 48 \<le> n \<and> n \<le> 57 then Some (n + 4)
     else if n = 43 then Some 62
     else if n = 47 then Some 63
     else None)"

definition b64_group :: "nat \<Rightarrow> nat \<Rightarrow> nat \<Rightarrow> string" where
  "b64_group a b c = (let n = (a * 256 + b) * 256 + c in
     [b64_char (n div 262144), b64_char (n div 4096 mod 64), b64_char (n div 64 mod 64), b64_char (n mod 64)])"

fun base64_Encode :: "bytes \<Rightarrow> string" where
  "base64_Encode [] = []"
| "base64_Encode [a] = take 2 (b64_group (unat a) 0 0) @ ''==''"
| "base64_Encode [a, b] = take 3 (b64_group (unat a) (unat b) 0) @ ''=''"
| "base64_Encode (a # b # c # r) = b64_group (unat a) (unat b) (unat c) @ base64_Encode r"

definition b64_bytes :: "nat \<Rightarrow> nat \<Rightarrow> nat \<Rightarrow> nat \<Rightarrow> bytes" where
  "b64_bytes p q r s = (let n = ((p * 64 + q) * 64 + r) * 64 + s in
     [of_nat (n div 65536), of_nat (n div 256 mod 256), of_nat (n mod 256)])"

fun b64_quads :: "string \<Rightarrow> bytes option" where
  "b64_quads [] = Some []"
| "b64_quads (p # q # r # s # rest) =
     (case (b64_val p, b64_val q) of
        (Some vp, Some vq) \<Rightarrow>
          (if rest = [] \<and> r = CHR ''='' \<and> s = CHR ''='' then Some (take 1 (b64_bytes vp vq 0 0))
           else case b64_val r of
             None \<Rightarrow> None
           | Some vr \<Rightarrow>
               (if rest = [] \<and> s = CHR ''='' then Some (take 2 (b64_bytes vp vq vr 0))
                else case (b64_val s, b64_quads rest) of
                  (Some vs, Some bs) \<Rightarrow> Some (b64_bytes vp vq vr vs @ bs)
                | _ \<Rightarrow> None))
      | _ \<Rightarrow> None)"
| "b64_quads _ = None"

text \<open>The decoder skips line breaks.\<close>

definition base64_Decode :: "string \<Rightarrow> bytes option" where
  "base64_Decode s = b64_quads (filter (\<lambda>c. c \<noteq> CHR 0x0A \<and> c \<noteq> CHR 0x0D) s)"

lemma b64_val_char: "n < 64 \<Longrightarrow> b64_val (b64_char n) = Some n"
  by (auto simp: b64_val_def b64_char_def Let_def)

definition json_plain :: "char \<Rightarrow> bool" where
  "json_plain c \<longleftrightarrow> 32 \<le> ordc c \<and> ordc c < 127 \<and> ordc c \<notin> {34, 92, 60, 62, 38}"

lemma b64_char_plain: "n < 64 \<Longrightarrow> json_plain (b64_char n)"
  by (auto simp: json_plain_def b64_char_def)

lemma digit64: "n div 64 mod 64 < (64 :: nat)" "n mod 64 < (64 :: nat)" "n div 4096 mod 64 < (64 :: nat)"
  by simp_all

lemma radix64:
  fixes n :: nat
  shows "((n div 262144 * 64 + n div 4096 mod 64) * 64 + n div 64 mod 64) * 64 + n mod 64 = n"
proof -
  have a: "n div 4096 = (n div 64) div 64" "n div 262144 = ((n div 64) div 64) div 64"
    by (simp_all add: div_mult2_eq [symmetric])
  show ?thesis unfolding a by simp
qed

lemma b64_bytes_group:
  assumes "a < 256" "b < 256" "c < 256" and "n = (a * 256 + b) * 256 + c"
  shows "b64_bytes (n div 262144) (n div 4096 mod 64) (n div 64 mod 64) (n mod 64)
     = [of_nat a, of_nat b, of_nat c]"
proof -
  define m where "m = a * 256 + b"
  have n: "n = c + m * 256" using assms(4) by (simp add: m_def)
  have m: "n mod 256 = c" "n div 256 = a * 256 + b"
  proof -
    show "n mod 256 = c" using assms(3) unfolding n by (simp only: mod_mult_self1 mod_less)
    show "n div 256 = a * 256 + b" using assms(3) unfolding m_def [symmetric] n by simp
  qed
  have "n div 65536 = (n div 256) div 256" by (simp add: div_mult2_eq [symmetric])
  with m assms have d: "n div 65536 = a" "n div 256 mod 256 = b" by simp_all
  show ?thesis by (simp only: b64_bytes_def radix64 Let_def d m(1))
qed

lemma byte_lt: "unat (a :: byte) < 256"
  using unsigned_less [of a] by simp

lemma top_digit: "a < 256 \<Longrightarrow> b < 256 \<Longrightarrow> c < 256 \<Longrightarrow> ((a * 256 + b) * 256 + c) div 262144 < (64 :: nat)"
  by (simp add: less_mult_imp_div_less)

lemma b64_val_pad: "b64_val (CHR ''='') = None"
  by (simp add: b64_val_def ordc_def)

lemma b64_not_pad: "n < 64 \<Longrightarrow> b64_char n \<noteq> CHR ''=''"
  using b64_val_char [of n] b64_val_pad by auto

lemma quads_two: "p < 64 \<Longrightarrow> q < 64 \<Longrightarrow>
    b64_quads ([b64_char p, b64_char q] @ ''=='') = Some (take 1 (b64_bytes p q 0 0))"
  by (simp add: b64_val_char)

lemma quads_three: "p < 64 \<Longrightarrow> q < 64 \<Longrightarrow> r < 64 \<Longrightarrow>
    b64_quads ([b64_char p, b64_char q, b64_char r] @ ''='') = Some (take 2 (b64_bytes p q r 0))"
  by (simp add: b64_val_char b64_not_pad)

lemma quads_four: "p < 64 \<Longrightarrow> q < 64 \<Longrightarrow> r < 64 \<Longrightarrow> s < 64 \<Longrightarrow>
    b64_quads ([b64_char p, b64_char q, b64_char r, b64_char s] @ rest)
      = map_option (\<lambda>bs. b64_bytes p q r s @ bs) (b64_quads rest)"
  by (simp add: b64_val_char b64_not_pad split: option.splits)

lemma group_digits:
  assumes "a < 256" "b < 256" "c < 256"
  obtains p q r s where "p < 64" "q < 64" "r < 64" "s < 64"
    "b64_group a b c = [b64_char p, b64_char q, b64_char r, b64_char s]"
    "b64_bytes p q r s = [of_nat a, of_nat b, of_nat c]"
    "c = 0 \<Longrightarrow> s = 0" "b = 0 \<Longrightarrow> c = 0 \<Longrightarrow> r = 0"
proof -
  define n where "n = (a * 256 + b) * 256 + c"
  have g: "b64_group a b c = [b64_char (n div 262144), b64_char (n div 4096 mod 64),
      b64_char (n div 64 mod 64), b64_char (n mod 64)]"
    by (simp only: b64_group_def Let_def n_def)
  have t: "n div 262144 < 64" using top_digit [OF assms] by (simp only: n_def)
  have s0: "n mod 64 = 0" if "c = 0"
  proof -
    from that have "n = ((a * 256 + b) * 4) * 64" by (simp add: n_def)
    then show ?thesis by (simp only: mod_mult_self2_is_0)
  qed
  have r0: "n div 64 mod 64 = 0" if "b = 0" "c = 0"
  proof -
    from that have "n = (a * 16 * 64) * 64" by (simp add: n_def)
    then have "n div 64 = a * 16 * 64" by simp
    then show ?thesis by (simp only: mod_mult_self2_is_0)
  qed
  show ?thesis
    using that [OF t _ _ _ g b64_bytes_group [OF assms n_def]] s0 r0 by simp
qed

lemma b64_quads_encode: "b64_quads (base64_Encode bs) = Some bs"
proof (induction bs rule: base64_Encode.induct)
  case 1
  then show ?case by simp
next
  case (2 a)
  obtain p q r s where d: "p < 64" "q < 64" "b64_group (unat a) 0 0 = [b64_char p, b64_char q, b64_char r, b64_char s]"
    "b64_bytes p q r s = [of_nat (unat a), of_nat 0, of_nat 0]" "r = 0" "s = 0"
    by (rule group_digits [OF byte_lt [of a], of 0 0]) simp_all
  from d(3) have "base64_Encode [a] = [b64_char p, b64_char q] @ ''==''" by simp
  with quads_two [OF d(1,2)] d(4-6) show ?case by simp
next
  case (3 a b)
  obtain p q r s where d: "p < 64" "q < 64" "r < 64"
    "b64_group (unat a) (unat b) 0 = [b64_char p, b64_char q, b64_char r, b64_char s]"
    "b64_bytes p q r s = [of_nat (unat a), of_nat (unat b), of_nat 0]" "s = 0"
    by (rule group_digits [OF byte_lt [of a] byte_lt [of b], of 0]) simp_all
  from d(4) have "base64_Encode [a, b] = [b64_char p, b64_char q, b64_char r] @ ''=''" by simp
  with quads_three [OF d(1-3)] d(5,6) show ?case by simp
next
  case (4 a b c r)
  obtain p q x s where d: "p < 64" "q < 64" "x < 64" "s < 64"
    "b64_group (unat a) (unat b) (unat c) = [b64_char p, b64_char q, b64_char x, b64_char s]"
    "b64_bytes p q x s = [of_nat (unat a), of_nat (unat b), of_nat (unat c)]"
    using group_digits [OF byte_lt [of a] byte_lt [of b] byte_lt [of c]] by metis
  then have "base64_Encode (a # b # c # r) = [b64_char p, b64_char q, b64_char x, b64_char s] @ base64_Encode r"
    by simp
  with quads_four [OF d(1-4), of "base64_Encode r"] d(6) 4 show ?case by simp
qed

lemma pad_plain: "json_plain (CHR ''='')"
  by (simp add: json_plain_def ordc_def)

lemma base64_chars: "c \<in> set (base64_Encode bs) \<Longrightarrow> json_plain c"
proof (induction bs rule: base64_Encode.induct)
  case (4 a b d r)
  then show ?case using top_digit [OF byte_lt [of a] byte_lt [of b] byte_lt [of d]]
    by (auto simp: b64_group_def Let_def intro: b64_char_plain)
next
  case (2 a)
  then show ?case using top_digit [OF byte_lt [of a], of 0 0]
    by (auto simp: b64_group_def Let_def numeral_2_eq_2 intro: b64_char_plain pad_plain)
next
  case (3 a b)
  then show ?case using top_digit [OF byte_lt [of a] byte_lt [of b], of 0]
    by (auto simp: b64_group_def Let_def numeral_3_eq_3 intro: b64_char_plain pad_plain)
qed simp

lemma base64_roundtrip [simp]: "base64_Decode (base64_Encode bs) = Some bs"
proof -
  have "\<not> json_plain (CHR 0x0A)" "\<not> json_plain (CHR 0x0D)" by (simp_all add: json_plain_def ordc_def)
  then have "filter (\<lambda>c. c \<noteq> CHR 0x0A \<and> c \<noteq> CHR 0x0D) (base64_Encode bs) = base64_Encode bs"
    by (auto simp: filter_id_conv dest: base64_chars)
  then show ?thesis by (simp add: base64_Decode_def b64_quads_encode)
qed

interpretation b64: codec base64_Encode base64_Decode "\<lambda>_. True"
  by unfold_locales simp

section \<open>Parsing\<close>

datatype json =
    JNull | JBool bool | JNum string | JStr string | JArr "json list" | JObj "(string \<times> json) list"

definition skip_ws :: "string \<Rightarrow> string" where
  "skip_ws = dropWhile (\<lambda>c. ordc c \<in> {32, 9, 10, 13})"

definition utf8_encode :: "nat \<Rightarrow> string" where
  "utf8_encode n =
     map char_of
       (if n < 0x80 then [n]
        else if n < 0x800 then [0xC0 + n div 64, 0x80 + n mod 64]
        else if n < 0x10000 then [0xE0 + n div 4096, 0x80 + n div 64 mod 64, 0x80 + n mod 64]
        else [0xF0 + n div 262144, 0x80 + n div 4096 mod 64, 0x80 + n div 64 mod 64, 0x80 + n mod 64])"

definition hex4 :: "string \<Rightarrow> nat option" where
  "hex4 s = (case map from_hex (take 4 s) of
     [Some a, Some b, Some c, Some d] \<Rightarrow> Some (((a * 16 + b) * 16 + c) * 16 + d)
   | _ \<Rightarrow> None)"

definition simple_escape :: "char \<Rightarrow> string option" where
  "simple_escape e = map_of
     [(CHR 0x22, [CHR 0x22]), (CHR 0x5C, [CHR 0x5C]), (CHR ''/'', ''/''), (CHR ''b'', [CHR 0x08]),
      (CHR ''f'', [CHR 0x0C]), (CHR ''n'', [CHR 0x0A]), (CHR ''r'', [CHR 0x0D]), (CHR ''t'', [CHR 0x09])] e"

text \<open>A \<open>\u\<close> escape, with its code and the rest of the input: a surrogate pair is one character, a
  lone surrogate becomes the replacement character.\<close>

definition unicode_escape :: "nat \<Rightarrow> string \<Rightarrow> string \<times> string" where
  "unicode_escape n r =
     (if 0xD800 \<le> n \<and> n \<le> 0xDFFF then
        (if n < 0xDC00 \<and> take 2 r = [CHR 0x5C, CHR ''u''] then
           (case hex4 (drop 2 r) of
              Some m \<Rightarrow> if 0xDC00 \<le> m \<and> m \<le> 0xDFFF
                then (utf8_encode (0x10000 + (n - 0xD800) * 1024 + (m - 0xDC00)), drop 6 r)
                else (utf8_encode 0xFFFD, r)
            | None \<Rightarrow> (utf8_encode 0xFFFD, r))
         else (utf8_encode 0xFFFD, r))
      else (utf8_encode n, r))"

lemma unicode_escape_length: "unicode_escape n r = (s, r2) \<Longrightarrow> length r2 \<le> length r"
  by (auto simp: unicode_escape_def split: if_splits option.splits)

text \<open>The characters of a string literal up to its closing quote, and the rest of the input.\<close>

function json_str :: "string \<Rightarrow> (string \<times> string) option" where
  "json_str [] = None"
| "json_str (c # r) =
     (if c = CHR 0x22 then Some ([], r)
      else if ordc c < 32 then None
      else if c = CHR 0x5C then
        (case r of
           [] \<Rightarrow> None
         | e # r1 \<Rightarrow>
             (if e = CHR ''u'' then
                (case hex4 r1 of
                   None \<Rightarrow> None
                 | Some n \<Rightarrow>
                     (case unicode_escape n (drop 4 r1) of (s, r2) \<Rightarrow>
                        map_option (\<lambda>(t, r'). (s @ t, r')) (json_str r2)))
              else (case simple_escape e of
                      None \<Rightarrow> None
                    | Some s \<Rightarrow> map_option (\<lambda>(t, r'). (s @ t, r')) (json_str r1))))
      else
        (let k = utf8_len (c # r) in
         if k \<le> 1
         then map_option (\<lambda>(t, r'). ((if k = 0 then utf8_encode 0xFFFD else [c]) @ t, r')) (json_str r)
         else map_option (\<lambda>(t, r'). (take k (c # r) @ t, r')) (json_str (drop k (c # r)))))"
  by pat_completeness auto
termination
  by (relation "measure length")
    (auto simp: Let_def dest!: unicode_escape_length [OF sym])

declare json_str.simps(2) [simp del]

definition digit_char :: "char \<Rightarrow> bool" where
  "digit_char c \<longleftrightarrow> 48 \<le> ordc c \<and> ordc c \<le> 57"

definition num_digits :: "string \<Rightarrow> (string \<times> string) option" where
  "num_digits s = (let d = takeWhile digit_char s in
     if d = [] then None else Some (d, drop (length d) s))"

definition num_int :: "string \<Rightarrow> (string \<times> string) option" where
  "num_int s = (case s of [] \<Rightarrow> None
     | c # r \<Rightarrow> if c = CHR ''0'' then Some (''0'', r) else num_digits s)"

definition num_frac :: "string \<Rightarrow> (string \<times> string) option" where
  "num_frac s = (case s of
     [] \<Rightarrow> Some ([], [])
   | c # r \<Rightarrow> if c = CHR ''.'' then map_option (\<lambda>(d, r'). (c # d, r')) (num_digits r) else Some ([], s))"

definition num_exp :: "string \<Rightarrow> (string \<times> string) option" where
  "num_exp s = (case s of
     [] \<Rightarrow> Some ([], [])
   | c # r \<Rightarrow>
       (if c = CHR ''e'' \<or> c = CHR ''E'' then
          (let sg = (case r of x # _ \<Rightarrow> if x = CHR ''+'' \<or> x = CHR ''-'' then [x] else [] | [] \<Rightarrow> [])
           in map_option (\<lambda>(d, r'). (c # sg @ d, r')) (num_digits (drop (length sg) r)))
        else Some ([], s)))"

definition json_num :: "string \<Rightarrow> (string \<times> string) option" where
  "json_num s =
     (let sg = (case s of x # _ \<Rightarrow> if x = CHR ''-'' then [x] else [] | [] \<Rightarrow> [])
      in case num_int (drop (length sg) s) of
           None \<Rightarrow> None
         | Some (a, r1) \<Rightarrow>
             (case num_frac r1 of
                None \<Rightarrow> None
              | Some (b, r2) \<Rightarrow>
                  (case num_exp r2 of None \<Rightarrow> None | Some (c, r3) \<Rightarrow> Some (sg @ a @ b @ c, r3))))"

fun json_val :: "nat \<Rightarrow> string \<Rightarrow> (json \<times> string) option"
  and json_arr :: "nat \<Rightarrow> string \<Rightarrow> (json list \<times> string) option"
  and json_mem :: "nat \<Rightarrow> string \<Rightarrow> ((string \<times> json) list \<times> string) option" where
  "json_val 0 s = None"
| "json_val (Suc n) s =
     (case s of
        [] \<Rightarrow> None
      | c # r \<Rightarrow>
          (if c = CHR 0x22 then map_option (\<lambda>(t, r'). (JStr t, r')) (json_str r)
           else if c = CHR 0x7B then
             (case skip_ws r of
                [] \<Rightarrow> None
              | d # r1 \<Rightarrow> if d = CHR 0x7D then Some (JObj [], r1)
                         else map_option (\<lambda>(ms, r'). (JObj ms, r')) (json_mem n (d # r1)))
           else if c = CHR 0x5B then
             (case skip_ws r of
                [] \<Rightarrow> None
              | d # r1 \<Rightarrow> if d = CHR 0x5D then Some (JArr [], r1)
                         else map_option (\<lambda>(vs, r'). (JArr vs, r')) (json_arr n (d # r1)))
           else if take 4 s = ''null'' then Some (JNull, drop 4 s)
           else if take 4 s = ''true'' then Some (JBool True, drop 4 s)
           else if take 5 s = ''false'' then Some (JBool False, drop 5 s)
           else map_option (\<lambda>(t, r'). (JNum t, r')) (json_num s)))"
| "json_arr 0 s = None"
| "json_arr (Suc n) s =
     (case json_val n (skip_ws s) of
        None \<Rightarrow> None
      | Some (v, r1) \<Rightarrow>
          (case skip_ws r1 of
             [] \<Rightarrow> None
           | c # r2 \<Rightarrow>
               (if c = CHR '','' then map_option (\<lambda>(vs, r'). (v # vs, r')) (json_arr n r2)
                else if c = CHR 0x5D then Some ([v], r2) else None)))"
| "json_mem 0 s = None"
| "json_mem (Suc n) s =
     (case skip_ws s of
        [] \<Rightarrow> None
      | q # r \<Rightarrow>
          (if q \<noteq> CHR 0x22 then None
           else case json_str r of
             None \<Rightarrow> None
           | Some (k, r1) \<Rightarrow>
               (case skip_ws r1 of
                  [] \<Rightarrow> None
                | c # r2 \<Rightarrow>
                    (if c \<noteq> CHR '':'' then None
                     else case json_val n (skip_ws r2) of
                       None \<Rightarrow> None
                     | Some (v, r3) \<Rightarrow>
                         (case skip_ws r3 of
                            [] \<Rightarrow> None
                          | d # r4 \<Rightarrow>
                              (if d = CHR '','' then map_option (\<lambda>(ms, r'). ((k, v) # ms, r')) (json_mem n r4)
                               else if d = CHR 0x7D then Some ([(k, v)], r4) else None))))))"

declare json_val.simps(2) [simp del] json_arr.simps(2) [simp del] json_mem.simps(2) [simp del]

definition json_Parse :: "string \<Rightarrow> json option" where
  "json_Parse s = (case json_val (length s + 1) (skip_ws s) of
     None \<Rightarrow> None
   | Some (v, r) \<Rightarrow> if skip_ws r = [] then Some v else None)"

section \<open>Objects of plain strings\<close>

lemma json_plain_len: "json_plain c \<Longrightarrow> utf8_len (c # r) = 1"
  by (simp add: json_plain_def utf8_len_def)

lemma json_chars_plain: "(\<forall>c \<in> set s. json_plain c) \<Longrightarrow> json_chars s = s"
  by (induction s) (auto simp: json_chars.simps(2) json_plain_len Let_def json_escape_ascii_def json_plain_def)

lemma json_string_plain: "(\<forall>c \<in> set s. json_plain c) \<Longrightarrow> json_string s = [CHR 0x22] @ s @ [CHR 0x22]"
  by (simp add: json_string_def json_chars_plain)

lemma json_str_plain: "(\<forall>c \<in> set s. json_plain c) \<Longrightarrow> json_str (s @ CHR 0x22 # r) = Some (s, r)"
proof (induction s)
  case Nil
  then show ?case by (simp add: json_str.simps(2))
next
  case (Cons c s)
  then have c: "json_plain c" by simp
  then have "c \<noteq> CHR 0x22" "c \<noteq> CHR 0x5C" "\<not> ordc c < 32" by (auto simp: json_plain_def ordc_def)
  with c Cons show ?case by (simp add: json_str.simps(2) json_plain_len Let_def)
qed

lemma skip_ws_id [simp]: "ordc c \<notin> {32, 9, 10, 13} \<Longrightarrow> skip_ws (c # r) = c # r"
  by (simp add: skip_ws_def)

lemma skip_ws_quote [simp]: "skip_ws (CHR 0x22 # r) = CHR 0x22 # r"
  "skip_ws (CHR '':'' # r) = CHR '':'' # r" "skip_ws (CHR '','' # r) = CHR '','' # r"
  "skip_ws (CHR 0x7D # r) = CHR 0x7D # r" "skip_ws (CHR 0x7B # r) = CHR 0x7B # r" "skip_ws [] = []"
  by (simp_all add: skip_ws_def ordc_def)

fun json_members :: "(string \<times> string) list \<Rightarrow> string" where
  "json_members [] = []"
| "json_members [(k, v)] = json_string k @ '':'' @ json_string v"
| "json_members ((k, v) # ms) = json_string k @ '':'' @ json_string v @ '','' @ json_members ms"

text \<open>An object whose members are strings, as \<open>json.Marshal\<close> writes a struct.\<close>

definition json_object :: "(string \<times> string) list \<Rightarrow> string" where
  "json_object ms = [CHR 0x7B] @ json_members ms @ [CHR 0x7D]"

definition plain_members :: "(string \<times> string) list \<Rightarrow> bool" where
  "plain_members ms \<longleftrightarrow> (\<forall>(k, v) \<in> set ms. (\<forall>c \<in> set k. json_plain c) \<and> (\<forall>c \<in> set v. json_plain c))"

lemma json_mem_step:
  assumes "\<forall>c \<in> set k. json_plain c" and "\<forall>c \<in> set v. json_plain c" and "d = CHR '','' \<or> d = CHR 0x7D"
  shows "json_mem (Suc (Suc n)) (json_string k @ '':'' @ json_string v @ d # r) =
     (if d = CHR '','' then map_option (\<lambda>(ms, r'). ((k, JStr v) # ms, r')) (json_mem (Suc n) r)
      else Some ([(k, JStr v)], r))"
  using assms
  by (subst json_mem.simps(2))
    (auto simp: json_string_plain json_str_plain json_val.simps(2))

lemma json_mem_members:
  "ms \<noteq> [] \<Longrightarrow> plain_members ms \<Longrightarrow> length ms < n \<Longrightarrow>
     json_mem n (json_members ms @ CHR 0x7D # r) = Some (map (\<lambda>(k, v). (k, JStr v)) ms, r)"
proof (induction ms arbitrary: n rule: json_members.induct)
  case 1
  then show ?case by simp
next
  case (2 k v)
  then obtain m where n: "n = Suc (Suc m)" by (cases n; cases "n - 1") auto
  from 2 have "\<forall>c \<in> set k. json_plain c" "\<forall>c \<in> set v. json_plain c" by (auto simp: plain_members_def)
  from json_mem_step [OF this, of "CHR 0x7D" m r] show ?case by (simp add: n)
next
  case (3 k v m ms)
  then obtain j where n: "n = Suc (Suc j)" "length (m # ms) < Suc j"
    by (cases n; cases "n - 1") auto
  from 3 have p: "\<forall>c \<in> set k. json_plain c" "\<forall>c \<in> set v. json_plain c" "plain_members (m # ms)"
    by (auto simp: plain_members_def)
  from json_mem_step [OF p(1,2), of "CHR '',''" j "json_members (m # ms) @ CHR 0x7D # r"]
    3(1) [of "Suc j"] n p(3) show ?case by simp
qed

lemma json_members_length: "plain_members ms \<Longrightarrow> length ms \<le> length (json_members ms)"
  by (induction ms rule: json_members.induct) (auto simp: json_string_def plain_members_def)

lemma json_Parse_object:
  assumes "ms \<noteq> []" and "plain_members ms"
  shows "json_Parse (json_object ms) = Some (JObj (map (\<lambda>(k, v). (k, JStr v)) ms))"
proof -
  obtain k v rest where ms: "ms = (k, v) # rest" using assms(1) by (cases ms) auto
  obtain q where q: "json_members ms @ [CHR 0x7D] = CHR 0x22 # q"
    unfolding ms by (cases rest) (auto simp: json_string_def)
  have "length ms < length (json_object ms)"
    using json_members_length [OF assms(2)] by (simp add: json_object_def)
  from json_mem_members [OF assms this, of "[]"]
  have "json_mem (length (json_object ms)) (CHR 0x22 # q) = Some (map (\<lambda>(k, v). (k, JStr v)) ms, [])"
    by (simp only: q)
  moreover have "json_object ms = CHR 0x7B # CHR 0x22 # q" using q by (simp add: json_object_def)
  ultimately show ?thesis by (simp add: json_Parse_def json_val.simps(2))
qed

end
