(* ===== verification/Fs_Laws.thy ===== *)
theory Fs_Laws
  imports Os_Model
begin

text \<open>
  Further laws of the file tree: deletion and directory creation against reads, the absorption
  laws that let a sequence of changes below a directory followed by its removal collapse into
  one removal, the well-formedness of trees (sorted entries without duplicates), and what file
  operations can change.
\<close>

lemma is_dir_Cons [simp]:
  "is_dir (Dir es) (c # cs) = (case map_of es c of None \<Rightarrow> False | Some n \<Rightarrow> is_dir n cs)"
  by (auto simp: is_dir_def split: option.splits)

lemma is_dir_Dir [simp]: "is_dir (Dir es) []"
  by (simp add: is_dir_def)

lemma rd_Cons [simp]: "rd (Dir es) (c # cs) = (case map_of es c of None \<Rightarrow> None | Some n \<Rightarrow> rd n cs)"
  by (auto simp: rd_def split: option.splits)

lemma rd_Dir [simp]: "rd (Dir es) [] = None"
  by (simp add: rd_def)

section \<open>Deletion\<close>

lemma al_put_put [simp]: "al_put c v (al_put c u es) = al_put c v es"
  by (induction c u es rule: al_put.induct) auto

lemma al_del_put [simp]: "al_del c (al_put c u es) = al_del c es"
  by (induction c u es rule: al_put.induct) (auto simp: al_del_def)

lemma al_del_del [simp]: "al_del c (al_del c es) = al_del c es"
  by (simp add: al_del_def)

lemma node_at_del:
  "p \<noteq> [] \<Longrightarrow> \<not> prefix q p \<Longrightarrow> node_at q (del_node p n) = (if prefix p q then None else node_at q n)"
proof (induction p n arbitrary: q rule: del_node.induct)
  case (1 n)
  then show ?case by simp
next
  case (2 c cs b)
  then show ?case by (cases q) auto
next
  case (3 c cs es)
  then obtain d ds where q: "q = d # ds" by (cases q) auto
  show ?case
  proof (cases "cs = [] \<or> d \<noteq> c")
    case True
    with q 3(3) show ?thesis
      by (auto simp: map_of_al_del map_of_al_put split: option.splits)
  next
    case False
    with q 3 show ?thesis by (auto simp: map_of_al_put split: option.splits)
  qed
qed

lemma node_at_del_self: "p \<noteq> [] \<Longrightarrow> node_at p (del_node p n) = None"
proof (induction p n rule: del_node.induct)
  case (3 c cs es)
  then show ?case by (cases "cs = []") (auto simp: map_of_al_del map_of_al_put split: option.splits)
qed auto

lemma is_dir_del_above:
  "strict_prefix q p \<Longrightarrow> is_dir (del_node p n) q = is_dir n q"
proof (induction p n arbitrary: q rule: del_node.induct)
  case (1 n)
  then show ?case by simp
next
  case (2 c cs b)
  then show ?case by (cases q) auto
next
  case (3 c cs es)
  show ?case
  proof (cases q)
    case Nil
    then show ?thesis by (auto simp: is_dir_def split: option.splits)
  next
    case (Cons d ds)
    with 3 have d: "d = c" "strict_prefix ds cs" by auto
    then have "cs \<noteq> []" by auto
    with 3 d Cons show ?thesis by (auto simp: map_of_al_put split: option.splits)
  qed
qed

lemma del_keeps_file_above: "strict_prefix q p \<Longrightarrow> rd (del_node p n) q = rd n q"
proof (induction p n arbitrary: q rule: del_node.induct)
  case (3 c cs es)
  show ?case
  proof (cases q)
    case Nil
    then show ?thesis by (auto simp: rd_def split: option.splits)
  next
    case (Cons d ds)
    with 3 have d: "d = c" "strict_prefix ds cs" by auto
    then have "cs \<noteq> []" by auto
    with 3 d Cons show ?thesis by (auto simp: map_of_al_put split: option.splits)
  qed
qed auto

lemma rd_del: "p \<noteq> [] \<Longrightarrow> rd (del_node p n) q = (if prefix p q then None else rd n q)"
proof -
  assume p: "p \<noteq> []"
  consider "prefix p q" | "strict_prefix q p" | "\<not> prefix p q" "\<not> prefix q p"
    by (auto simp: strict_prefix_def)
  then show ?thesis
  proof cases
    case 1
    then obtain r where q: "q = p @ r" by (auto elim: prefixE)
    with p 1 show ?thesis by (simp add: rd_def node_at_append node_at_del_self)
  next
    case 2
    then have "\<not> prefix p q" by (auto simp: strict_prefix_def dest: prefix_order.antisym)
    with 2 show ?thesis by (simp add: del_keeps_file_above)
  next
    case 3
    with p show ?thesis by (simp add: rd_def node_at_del)
  qed
qed

lemma del_absorbs_put: "put_node (p @ q) x n = Some n' \<Longrightarrow> p \<noteq> [] \<Longrightarrow> del_node p n' = del_node p n"
proof (induction p n arbitrary: n' rule: del_node.induct)
  case (3 c cs es)
  show ?case
  proof (cases "cs = []")
    case True
    with 3 show ?thesis by (auto split: if_splits option.splits)
  next
    case False
    with 3 obtain m m' where m: "map_of es c = Some m" "put_node (cs @ q) x m = Some m'"
      "n' = Dir (al_put c m' es)"
      by (auto split: option.splits)
    with 3 False show ?thesis by (simp add: map_of_al_put)
  qed
qed auto

lemma del_absorbs_del: "p \<noteq> [] \<Longrightarrow> del_node p (del_node (p @ q) n) = del_node p n"
proof (induction p n rule: del_node.induct)
  case (3 c cs es)
  show ?case
  proof (cases "cs = []")
    case True
    then show ?thesis by (cases "q = []") (auto split: option.splits)
  next
    case False
    with 3 show ?thesis by (auto simp: map_of_al_put split: option.splits)
  qed
qed auto

lemma entries_del:
  "node_at p n = Some (Dir es) \<Longrightarrow> node_at p (del_node (p @ [c]) n) = Some (Dir (al_del c es))"
proof (induction p n rule: node_at.induct)
  case (3 d ds fs)
  then show ?case by (auto simp: map_of_al_put split: option.splits)
qed auto

lemma entries_put:
  "node_at p n = Some (Dir es) \<Longrightarrow> \<exists>n'. put_node (p @ [c]) x n = Some n' \<and>
     node_at p n' = Some (Dir (al_put c x es))"
proof (induction p n rule: node_at.induct)
  case (3 d ds fs)
  then obtain m where m: "map_of fs d = Some m" "node_at ds m = Some (Dir es)"
    by (auto split: option.splits)
  from 3(1) [OF m] obtain m' where "put_node (ds @ [c]) x m = Some m'"
    "node_at ds m' = Some (Dir (al_put c x es))" by blast
  with m show ?case by (simp add: map_of_al_put)
qed auto

section \<open>Directory creation\<close>

lemma mkdirs_node_at: "mkdirs p n = Some n' \<Longrightarrow> node_at q n = Some (File b) \<longleftrightarrow> node_at q n' = Some (File b)"
proof (induction p n arbitrary: n' q rule: mkdirs.induct)
  case (3 c cs es)
  then obtain m' where m': "mkdirs cs (case map_of es c of None \<Rightarrow> Dir [] | Some n \<Rightarrow> n) = Some m'"
    and n': "n' = Dir (al_put c m' es)" by auto
  show ?case
  proof (cases q)
    case Nil
    with n' show ?thesis by simp
  next
    case (Cons d ds)
    have e: "node_at ds (Dir []) \<noteq> Some (File b)" by (cases ds) auto
    from 3(1) [OF m', of ds] Cons n' e show ?thesis
      by (cases "map_of es c") (auto simp: map_of_al_put split: option.splits)
  qed
qed auto

lemma rd_mkdirs: "mkdirs p n = Some n' \<Longrightarrow> rd n' q = rd n q"
proof -
  assume m: "mkdirs p n = Some n'"
  have "rd n q = Some b \<longleftrightarrow> rd n' q = Some b" for b
    using mkdirs_node_at [OF m, of q b] by (auto simp: rd_def split: option.splits node.splits)
  then show ?thesis by (metis option.exhaust)
qed

lemma mkdirs_ok: "(\<And>q. prefix q p \<Longrightarrow> rd n q = None) \<Longrightarrow> \<exists>n'. mkdirs p n = Some n'"
proof (induction p n rule: mkdirs.induct)
  case (2 p b)
  from 2 [of "[]"] show ?case by (simp add: rd_def)
next
  case (3 c cs es)
  have "rd (case map_of es c of None \<Rightarrow> Dir [] | Some n \<Rightarrow> n) q = None" if "prefix q cs" for q
  proof (cases "map_of es c")
    case None
    then show ?thesis by (cases q) auto
  next
    case (Some m)
    with 3(2) [of "c # q"] that show ?thesis by simp
  qed
  from 3(1) [OF this] show ?case by auto
qed auto

lemma file_above: "rd n (p @ q) = Some b \<Longrightarrow> q \<noteq> [] \<Longrightarrow> prefix r p \<Longrightarrow> rd n r = None"
  by (auto simp: rd_def node_at_append node_at_below_file elim!: prefixE split: option.splits node.splits)
    (metis append_assoc append_is_Nil_conv node_at_append node_at_below_file option.distinct(1) option.simps(5))

lemma mkdirs_is_dir: "mkdirs p n = Some n' \<Longrightarrow> prefix q p \<Longrightarrow> is_dir n' q"
proof (induction p n arbitrary: n' q rule: mkdirs.induct)
  case (3 c cs es)
  then obtain m' where m': "mkdirs cs (case map_of es c of None \<Rightarrow> Dir [] | Some n \<Rightarrow> n) = Some m'"
    and n': "n' = Dir (al_put c m' es)" by auto
  show ?case
  proof (cases q)
    case Nil
    with n' show ?thesis by (simp add: is_dir_def)
  next
    case (Cons d ds)
    with 3(3) have "d = c" "prefix ds cs" by auto
    with 3(1) [OF m'] Cons n' show ?thesis by (simp add: is_dir_def map_of_al_put)
  qed
qed (auto simp: is_dir_def)

lemma wr_in_dir: "is_dir n p \<Longrightarrow> \<not> is_dir n (p @ [c]) \<Longrightarrow> \<exists>n'. wr (p @ [c]) b n = Some n'"
proof -
  assume d: "is_dir n p" and nd: "\<not> is_dir n (p @ [c])"
  from d obtain es where "node_at p n = Some (Dir es)"
    by (auto simp: is_dir_def split: option.splits node.splits)
  from entries_put [OF this] nd show ?thesis by (auto simp: wr_def)
qed

lemma mkdirs_other:
  "mkdirs p n = Some n' \<Longrightarrow> \<not> prefix q p \<Longrightarrow> node_at q n' = node_at q n"
proof (induction p n arbitrary: n' q rule: mkdirs.induct)
  case (3 c cs es)
  then obtain m' where m': "mkdirs cs (case map_of es c of None \<Rightarrow> Dir [] | Some n \<Rightarrow> n) = Some m'"
    and n': "n' = Dir (al_put c m' es)" by auto
  from 3(3) obtain d ds where q: "q = d # ds" by (cases q) auto
  show ?case
  proof (cases "d = c")
    case True
    with 3(3) q have "\<not> prefix ds cs" by simp
    from 3(1) [OF m' this] have "node_at ds m' = node_at ds (case map_of es c of None \<Rightarrow> Dir [] | Some n \<Rightarrow> n)" .
    moreover have "ds \<noteq> []" using \<open>\<not> prefix ds cs\<close> by auto
    ultimately show ?thesis using q True n'
      by (auto simp: map_of_al_put split: option.splits) (cases ds; simp)
  qed (simp add: q n' map_of_al_put)
qed auto

lemma mkdirs_dir: "is_dir n p \<Longrightarrow> \<exists>n'. mkdirs p n = Some n'"
proof (induction p arbitrary: n)
  case Nil
  then show ?case by (auto simp: is_dir_def split: node.splits)
next
  case (Cons c p)
  then obtain es m where "n = Dir es" "map_of es c = Some m" "is_dir m p"
    by (cases n) (auto simp: is_dir_def split: option.splits)
  with Cons.IH [of m] show ?case by auto
qed

lemma mkdirs_fresh:
  "is_dir n p \<Longrightarrow> node_at (p @ [c]) n = None \<Longrightarrow>
     \<exists>n'. mkdirs (p @ [c]) n = Some n' \<and> node_at (p @ [c]) n' = Some (Dir [])"
proof (induction p arbitrary: n)
  case Nil
  then obtain es where "n = Dir es" by (auto simp: is_dir_def split: node.splits)
  with Nil show ?case by (auto simp: map_of_al_put split: option.splits)
next
  case (Cons d p)
  then obtain es m where n: "n = Dir es" "map_of es d = Some m"
    by (cases n) (auto simp: is_dir_def split: option.splits)
  with Cons.prems have "is_dir m p" "node_at (p @ [c]) m = None" by (simp_all add: is_dir_def)
  from Cons.IH [OF this] n show ?case by (auto simp: map_of_al_put)
qed

section \<open>Well-formed trees\<close>

fun wf_node :: "node \<Rightarrow> bool" where
  "wf_node (File b) = True"
| "wf_node (Dir es) = (sorted (map fst es) \<and> distinct (map fst es) \<and> (\<forall>e \<in> set es. wf_node (snd e)))"

lemma distinct_al_put: "sorted (map fst es) \<Longrightarrow> distinct (map fst es) \<Longrightarrow> distinct (map fst (al_put k v es))"
proof (induction k v es rule: al_put.induct)
  case (2 k v k' u es)
  then show ?case by (auto simp: fst_set_al_put)
qed simp

lemma set_al_put: "e \<in> set (al_put k v es) \<Longrightarrow> e = (k, v) \<or> e \<in> set es"
  by (induction k v es rule: al_put.induct) (auto split: if_splits)

lemma wf_al_put: "wf_node (Dir es) \<Longrightarrow> wf_node x \<Longrightarrow> wf_node (Dir (al_put c x es))"
  by (auto simp: sorted_al_put distinct_al_put dest!: set_al_put)

lemma wf_al_del: "wf_node (Dir es) \<Longrightarrow> wf_node (Dir (al_del c es))"
  by (auto simp: al_del_def distinct_map_filter sorted_filter)

lemma wf_lookup: "wf_node (Dir es) \<Longrightarrow> map_of es c = Some n \<Longrightarrow> wf_node n"
  by (auto dest!: map_of_SomeD)

lemma wf_node_at: "wf_node n \<Longrightarrow> node_at p n = Some m \<Longrightarrow> wf_node m"
proof (induction p n rule: node_at.induct)
  case (3 c cs es)
  then show ?case by (auto split: option.splits dest: wf_lookup simp del: wf_node.simps)
qed auto

lemma wf_put_node: "wf_node n \<Longrightarrow> wf_node x \<Longrightarrow> put_node p x n = Some n' \<Longrightarrow> wf_node n'"
proof (induction p x n arbitrary: n' rule: put_node.induct)
  case (3 c cs x es)
  then show ?case
    by (auto split: if_splits option.splits dest: wf_lookup intro!: wf_al_put simp del: wf_node.simps)
qed auto

lemma wf_del_node: "wf_node n \<Longrightarrow> wf_node (del_node p n)"
proof (induction p n rule: del_node.induct)
  case (3 c cs es)
  then show ?case
    by (auto split: option.splits dest: wf_lookup intro!: wf_al_put wf_al_del simp del: wf_node.simps)
qed auto

lemma wf_mkdirs: "wf_node n \<Longrightarrow> mkdirs p n = Some n' \<Longrightarrow> wf_node n'"
proof (induction p n arbitrary: n' rule: mkdirs.induct)
  case (3 c cs es)
  then obtain m' where m': "mkdirs cs (case map_of es c of None \<Rightarrow> Dir [] | Some n \<Rightarrow> n) = Some m'"
    and n': "n' = Dir (al_put c m' es)" by auto
  have "wf_node (case map_of es c of None \<Rightarrow> Dir [] | Some n \<Rightarrow> n)"
    using 3(2) by (cases "map_of es c") (auto dest: wf_lookup simp del: wf_node.simps, simp)
  from 3(1) [OF this m'] 3(2) n' show ?case by (simp add: wf_al_put del: wf_node.simps)
qed auto

lemma wf_entry: "wf_node (Dir es) \<Longrightarrow> (c, n) \<in> set es \<Longrightarrow> map_of es c = Some n"
  by auto

section \<open>Files\<close>

lemma ReadFile_iff:
  "os_ReadFile p w = Inr b \<longleftrightarrow> os_fault w OpRead p = NoFault \<and> rd (os_root w) p = Some b"
  by (auto simp: os_ReadFile_def rd_def split: option.splits node.splits)

lemma ReadFile_cong:
  assumes "node_at p (os_root w') = node_at p (os_root w)" "os_fault w' = os_fault w"
  shows "os_ReadFile p w' = os_ReadFile p w"
  using assms by (simp add: os_ReadFile_def)

text \<open>\<open>writes S w w'\<close>: the second world differs from the first at most in the contents of the
  files of \<open>S\<close>.\<close>

definition writes :: "path set \<Rightarrow> 'a os_scheme \<Rightarrow> 'a os_scheme \<Rightarrow> bool" where
  "writes S w w' \<longleftrightarrow> (\<forall>q. q \<notin> S \<longrightarrow> rd (os_root w') q = rd (os_root w) q)
     \<and> os_fault w' = os_fault w \<and> os_now w' = os_now w \<and> os.more w' = os.more w"

lemma writes_refl [simp]: "writes S w w"
  by (simp add: writes_def)

lemma writes_trans: "writes S w w' \<Longrightarrow> writes T w' w'' \<Longrightarrow> writes (S \<union> T) w w''"
  by (simp add: writes_def)

lemma writes_mono: "writes S w w' \<Longrightarrow> S \<subseteq> T \<Longrightarrow> writes T w w'"
  by (auto simp: writes_def)

lemma writes_WriteFile: "os_WriteFile p b w = (r, w') \<Longrightarrow> writes {p} w w'"
  by (auto simp: os_WriteFile_def writes_def rd_wr_other split: fault.splits option.splits)

lemma MkdirAll_rd: "os_MkdirAll p w = (r, w') \<Longrightarrow> rd (os_root w') q = rd (os_root w) q"
  by (auto simp: os_MkdirAll_def rd_mkdirs split: if_splits option.splits)

lemma WriteFile_read: "os_WriteFile p b w = (None, w') \<Longrightarrow> rd (os_root w') p = Some b"
  by (auto simp: os_WriteFile_def rd_wr_same split: fault.splits option.splits)

lemma WriteFile_refused:
  "os_WriteFile p b w = (Some e, w') \<Longrightarrow> (\<forall>k. os_fault w OpWrite p \<noteq> Short k) \<Longrightarrow> w' = w"
  by (auto simp: os_WriteFile_def split: fault.splits option.splits)

lemma writes_rd: "writes S w w' \<Longrightarrow> q \<notin> S \<Longrightarrow> rd (os_root w') q = rd (os_root w) q"
  by (simp add: writes_def)

lemma writes_Read:
  "writes S w w' \<Longrightarrow> q \<notin> S \<Longrightarrow> os_ReadFile q w' = Inr b \<longleftrightarrow> os_ReadFile q w = Inr b"
  by (simp add: ReadFile_iff writes_def)

end
