(* ===== verification/Config.thy ===== *)
theory Config
  imports Mime Fs_Laws
begin

text \<open>
  \<open>internal/kakekomi/config.go\<close> and \<open>validate.go\<close>: the configuration records, the checks
  made when the configuration is loaded, and the lock file that pins the receiver's public key.

  YAML is a third-party codec: \<open>yaml_Decode\<close> stands for the decoder with \<open>KnownFields(true)\<close> and
  \<open>yaml_Marshal\<close> for the encoder.  What the code relies on is \<open>yaml_keeps\<close>: a marshalled
  configuration decodes to itself.
\<close>

section \<open>Records\<close>

record site_config =
  site_Title :: string
  site_Intro :: string

record receiver_config =
  recv_PublicKey :: string
  recv_DisplayName :: string

record field =
  fld_ID :: string
  fld_Label :: string
  fld_Type :: string
  fld_Required :: bool
  fld_MaxLength :: int
  fld_Placeholder :: string
  fld_Options :: "string list"

record attachments_config =
  ac_Enabled :: bool
  ac_MaxFiles :: int
  ac_MaxSizeMBPerFile :: int
  ac_MaxTotalSizeMB :: int
  ac_AllowedMIME :: "string list"
  ac_StripMetadata :: bool

record tor_config =
  tor_Enabled :: bool
  tor_Mode :: string
  tor_ControlAddr :: string
  tor_ControlPassword :: string
  tor_CookieAuthFile :: string
  tor_IngressOnionAddr :: string
  tor_AdminOnionAddr :: string
  tor_AdminClientPubKeys :: "string list"

record pow_config =
  pow_Enabled :: bool
  pow_HashChainCost :: int

record security_config =
  sec_Profile :: string
  sec_PoW :: pow_config
  sec_Honeypot :: bool
  sec_PubkeyLock :: string

record config =
  cfg_Site :: site_config
  cfg_Receiver :: receiver_config
  cfg_Fields :: "field list"
  cfg_Attachments :: attachments_config
  cfg_Tor :: tor_config
  cfg_Security :: security_config
  cfg_DefaultTTLDays :: int

record yaml_codec =
  yaml_Decode :: "bytes \<Rightarrow> error + config"
  yaml_Marshal :: "config \<Rightarrow> error + bytes"

definition yaml_keeps :: "yaml_codec \<Rightarrow> config \<Rightarrow> bool" where
  "yaml_keeps Y c \<longleftrightarrow> (\<exists>b. yaml_Marshal Y c = Inr b \<and> yaml_Decode Y b = Inr c)"

definition utf8 :: "nat list \<Rightarrow> string" where
  "utf8 ns = map char_of ns"

section \<open>Loading\<close>

definition configPath :: "path \<Rightarrow> path" where
  "configPath dataDir = join_comps dataDir [''config'', ''kakekomi.yaml'']"

definition pubkeyLockPath :: "path \<Rightarrow> path" where
  "pubkeyLockPath dataDir = join_comps dataDir [''config'', ''pubkey.lock'']"

definition field_types :: "string list" where
  "field_types = [[], ''text'', ''textarea'', ''select'', ''date'', ''checkbox'', ''number'']"

text \<open>The quoting verb of \<open>fmt\<close>, for the values that stand in error messages; bytes outside ASCII
  are left as they are.\<close>

fun quote_char :: "char \<Rightarrow> string" where
  "quote_char c =
     (if c = CHR 0x22 \<or> c = CHR 0x5C then [CHR 0x5C, c]
      else if c = CHR 0x0A then [CHR 0x5C, CHR ''n'']
      else if c = CHR 0x0D then [CHR 0x5C, CHR ''r'']
      else if c = CHR 0x09 then [CHR 0x5C, CHR ''t'']
      else [c])"

definition quoted :: "string \<Rightarrow> string" where
  "quoted s = [CHR 0x22] @ concat (map quote_char s) @ [CHR 0x22]"

fun check_fields :: "field list \<Rightarrow> error option" where
  "check_fields [] = None"
| "check_fields (f # fs) =
     (if fld_Type f \<in> set field_types then check_fields fs
      else Some (Err (''field '' @ quoted (fld_ID f) @ '': unsupported type '' @ quoted (fld_Type f))))"

fun check_mimes :: "string list \<Rightarrow> error option" where
  "check_mimes [] = None"
| "check_mimes (m # ms) =
     (if mimeIsSafe m then check_mimes ms
      else Some (Err (''attachments.allowed_mime: '' @ quoted m
             @ '' is forbidden in v1 (only image/* and text/plain)'')))"

definition semanticValidate :: "config \<Rightarrow> error option" where
  "semanticValidate c =
     (if recv_PublicKey (cfg_Receiver c) = []
      then Some (Err ''receiver.public_key is empty (run `kakekomi init` first)'')
      else if cfg_Fields c = [] then Some (Err ''no fields defined in config'')
      else if sec_Profile (cfg_Security c) \<noteq> [] \<and> sec_Profile (cfg_Security c) \<noteq> ''paranoid''
      then Some (Err (''security.profile '' @ quoted (sec_Profile (cfg_Security c))
             @ '' unsupported in v1 (paranoid only)''))
      else case check_fields (cfg_Fields c) of
        Some e \<Rightarrow> Some e
      | None \<Rightarrow> if ac_Enabled (cfg_Attachments c) then check_mimes (ac_AllowedMIME (cfg_Attachments c))
                else None)"

definition lockPath :: "config \<Rightarrow> path \<Rightarrow> path" where
  "lockPath c dataDir =
     (if sec_PubkeyLock (cfg_Security c) = [] then pubkeyLockPath dataDir
      else os_path (sec_PubkeyLock (cfg_Security c)))"

definition errLockMissing :: error where
  "errLockMissing = Err (''pubkey.lock missing '' @ utf8 [0xE2, 0x80, 0x94]
         @ '' re-run `kakekomi init` or restore'')"
definition errLockMismatch :: error where
  "errLockMismatch = Err (''pubkey.lock mismatch '' @ utf8 [0xE2, 0x80, 0x94]
         @ '' config.receiver.public_key was changed; possible tampering'')"

text \<open>The message for a missing lock file also names its path, which the model leaves out.\<close>

definition verifyPubkeyLock :: "config \<Rightarrow> path \<Rightarrow> 'a os_scheme \<Rightarrow> error option" where
  "verifyPubkeyLock c dataDir w =
     (case os_ReadFile (lockPath c dataDir) w of
        Inl e \<Rightarrow> if e = ErrNotExist then Some errLockMissing else Some (Wrap ''read pubkey.lock'' e)
      | Inr want \<Rightarrow>
          (let got = sha256 (bytes_of (recv_PublicKey (cfg_Receiver c)))
           in if TrimSpace (str_of want) \<noteq> hex_EncodeToString got then Some errLockMismatch else None))"

definition writePubkeyLock :: "path \<Rightarrow> string \<Rightarrow> 'a os_scheme \<Rightarrow> error option \<times> 'a os_scheme" where
  "writePubkeyLock dataDir publicKey w =
     (let sum = sha256 (bytes_of publicKey)
      in os_WriteFile (pubkeyLockPath dataDir) (bytes_of (hex_EncodeToString sum @ [CHR 0x0A])) w)"

definition LoadConfig :: "yaml_codec \<Rightarrow> path \<Rightarrow> 'a os_scheme \<Rightarrow> error + config" where
  "LoadConfig Y dataDir w =
     (case os_ReadFile (configPath dataDir) w of
        Inl e \<Rightarrow> Inl (Wrap ''read config'' e)
      | Inr b \<Rightarrow>
          (case yaml_Decode Y b of
             Inl e \<Rightarrow> Inl (Wrap ''parse config'' e)
           | Inr c \<Rightarrow>
               (case semanticValidate c of
                  Some e \<Rightarrow> Inl e
                | None \<Rightarrow> (case verifyPubkeyLock c dataDir w of Some e \<Rightarrow> Inl e | None \<Rightarrow> Inr c))))"

section \<open>The default configuration\<close>

definition new_field :: field where
  "new_field = \<lparr>fld_ID = [], fld_Label = [], fld_Type = [], fld_Required = False, fld_MaxLength = 0,
     fld_Placeholder = [], fld_Options = []\<rparr>"

definition default_fields :: "field list" where
  "default_fields =
     [new_field\<lparr>fld_ID := ''body'', fld_Label := utf8 [0xE9, 0x80, 0x9A, 0xE5, 0xA0, 0xB1, 0xE5,
         0x86, 0x85, 0xE5, 0xAE, 0xB9],
        fld_Type := ''textarea'', fld_Required := True, fld_MaxLength := 50000\<rparr>,
      new_field\<lparr>fld_ID := ''subject'', fld_Label := utf8 [0xE4, 0xBB, 0xB6, 0xE5, 0x90, 0x8D]
         @ '' ('' @ utf8 [0xE4, 0xBB, 0xBB, 0xE6, 0x84, 0x8F] @ '')'',
        fld_Type := ''text'', fld_MaxLength := 200\<rparr>,
      new_field\<lparr>fld_ID := ''when'', fld_Label := utf8 [0xE4, 0xBA, 0x8B, 0xE6, 0xA1, 0x88, 0xE3,
         0x81, 0xAE, 0xE6, 0x99, 0x82, 0xE6, 0x9C, 0x9F] @ '' ('' @ utf8 [0xE4, 0xBB, 0xBB, 0xE6, 0x84,
         0x8F] @ '')'',
        fld_Type := ''text'',
        fld_Placeholder := utf8 [0xE4, 0xBE, 0x8B] @ '': 2025'' @ utf8 [0xE5, 0xB9, 0xB4, 0xE7, 0xA7,
         0x8B, 0xE9, 0xA0, 0x83]\<rparr>]"

definition DefaultConfig :: config where
  "DefaultConfig = \<lparr>
     cfg_Site = \<lparr>site_Title = utf8 [0xE9, 0x80, 0x9A, 0xE5, 0xA0, 0xB1, 0xE7, 0xAA, 0x93, 0xE5,
         0x8F, 0xA3],
       site_Intro = utf8 [0xE5, 0xAE, 0x89, 0xE5, 0x85, 0xA8, 0xE3, 0x81, 0xAB, 0xE6, 0x83, 0x85, 0xE5,
         0xA0, 0xB1, 0xE3, 0x82, 0x92, 0xE3, 0x81, 0x8A, 0xE5, 0xAF, 0x84, 0xE3, 0x81, 0x9B, 0xE3, 0x81,
         0x8F, 0xE3, 0x81, 0xA0, 0xE3, 0x81, 0x95, 0xE3, 0x81, 0x84, 0xE3, 0x80, 0x82, 0xE8, 0xBA, 0xAB,
         0xE5, 0x85, 0x83, 0xE3, 0x81, 0xAE, 0xE5, 0x85, 0xA5, 0xE5, 0x8A, 0x9B, 0xE3, 0x81, 0xAF, 0xE4,
         0xB8, 0x8D, 0xE8, 0xA6, 0x81, 0xE3, 0x81, 0xA7, 0xE3, 0x81, 0x99, 0xE3, 0x80, 0x82]\<rparr>,
     cfg_Receiver = \<lparr>recv_PublicKey = [], recv_DisplayName = []\<rparr>,
     cfg_Fields = default_fields,
     cfg_Attachments = \<lparr>ac_Enabled = True, ac_MaxFiles = 10, ac_MaxSizeMBPerFile = 50,
       ac_MaxTotalSizeMB = 200,
       ac_AllowedMIME = [''image/jpeg'', ''image/png'', ''image/webp'', ''image/gif'', ''text/plain''],
       ac_StripMetadata = True\<rparr>,
     cfg_Tor = \<lparr>tor_Enabled = False, tor_Mode = ''external'', tor_ControlAddr = ''127.0.0.1:9051'',
       tor_ControlPassword = [], tor_CookieAuthFile = [], tor_IngressOnionAddr = [],
       tor_AdminOnionAddr = [], tor_AdminClientPubKeys = []\<rparr>,
     cfg_Security = \<lparr>sec_Profile = ''paranoid'',
       sec_PoW = \<lparr>pow_Enabled = True, pow_HashChainCost = 65536\<rparr>, sec_Honeypot = True,
       sec_PubkeyLock = []\<rparr>,
     cfg_DefaultTTLDays = 90\<rparr>"

definition ValidateConfig :: "yaml_codec \<Rightarrow> path \<Rightarrow> 'a os_scheme \<Rightarrow> error option" where
  "ValidateConfig Y dataDir w = (case LoadConfig Y dataDir w of Inl e \<Rightarrow> Some e | Inr cfg \<Rightarrow> None)"

section \<open>Properties\<close>

definition config_ok :: "config \<Rightarrow> bool" where
  "config_ok c \<longleftrightarrow> recv_PublicKey (cfg_Receiver c) \<noteq> [] \<and> cfg_Fields c \<noteq> []
     \<and> sec_Profile (cfg_Security c) \<in> {[], ''paranoid''}
     \<and> (\<forall>f \<in> set (cfg_Fields c). fld_Type f \<in> set field_types)
     \<and> (ac_Enabled (cfg_Attachments c) \<longrightarrow>
          (\<forall>m \<in> set (ac_AllowedMIME (cfg_Attachments c)). mimeIsSafe m))"

lemma err_seq_None [simp]: "(case x of Some e \<Rightarrow> Some e | None \<Rightarrow> y) = None \<longleftrightarrow> x = None \<and> y = None"
  by (cases x) simp_all

lemma err_seq_Inr [simp]: "(case x of Some e \<Rightarrow> Inl e | None \<Rightarrow> y) = Inr v \<longleftrightarrow> x = None \<and> y = Inr v"
  by (cases x) simp_all

lemma check_fields_ok: "check_fields fs = None \<longleftrightarrow> (\<forall>f \<in> set fs. fld_Type f \<in> set field_types)"
  by (induction fs) auto

lemma check_mimes_ok: "check_mimes ms = None \<longleftrightarrow> (\<forall>m \<in> set ms. mimeIsSafe m)"
  by (induction ms) auto

lemma semanticValidate_ok: "semanticValidate c = None \<longleftrightarrow> config_ok c"
  by (auto simp: semanticValidate_def config_ok_def check_fields_ok check_mimes_ok)

lemma verifyPubkeyLock_ok:
  "verifyPubkeyLock c d w = None \<longleftrightarrow>
     (\<exists>l. os_ReadFile (lockPath c d) w = Inr l
        \<and> TrimSpace (str_of l) = PubkeyFingerprint (recv_PublicKey (cfg_Receiver c)))"
  by (auto simp: verifyPubkeyLock_def PubkeyFingerprint_def Let_def split: sum.splits)

lemma LoadConfig_ok:
  "LoadConfig Y d w = Inr c \<longleftrightarrow>
     (\<exists>b l. os_ReadFile (configPath d) w = Inr b \<and> yaml_Decode Y b = Inr c \<and> config_ok c
        \<and> os_ReadFile (lockPath c d) w = Inr l
        \<and> TrimSpace (str_of l) = PubkeyFingerprint (recv_PublicKey (cfg_Receiver c)))"
  by (auto simp: LoadConfig_def verifyPubkeyLock_ok semanticValidate_ok split: sum.splits)

lemma default_ok: "recv_PublicKey r \<noteq> [] \<Longrightarrow> config_ok (DefaultConfig\<lparr>cfg_Receiver := r, cfg_Tor := t\<rparr>)"
  by (simp add: config_ok_def field_types_def DefaultConfig_def default_fields_def new_field_def mimeIsSafe_def safeMIMEs_def)

end
