(* ===== verification/Rotate.thy ===== *)
theory Rotate
  imports Config Tarpack
begin

text \<open>
  \<open>internal/kakekomi/rotate.go\<close>: rotation of the receiver's age key.  On success the result is
  the new key pair, which the source prints; the order of the file writes and the early returns
  are those of the source.
\<close>

definition receiverPubPath :: "path \<Rightarrow> path" where
  "receiverPubPath dataDir = join_comps dataDir [''config'', ''receiver.pub'']"

definition archivePath :: "path \<Rightarrow> int \<Rightarrow> path" where
  "archivePath dataDir t =
     join_comps dataDir [''config'', ''receiver-'' @ dec_int (unix_seconds t) @ ''.pub.archived'']"

definition archive_old :: "path \<Rightarrow> 'a os_scheme \<Rightarrow> 'a os_scheme" where
  "archive_old dataDir w =
     (case os_ReadFile (receiverPubPath dataDir) w of
        Inl e \<Rightarrow> w
      | Inr old \<Rightarrow> snd (os_WriteFile (archivePath dataDir (os_now w)) old w))"

definition set_key :: "string \<Rightarrow> config \<Rightarrow> config" where
  "set_key pub cfg = cfg\<lparr>cfg_Receiver := (cfg_Receiver cfg)\<lparr>recv_PublicKey := pub\<rparr>\<rparr>"

definition RotateKey :: "prims \<Rightarrow> yaml_codec \<Rightarrow> path \<Rightarrow> 'a os_scheme
    \<Rightarrow> (error + string \<times> string) \<times> 'a os_scheme" where
  "RotateKey P Y dataDir w =
     (case LoadConfig Y dataDir w of
        Inl e \<Rightarrow> (Inl e, w)
      | Inr cfg \<Rightarrow>
          (case GenerateAgeKey P w of
             (Inl e, w1) \<Rightarrow> (Inl e, w1)
           | (Inr (newPub, newSec), w1) \<Rightarrow>
               (let w2 = archive_old dataDir w1 in
                case yaml_Marshal Y (set_key newPub cfg) of
                  Inl e \<Rightarrow> (Inl e, w2)
                | Inr out \<Rightarrow>
                    (case os_WriteFile (configPath dataDir) out w2 of
                       (Some e, w3) \<Rightarrow> (Inl e, w3)
                     | (None, w3) \<Rightarrow>
                         (case os_WriteFile (receiverPubPath dataDir) (bytes_of (newPub @ [CHR 0x0A])) w3 of
                            (Some e, w4) \<Rightarrow> (Inl e, w4)
                          | (None, w4) \<Rightarrow>
                              (case writePubkeyLock dataDir newPub w4 of
                                 (Some e, w5) \<Rightarrow> (Inl e, w5)
                               | (None, w5) \<Rightarrow> (Inr (newPub, newSec), w5)))))))"

section \<open>Steps\<close>

lemma GenerateAgeKey_writes: "GenerateAgeKey P w = (r, w') \<Longrightarrow> writes {} w w'"
  by (auto simp: GenerateAgeKey_def readRandom_def writes_def split: if_splits)

lemma archive_writes: "writes {archivePath d (os_now w)} w (archive_old d w)"
  by (auto simp: archive_old_def split: sum.splits)
    (metis prod.collapse writes_WriteFile)

lemma dec_int_no_slash: "slash \<notin> set (dec_int i)"
  using dec_nat_digits [of slash] by (auto simp: dec_int_def slash_def ordc_def)

lemma archive_plain: "plain_comp (''receiver-'' @ dec_int i @ ''.pub.archived'')"
  using dec_int_no_slash [of i] by (auto simp: plain_comp_def slash_def)

definition config_dir_ok :: "path \<Rightarrow> bool" where
  "config_dir_ok d \<longleftrightarrow> list_all plain_comp d"

lemma config_paths:
  assumes "config_dir_ok d"
  shows "configPath d = d @ [''config'', ''kakekomi.yaml'']" "pubkeyLockPath d = d @ [''config'', ''pubkey.lock'']"
    "receiverPubPath d = d @ [''config'', ''receiver.pub'']"
    "archivePath d t = d @ [''config'', ''receiver-'' @ dec_int (unix_seconds t) @ ''.pub.archived'']"
  using assms archive_plain [of "unix_seconds t"]
  by (simp_all add: configPath_def pubkeyLockPath_def receiverPubPath_def archivePath_def
      config_dir_ok_def join_comps_plain plain_comp_def slash_def)

lemma paths_differ:
  assumes "config_dir_ok d"
  shows "configPath d \<noteq> pubkeyLockPath d" "configPath d \<noteq> receiverPubPath d"
    "pubkeyLockPath d \<noteq> receiverPubPath d" "archivePath d t \<noteq> configPath d"
    "archivePath d t \<noteq> pubkeyLockPath d"
  by (auto simp: config_paths [OF assms])

section \<open>The stages of a rotation\<close>

lemma writePubkeyLock_eq:
  "writePubkeyLock d pub w = os_WriteFile (pubkeyLockPath d) (bytes_of (PubkeyFingerprint pub @ [CHR 0x0A])) w"
  by (simp add: writePubkeyLock_def PubkeyFingerprint_def Let_def)

lemma RotateKey_stages:
  assumes "RotateKey P Y d w = (res, w')" and "LoadConfig Y d w = Inr cfg"
  shows "(\<exists>e. res = Inl e \<and> writes {archivePath d (os_now w)} w w')
    \<or> (\<exists>seed pub sec out w2 r3 w3. length seed = 32 \<and> age_Keypair P seed = (pub, sec)
         \<and> writes {archivePath d (os_now w)} w w2 \<and> yaml_Marshal Y (set_key pub cfg) = Inr out
         \<and> os_WriteFile (configPath d) out w2 = (r3, w3)
         \<and> ((\<exists>e. r3 = Some e \<and> res = Inl e \<and> w' = w3)
          \<or> r3 = None \<and> (\<exists>r4 w4. os_WriteFile (receiverPubPath d) (bytes_of (pub @ [CHR 0x0A])) w3 = (r4, w4)
             \<and> ((\<exists>e. r4 = Some e \<and> res = Inl e \<and> w' = w4)
              \<or> r4 = None \<and> (\<exists>r5. os_WriteFile (pubkeyLockPath d)
                    (bytes_of (PubkeyFingerprint pub @ [CHR 0x0A])) w4 = (r5, w')
                  \<and> res = (case r5 of Some e \<Rightarrow> Inl e | None \<Rightarrow> Inr (pub, sec)))))))"
proof (cases "GenerateAgeKey P w")
  case (Pair gr w1)
  note g1 = GenerateAgeKey_writes [OF Pair]
  show ?thesis
  proof (cases gr)
    case (Inl e)
    with assms Pair g1 writes_mono [OF g1] show ?thesis by (auto simp: RotateKey_def)
  next
    case (Inr kp)
    obtain pub sec where kp: "kp = (pub, sec)" by fastforce
    obtain seed where seed: "length seed = 32" "age_Keypair P seed = (pub, sec)"
      using Pair Inr kp that [of "take 32 (os_rng w)"]
      by (auto simp: GenerateAgeKey_def readRandom_def split: if_splits)
    let ?w2 = "archive_old d w1"
    have "os_now w1 = os_now w" using g1 by (simp add: writes_def)
    with writes_trans [OF g1 archive_writes [of d w1]]
    have w2: "writes {archivePath d (os_now w)} w ?w2" by simp
    show ?thesis
    proof (cases "yaml_Marshal Y (set_key pub cfg)")
      case (Inl e)
      with assms Pair Inr kp w2 show ?thesis by (auto simp: RotateKey_def Let_def)
    next
      case (Inr out)
      obtain r3 w3 where w3: "os_WriteFile (configPath d) out ?w2 = (r3, w3)" by fastforce
      obtain r4 w4 where w4: "os_WriteFile (receiverPubPath d) (bytes_of (pub @ [CHR 0x0A])) w3 = (r4, w4)"
        by fastforce
      show ?thesis
        using assms Pair \<open>gr = Inr kp\<close> kp Inr w3 w4 seed w2
        by (intro disjI2, intro exI [of _ seed] exI [of _ pub] exI [of _ sec] exI [of _ out]
            exI [of _ ?w2] exI [of _ r3] exI [of _ w3])
          (auto simp: RotateKey_def Let_def writePubkeyLock_eq split: option.splits prod.splits)
    qed
  qed
qed

lemma RotateKey_done:
  assumes "RotateKey P Y d w = (Inr (pub, sec), w')" and "LoadConfig Y d w = Inr cfg" and "config_dir_ok d"
  shows "\<exists>seed out. length seed = 32 \<and> age_Keypair P seed = (pub, sec)
     \<and> yaml_Marshal Y (set_key pub cfg) = Inr out
     \<and> rd (os_root w') (configPath d) = Some out
     \<and> rd (os_root w') (pubkeyLockPath d) = Some (bytes_of (PubkeyFingerprint pub @ [CHR 0x0A]))
     \<and> writes {archivePath d (os_now w), configPath d, receiverPubPath d, pubkeyLockPath d} w w'"
proof -
  from RotateKey_stages [OF assms(1,2)] obtain seed out w2 w3 w4 where
    s: "length seed = 32" "age_Keypair P seed = (pub, sec)" "yaml_Marshal Y (set_key pub cfg) = Inr out"
    and w2: "writes {archivePath d (os_now w)} w w2"
    and w3: "os_WriteFile (configPath d) out w2 = (None, w3)"
    and w4: "os_WriteFile (receiverPubPath d) (bytes_of (pub @ [CHR 0x0A])) w3 = (None, w4)"
    and w5: "os_WriteFile (pubkeyLockPath d) (bytes_of (PubkeyFingerprint pub @ [CHR 0x0A])) w4 = (None, w')"
    by (auto split: option.splits)
  note ne = paths_differ [OF assms(3)]
  have "rd (os_root w') (configPath d) = Some out"
    using WriteFile_read [OF w3] writes_rd [OF writes_WriteFile [OF w4], of "configPath d"]
      writes_rd [OF writes_WriteFile [OF w5], of "configPath d"] ne by simp
  moreover have "writes {archivePath d (os_now w), configPath d, receiverPubPath d, pubkeyLockPath d} w w'"
    using writes_trans [OF writes_trans [OF w2 writes_WriteFile [OF w3]]
        writes_trans [OF writes_WriteFile [OF w4] writes_WriteFile [OF w5]]]
    by (simp add: insert_commute)
  ultimately show ?thesis using s WriteFile_read [OF w5] by blast
qed

lemma RotateKey_failed:
  assumes "RotateKey P Y d w = (Inl e, w')" and "LoadConfig Y d w = Inr cfg" and "config_dir_ok d"
    and "\<forall>p k. os_fault w OpWrite p \<noteq> Short k"
  shows "writes {archivePath d (os_now w)} w w'
     \<or> (\<exists>pub out. yaml_Marshal Y (set_key pub cfg) = Inr out \<and> rd (os_root w') (configPath d) = Some out
          \<and> writes {archivePath d (os_now w), configPath d, receiverPubPath d} w w')"
proof (cases "writes {archivePath d (os_now w)} w w'")
  case True
  then show ?thesis ..
next
  case False
  let ?A = "archivePath d (os_now w)"
  from RotateKey_stages [OF assms(1,2)] False obtain pub out w2 r3 w3 where
    s: "yaml_Marshal Y (set_key pub cfg) = Inr out"
    and w2: "writes {?A} w w2"
    and w3: "os_WriteFile (configPath d) out w2 = (r3, w3)"
    and rest: "((\<exists>e. r3 = Some e \<and> w' = w3)
          \<or> r3 = None \<and> (\<exists>r4 w4. os_WriteFile (receiverPubPath d) (bytes_of (pub @ [CHR 0x0A])) w3 = (r4, w4)
             \<and> ((\<exists>e. r4 = Some e \<and> w' = w4)
              \<or> r4 = None \<and> (\<exists>e. os_WriteFile (pubkeyLockPath d)
                    (bytes_of (PubkeyFingerprint pub @ [CHR 0x0A])) w4 = (Some e, w')))))"
    by (auto split: option.splits)
  note ne = paths_differ [OF assms(3)]
  have f: "\<forall>p k. os_fault v OpWrite p \<noteq> Short k" if "os_fault v = os_fault w" for v
    using assms(4) that by simp
  have "os_fault w2 = os_fault w" using w2 by (simp add: writes_def)
  with WriteFile_refused [of "configPath d" out w2] f w2 False w3 have "r3 = None"
    using rest by (cases r3) auto
  with rest obtain r4 w4 where w4: "os_WriteFile (receiverPubPath d) (bytes_of (pub @ [CHR 0x0A])) w3 = (r4, w4)"
    and w5: "w' = w4 \<or> (\<exists>e. os_WriteFile (pubkeyLockPath d)
                    (bytes_of (PubkeyFingerprint pub @ [CHR 0x0A])) w4 = (Some e, w'))" by auto
  have wr: "writes {?A, configPath d, receiverPubPath d} w w4"
    using writes_trans [OF writes_trans [OF w2 writes_WriteFile [OF w3]] writes_WriteFile [OF w4]]
    by (simp add: insert_commute)
  then have "os_fault w4 = os_fault w" by (simp add: writes_def)
  with w5 WriteFile_refused [of "pubkeyLockPath d" _ w4] f have "w' = w4" by blast
  moreover have "rd (os_root w4) (configPath d) = Some out"
    using WriteFile_read [of "configPath d" out w2 w3] w3 \<open>r3 = None\<close>
      writes_rd [OF writes_WriteFile [OF w4], of "configPath d"] ne by simp
  ultimately show ?thesis using s wr by blast
qed

section \<open>Properties\<close>

lemma yaml_keepsD: "yaml_keeps Y c \<Longrightarrow> yaml_Marshal Y c = Inr b \<Longrightarrow> yaml_Decode Y b = Inr c"
  by (auto simp: yaml_keeps_def)

lemma lockPath_set_key [simp]: "lockPath (set_key pub cfg) d = lockPath cfg d"
  by (simp add: set_key_def lockPath_def)

lemma set_key_ok: "config_ok cfg \<Longrightarrow> pub \<noteq> [] \<Longrightarrow> config_ok (set_key pub cfg)"
  by (simp add: config_ok_def set_key_def)

lemma set_key_pub [simp]: "recv_PublicKey (cfg_Receiver (set_key pub cfg)) = pub"
  by (simp add: set_key_def)

lemma Trim_line: "TrimSpace (PubkeyFingerprint pub @ [CHR 0x0A]) = PubkeyFingerprint pub"
proof (rule TrimSpace_line)
  show "PubkeyFingerprint pub \<noteq> []"
    by (metis PubkeyFingerprint_def length_hex_encode length_sha256 list.size(3) mult_eq_0_iff zero_neq_numeral)
  show "\<forall>c \<in> set (PubkeyFingerprint pub). \<not> space_char c"
    by (auto simp: PubkeyFingerprint_def dest: hex_encode_lower lower_hex_not_space)
qed

text \<open>C17: after a successful rotation with the default lock path the server loads again, with the
  old configuration but for the new public key, and the printed secret key decrypts what is
  encrypted to that key.  This assumes that the YAML codec reads back the configuration it writes
  and that age decrypts what it encrypted.\<close>

theorem RotateKey_reloads:
  assumes "age_correct P" and "config_dir_ok d" and "LoadConfig Y d w = Inr cfg"
    and "sec_PubkeyLock (cfg_Security cfg) = []" and "\<forall>pub. yaml_keeps Y (set_key pub cfg)"
    and "RotateKey P Y d w = (Inr (pub, sec), w')"
  shows "LoadConfig Y d w' = Inr (set_key pub cfg)
     \<and> (\<forall>pt v blob v'. EncryptToReceiver P pub pt v = (Inr blob, v') \<longrightarrow>
          DecryptFromReceiver P sec blob = Inr pt)"
proof -
  from RotateKey_done [OF assms(6,3,2)] obtain seed out where
    s: "length seed = 32" "age_Keypair P seed = (pub, sec)" "yaml_Marshal Y (set_key pub cfg) = Inr out"
      "rd (os_root w') (configPath d) = Some out"
      "rd (os_root w') (pubkeyLockPath d) = Some (bytes_of (PubkeyFingerprint pub @ [CHR 0x0A]))"
      "writes {archivePath d (os_now w), configPath d, receiverPubPath d, pubkeyLockPath d} w w'" by blast
  from assms(3) have old: "config_ok cfg" "os_fault w OpRead (configPath d) = NoFault"
    "os_fault w OpRead (lockPath cfg d) = NoFault"
    by (auto simp: LoadConfig_ok ReadFile_iff)
  have lock: "lockPath cfg d = pubkeyLockPath d" using assms(4) by (simp add: lockPath_def)
  have f: "os_fault w' = os_fault w" using s(6) by (simp add: writes_def)
  have "pub \<noteq> []" using assms(1) s(1,2) by (auto simp: age_correct_def)
  moreover have "yaml_Decode Y out = Inr (set_key pub cfg)"
    using assms(5) s(3) yaml_keepsD by blast
  ultimately have "LoadConfig Y d w' = Inr (set_key pub cfg)"
    using old s(4,5) f lock by (simp add: LoadConfig_ok ReadFile_iff set_key_ok Trim_line)
  with receiver_roundtrip [OF assms(1) s(1,2)] show ?thesis by blast
qed

text \<open>C29: with a lock path of its own in the configuration, a successful rotation leaves a
  configuration that loads only if the new key happens to have the fingerprint of the old one:
  the new fingerprint is written to the default path, and the start-up check reads the
  configured one.\<close>

theorem RotateKey_custom_lock:
  assumes "age_correct P" and "config_dir_ok d" and "LoadConfig Y d w = Inr cfg"
    and "\<forall>pub. yaml_keeps Y (set_key pub cfg)"
    and "lockPath cfg d \<notin> {configPath d, pubkeyLockPath d, receiverPubPath d, archivePath d (os_now w)}"
    and "RotateKey P Y d w = (Inr (pub, sec), w')"
  shows "LoadConfig Y d w' =
     (if PubkeyFingerprint pub = PubkeyFingerprint (recv_PublicKey (cfg_Receiver cfg))
      then Inr (set_key pub cfg) else Inl errLockMismatch)"
proof -
  from RotateKey_done [OF assms(6,3,2)] obtain seed out where
    s: "length seed = 32" "age_Keypair P seed = (pub, sec)"
      "yaml_Marshal Y (set_key pub cfg) = Inr out" "rd (os_root w') (configPath d) = Some out"
      "writes {archivePath d (os_now w), configPath d, receiverPubPath d, pubkeyLockPath d} w w'" by blast
  from assms(3) obtain l where old: "config_ok cfg" "os_fault w OpRead (configPath d) = NoFault"
    "os_ReadFile (lockPath cfg d) w = Inr l"
    "TrimSpace (str_of l) = PubkeyFingerprint (recv_PublicKey (cfg_Receiver cfg))"
    by (auto simp: LoadConfig_ok ReadFile_iff)
  have f: "os_fault w' = os_fault w" using s(5) by (simp add: writes_def)
  have "os_ReadFile (configPath d) w' = Inr out" using s(4) old(2) f by (simp add: ReadFile_iff)
  moreover have "yaml_Decode Y out = Inr (set_key pub cfg)" using assms(4) s(3) yaml_keepsD by blast
  moreover have "pub \<noteq> []" using assms(1) s(1,2) by (auto simp: age_correct_def)
  then have "semanticValidate (set_key pub cfg) = None"
    using old(1) by (simp add: semanticValidate_ok set_key_ok)
  moreover have "os_ReadFile (lockPath cfg d) w' = Inr l"
    using writes_Read [OF s(5)] assms(5) old(3) by blast
  ultimately show ?thesis
    using old(4) by (simp add: LoadConfig_def verifyPubkeyLock_def PubkeyFingerprint_def)
qed

text \<open>C30: a rotation that fails part way, on a disk that refuses writes but does not cut them
  short, never lets the server start with a key of another fingerprint: whatever configuration
  still loads afterwards is the old one up to a key with the fingerprint of the old key.\<close>

theorem RotateKey_fails_closed:
  assumes "config_dir_ok d" and "LoadConfig Y d w = Inr cfg" and "\<forall>pub. yaml_keeps Y (set_key pub cfg)"
    and "lockPath cfg d \<noteq> receiverPubPath d" and "lockPath cfg d \<noteq> configPath d"
    and "lockPath cfg d \<noteq> archivePath d (os_now w)"
    and "\<forall>p k. os_fault w OpWrite p \<noteq> Short k"
    and "RotateKey P Y d w = (Inl e, w')" and "LoadConfig Y d w' = Inr c"
  shows "(\<exists>pub. c = set_key pub cfg)
     \<and> PubkeyFingerprint (recv_PublicKey (cfg_Receiver c))
         = PubkeyFingerprint (recv_PublicKey (cfg_Receiver cfg))"
proof -
  let ?A = "archivePath d (os_now w)"
  have same: "set_key (recv_PublicKey (cfg_Receiver cfg)) cfg = cfg" by (simp add: set_key_def)
  from assms(2) obtain b l where old: "os_ReadFile (configPath d) w = Inr b" "yaml_Decode Y b = Inr cfg"
    "os_ReadFile (lockPath cfg d) w = Inr l"
    "TrimSpace (str_of l) = PubkeyFingerprint (recv_PublicKey (cfg_Receiver cfg))"
    by (auto simp: LoadConfig_ok)
  from assms(9) obtain b' l' where new: "os_ReadFile (configPath d) w' = Inr b'" "yaml_Decode Y b' = Inr c"
    "os_ReadFile (lockPath c d) w' = Inr l'"
    "TrimSpace (str_of l') = PubkeyFingerprint (recv_PublicKey (cfg_Receiver c))"
    by (auto simp: LoadConfig_ok)
  from RotateKey_failed [OF assms(8,2,1,7)] show ?thesis
  proof
    assume "writes {?A} w w'"
    then have "os_ReadFile (configPath d) w' = Inr b"
      using writes_Read [of "{?A}" w w' "configPath d" b] paths_differ(4) [OF assms(1), THEN not_sym] old(1) by auto
    with new(1,2) old(2) have "c = cfg" by simp
    with same show ?thesis by metis
  next
    assume "\<exists>pub out. yaml_Marshal Y (set_key pub cfg) = Inr out \<and> rd (os_root w') (configPath d) = Some out
          \<and> writes {?A, configPath d, receiverPubPath d} w w'"
    then obtain pub out where p: "yaml_Marshal Y (set_key pub cfg) = Inr out"
      "rd (os_root w') (configPath d) = Some out" "writes {?A, configPath d, receiverPubPath d} w w'" by blast
    have "b' = out" using new(1) p(2) by (simp add: ReadFile_iff)
    with new(2) assms(3) p(1) have c: "c = set_key pub cfg" using yaml_keepsD by fastforce
    then have "os_ReadFile (lockPath cfg d) w' = Inr l'" using new(3) by simp
    then have "l' = l" using writes_Read [OF p(3), of "lockPath cfg d" l'] assms(4-6) old(3) by simp
    with c new(4) old(4) show ?thesis by auto
  qed
qed

section \<open>Instances\<close>

definition demo_config :: "string \<Rightarrow> config" where
  "demo_config lock = set_key ''p0'' (DefaultConfig
     \<lparr>cfg_Security := (cfg_Security DefaultConfig)\<lparr>sec_PubkeyLock := lock\<rparr>\<rparr>)"

text \<open>A stand-in for YAML that stores only the public key.\<close>

definition demo_yaml :: "string \<Rightarrow> yaml_codec" where
  "demo_yaml lock = \<lparr>yaml_Decode = (\<lambda>b. Inr (set_key (str_of b) (demo_config lock))),
     yaml_Marshal = (\<lambda>c. Inr (bytes_of (recv_PublicKey (cfg_Receiver c))))\<rparr>"

definition demo_disk :: "string \<Rightarrow> (fs_op \<Rightarrow> path \<Rightarrow> fault) \<Rightarrow> os" where
  "demo_disk lock f = demo_os
     \<lparr>os_root := Dir [(''config'', Dir [(''kakekomi.yaml'', File (bytes_of ''p0'')),
          (''pubkey.lock'', File (bytes_of (PubkeyFingerprint ''p0'' @ [CHR 0x0A])))]),
        (''lock'', File (bytes_of (PubkeyFingerprint ''p0'' @ [CHR 0x0A])))],
      os_fault := f\<rparr>"

lemma set_key_twice [simp]: "set_key a (set_key b c) = set_key a c"
  by (simp add: set_key_def)

lemma demo_yaml_keeps: "yaml_keeps (demo_yaml lock) (set_key pub (demo_config lock))"
  by (simp add: yaml_keeps_def demo_yaml_def demo_config_def)

lemma demo_config_ok: "config_ok (demo_config lock)"
  using default_ok [of "recv_PublicKey_update (\<lambda>_. ''p0'') (cfg_Receiver DefaultConfig)" "cfg_Tor DefaultConfig"]
  by (simp add: config_ok_def demo_config_def set_key_def DefaultConfig_def)

lemma demo_config_key [simp]: "set_key ''p0'' (demo_config lock) = demo_config lock"
  "recv_PublicKey (cfg_Receiver (demo_config lock)) = ''p0''"
  by (simp_all add: demo_config_def)

lemma demo_dir: "config_dir_ok []"
  by (simp add: config_dir_ok_def)

lemma demo_lock_paths: "lockPath (demo_config []) [] = [''config'', ''pubkey.lock'']"
  "lockPath (demo_config ''lock'') [] = [''lock'']"
  by (simp_all add: lockPath_def demo_config_def set_key_def config_paths [OF demo_dir] os_path_def
      clean_comps_def slash_def)

lemma demo_loads:
  assumes "lock = [] \<or> lock = ''lock''" and "\<forall>p. f OpRead p = NoFault"
  shows "LoadConfig (demo_yaml lock) [] (demo_disk lock f) = Inr (demo_config lock)"
  using assms demo_config_ok [of lock]
  by (auto simp: LoadConfig_ok ReadFile_iff demo_disk_def demo_os_def config_paths [OF demo_dir]
      demo_lock_paths rd_def demo_yaml_def Trim_line)

lemma demo_age_key: "GenerateAgeKey demo_prims (demo_disk lock f)
    = (Inr (age_Keypair demo_prims (take 32 (replicate 400 7))),
       (demo_disk lock f)\<lparr>os_rng := drop 32 (replicate 400 7)\<rparr>)"
  by (simp add: GenerateAgeKey_def readRandom_def demo_disk_def demo_os_def
      del: take_replicate drop_replicate)

lemma demo_rotate:
  assumes "lock = [] \<or> lock = ''lock''" and "\<forall>o' p. f o' p = NoFault"
  obtains pub sec w' where "RotateKey demo_prims (demo_yaml lock) [] (demo_disk lock f) = (Inr (pub, sec), w')"
proof -
  obtain pub sec where k: "age_Keypair demo_prims (take 32 (replicate 400 7)) = (pub, sec)" by fastforce
  have l: "LoadConfig (demo_yaml lock) [] (demo_disk lock f) = Inr (demo_config lock)"
    using assms by (intro demo_loads) auto
  have "\<exists>w'. RotateKey demo_prims (demo_yaml lock) [] (demo_disk lock f) = (Inr (pub, sec), w')"
    using assms(2) unfolding RotateKey_def l demo_age_key k sum.case prod.case
    by (simp add: archive_old_def os_ReadFile_def os_WriteFile_def
        writePubkeyLock_eq config_paths [OF demo_dir] demo_yaml_def demo_disk_def demo_os_def
        wr_def is_dir_def Let_def less_char_def)
  with that show ?thesis by blast
qed

theorem RotateKey_reloads_witness:
  "\<exists>pub sec w'. RotateKey demo_prims (demo_yaml []) [] (demo_disk [] (\<lambda>_ _. NoFault)) = (Inr (pub, sec), w')
     \<and> LoadConfig (demo_yaml []) [] w' = Inr (set_key pub (demo_config []))"
proof -
  obtain pub sec w' where
    r: "RotateKey demo_prims (demo_yaml []) [] (demo_disk [] (\<lambda>_ _. NoFault)) = (Inr (pub, sec), w')"
    using demo_rotate [of "[]" "\<lambda>_ _. NoFault"] by auto
  have l: "LoadConfig (demo_yaml []) [] (demo_disk [] (\<lambda>_ _. NoFault)) = Inr (demo_config [])"
    by (rule demo_loads) auto
  have "sec_PubkeyLock (cfg_Security (demo_config [])) = []" by (simp add: demo_config_def set_key_def)
  with RotateKey_reloads [OF demo_age demo_dir l _ _ r] demo_yaml_keeps r show ?thesis by blast
qed

theorem RotateKey_custom_lock_witness:
  "\<exists>pub sec w'. RotateKey demo_prims (demo_yaml ''lock'') [] (demo_disk ''lock'' (\<lambda>_ _. NoFault)) = (Inr (pub, sec), w')
     \<and> (PubkeyFingerprint pub \<noteq> PubkeyFingerprint ''p0'' \<longrightarrow>
          LoadConfig (demo_yaml ''lock'') [] w' = Inl errLockMismatch)"
proof -
  obtain pub sec w' where
    r: "RotateKey demo_prims (demo_yaml ''lock'') [] (demo_disk ''lock'' (\<lambda>_ _. NoFault)) = (Inr (pub, sec), w')"
    using demo_rotate [of "''lock''" "\<lambda>_ _. NoFault"] by auto
  have l: "LoadConfig (demo_yaml ''lock'') [] (demo_disk ''lock'' (\<lambda>_ _. NoFault)) = Inr (demo_config ''lock'')"
    by (rule demo_loads) auto
  have "lockPath (demo_config ''lock'') [] \<notin> {configPath [], pubkeyLockPath [], receiverPubPath [],
      archivePath [] (os_now (demo_disk ''lock'' (\<lambda>_ _. NoFault)))}"
    by (simp add: demo_lock_paths config_paths [OF demo_dir])
  with RotateKey_custom_lock [OF demo_age demo_dir l _ _ r] demo_yaml_keeps r show ?thesis by auto
qed

definition config_refused :: "fs_op \<Rightarrow> path \<Rightarrow> fault" where
  "config_refused o' p = (if o' = OpWrite \<and> p = configPath [] then Refused else NoFault)"

theorem RotateKey_fails_closed_witness:
  "\<exists>e w' c. RotateKey demo_prims (demo_yaml []) [] (demo_disk [] config_refused) = (Inl e, w')
     \<and> LoadConfig (demo_yaml []) [] w' = Inr c
     \<and> PubkeyFingerprint (recv_PublicKey (cfg_Receiver c)) = PubkeyFingerprint ''p0''"
proof -
  let ?w = "demo_disk [] config_refused"
  obtain pub sec where k: "age_Keypair demo_prims (take 32 (replicate 400 7)) = (pub, sec)" by fastforce
  have l: "LoadConfig (demo_yaml []) [] ?w = Inr (demo_config [])"
    by (rule demo_loads) (auto simp: config_refused_def)
  have r: "RotateKey demo_prims (demo_yaml []) [] ?w = (Inl (ErrIO ''write''), ?w\<lparr>os_rng := drop 32 (replicate 400 7)\<rparr>)"
    unfolding RotateKey_def l demo_age_key k sum.case prod.case
    by (simp add: archive_old_def os_ReadFile_def os_WriteFile_def
        config_paths [OF demo_dir] demo_yaml_def demo_disk_def demo_os_def config_refused_def Let_def
        del: drop_replicate)
  have l': "LoadConfig (demo_yaml []) [] (?w\<lparr>os_rng := drop 32 (replicate 400 7)\<rparr>) = Inr (demo_config [])"
    using l by (simp add: LoadConfig_ok ReadFile_iff del: drop_replicate)
  have nd: "lockPath (demo_config []) [] \<noteq> receiverPubPath []" "lockPath (demo_config []) [] \<noteq> configPath []"
    "lockPath (demo_config []) [] \<noteq> archivePath [] (os_now ?w)"
    by (simp_all add: demo_lock_paths config_paths [OF demo_dir])
  have ns: "\<forall>p k. os_fault ?w OpWrite p \<noteq> Short k" by (simp add: demo_disk_def config_refused_def)
  show ?thesis
    using RotateKey_fails_closed [OF demo_dir l _ nd ns r l'] demo_yaml_keeps r l' by auto
qed

end
