(* ===== verification/Secrets_File.thy ===== *)
theory Secrets_File
  imports Json Rotate
begin

text \<open>
  \<open>internal/kakekomi/secrets.go\<close>: the receiver's runtime keys, the password check, and their
  encrypted file.  The JSON form is written and parsed as \<open>encoding/json\<close> does.  The calls of
  \<open>zero\<close> clear local buffers and leave no trace in the model; \<open>SecureBuffer\<close> is not called.
\<close>

record secrets =
  sx_MasterSalt :: bytes
  sx_AdminPasswordHash :: bytes
  sx_AdminPasswordSalt :: bytes
  sx_TOTPSecret :: string
  sx_TOTPSecretDuress :: string
  sx_CSRFKey :: bytes
  sx_SessionMACKey :: bytes
  sx_LookupKey :: bytes

definition empty_secrets :: secrets where
  "empty_secrets = \<lparr>sx_MasterSalt = [], sx_AdminPasswordHash = [], sx_AdminPasswordSalt = [],
     sx_TOTPSecret = [], sx_TOTPSecretDuress = [], sx_CSRFKey = [], sx_SessionMACKey = [],
     sx_LookupKey = []\<rparr>"

section \<open>JSON form\<close>

definition secrets_members :: "secrets \<Rightarrow> (string \<times> string) list" where
  "secrets_members s =
     [(''master_salt'', base64_Encode (sx_MasterSalt s)),
      (''admin_password_hash'', base64_Encode (sx_AdminPasswordHash s)),
      (''admin_password_salt'', base64_Encode (sx_AdminPasswordSalt s)),
      (''totp_secret'', sx_TOTPSecret s),
      (''totp_secret_duress'', sx_TOTPSecretDuress s),
      (''csrf_key'', base64_Encode (sx_CSRFKey s)),
      (''session_mac_key'', base64_Encode (sx_SessionMACKey s)),
      (''lookup_key'', base64_Encode (sx_LookupKey s))]"

definition Marshal_secrets :: "secrets \<Rightarrow> bytes" where
  "Marshal_secrets s = bytes_of (json_object (secrets_members s))"

definition json_byte :: "json \<Rightarrow> byte option" where
  "json_byte v = (case v of
     JNum t \<Rightarrow> if list_all digit_char t \<and> foldl (\<lambda>n c. 10 * n + (ordc c - 48)) 0 t < 256
                then Some (of_nat (foldl (\<lambda>n c. 10 * n + (ordc c - 48)) 0 t)) else None
   | JNull \<Rightarrow> Some 0
   | _ \<Rightarrow> None)"

definition json_bytes :: "json \<Rightarrow> bytes option" where
  "json_bytes v = (case v of
     JNull \<Rightarrow> Some []
   | JStr t \<Rightarrow> base64_Decode t
   | JArr vs \<Rightarrow> those (map json_byte vs)
   | _ \<Rightarrow> None)"

definition json_text :: "string \<Rightarrow> json \<Rightarrow> string option" where
  "json_text old v = (case v of JNull \<Rightarrow> Some old | JStr t \<Rightarrow> Some t | _ \<Rightarrow> None)"

text \<open>One member of the object: keys match the struct tags without regard to case, unknown keys
  are ignored.\<close>

definition unmarshal_member :: "string \<times> json \<Rightarrow> secrets \<Rightarrow> secrets option" where
  "unmarshal_member kv s = (case kv of (k0, v) \<Rightarrow>
     (let k = str_ToLower k0 in
      if k = ''master_salt'' then map_option (\<lambda>b. s\<lparr>sx_MasterSalt := b\<rparr>) (json_bytes v)
      else if k = ''admin_password_hash'' then map_option (\<lambda>b. s\<lparr>sx_AdminPasswordHash := b\<rparr>) (json_bytes v)
      else if k = ''admin_password_salt'' then map_option (\<lambda>b. s\<lparr>sx_AdminPasswordSalt := b\<rparr>) (json_bytes v)
      else if k = ''totp_secret'' then map_option (\<lambda>b. s\<lparr>sx_TOTPSecret := b\<rparr>) (json_text (sx_TOTPSecret s) v)
      else if k = ''totp_secret_duress''
        then map_option (\<lambda>b. s\<lparr>sx_TOTPSecretDuress := b\<rparr>) (json_text (sx_TOTPSecretDuress s) v)
      else if k = ''csrf_key'' then map_option (\<lambda>b. s\<lparr>sx_CSRFKey := b\<rparr>) (json_bytes v)
      else if k = ''session_mac_key'' then map_option (\<lambda>b. s\<lparr>sx_SessionMACKey := b\<rparr>) (json_bytes v)
      else if k = ''lookup_key'' then map_option (\<lambda>b. s\<lparr>sx_LookupKey := b\<rparr>) (json_bytes v)
      else Some s))"

fun unmarshal_members :: "(string \<times> json) list \<Rightarrow> secrets \<Rightarrow> secrets option" where
  "unmarshal_members [] s = Some s"
| "unmarshal_members (m # ms) s =
     (case unmarshal_member m s of None \<Rightarrow> None | Some s' \<Rightarrow> unmarshal_members ms s')"

definition Unmarshal_secrets :: "bytes \<Rightarrow> error + secrets" where
  "Unmarshal_secrets b =
     (case json_Parse (str_of b) of
        Some (JObj ms) \<Rightarrow>
          (case unmarshal_members ms empty_secrets of
             None \<Rightarrow> Inl (Err ''json: cannot unmarshal'')
           | Some s \<Rightarrow> Inr s)
      | Some JNull \<Rightarrow> Inr empty_secrets
      | _ \<Rightarrow> Inl (Err ''json: cannot unmarshal''))"

section \<open>Operations\<close>

definition secretsPath :: "path \<Rightarrow> path" where
  "secretsPath dataDir = join_comps dataDir [''config'', ''secrets.age'']"

definition saltPath :: "path \<Rightarrow> path" where
  "saltPath dataDir = join_comps dataDir [''config'', ''secrets.salt'']"

definition randomBytes :: "nat \<Rightarrow> 'a os_scheme \<Rightarrow> (error + bytes) \<times> 'a os_scheme" where
  "randomBytes n w = (case readRandom n w of (Inl e, w1) \<Rightarrow> (Inl e, w1) | (Inr b, w1) \<Rightarrow> (Inr b, w1))"

lemma randomBytes_eq [simp]: "randomBytes n w = readRandom n w"
  by (simp add: randomBytes_def split: prod.split sum.split)

definition NewSecrets :: "'a os_scheme \<Rightarrow> (error + secrets) \<times> 'a os_scheme" where
  "NewSecrets w =
     (case randomBytes 16 w of (Inl e, w1) \<Rightarrow> (Inl e, w1) | (Inr masterSalt, w1) \<Rightarrow>
      (case randomBytes 16 w1 of (Inl e, w2) \<Rightarrow> (Inl e, w2) | (Inr pwSalt, w2) \<Rightarrow>
      (case randomBytes 32 w2 of (Inl e, w3) \<Rightarrow> (Inl e, w3) | (Inr csrf, w3) \<Rightarrow>
      (case randomBytes 32 w3 of (Inl e, w4) \<Rightarrow> (Inl e, w4) | (Inr mac, w4) \<Rightarrow>
      (case randomBytes 32 w4 of (Inl e, w5) \<Rightarrow> (Inl e, w5) | (Inr lookup, w5) \<Rightarrow>
         (Inr (empty_secrets\<lparr>sx_MasterSalt := masterSalt, sx_AdminPasswordSalt := pwSalt,
                 sx_CSRFKey := csrf, sx_SessionMACKey := mac, sx_LookupKey := lookup\<rparr>), w5))))))"

definition SetAdminPassword :: "prims \<Rightarrow> string \<Rightarrow> secrets \<Rightarrow> secrets" where
  "SetAdminPassword P pw s =
     s\<lparr>sx_AdminPasswordHash := argon2_IDKey P (bytes_of pw) (sx_AdminPasswordSalt s) 2 (64 * 1024) 2 32\<rparr>"

definition CheckAdminPassword :: "prims \<Rightarrow> secrets \<Rightarrow> string \<Rightarrow> bool" where
  "CheckAdminPassword P s pw =
     (let got = argon2_IDKey P (bytes_of pw) (sx_AdminPasswordSalt s) 2 (64 * 1024) 2 32
      in ConstantTimeCompare got (sx_AdminPasswordHash s) = 1)"

definition SaveSecrets :: "prims \<Rightarrow> path \<Rightarrow> string \<Rightarrow> secrets \<Rightarrow> 'a os_scheme
    \<Rightarrow> error option \<times> 'a os_scheme" where
  "SaveSecrets P dataDir passphrase s w =
     (let body = Marshal_secrets s;
          master = DeriveMasterKey P passphrase (sx_MasterSalt s)
      in case EncryptSymmetric P master body w of
           (Inl e, w1) \<Rightarrow> (Some e, w1)
         | (Inr blob, w1) \<Rightarrow>
             (case os_MkdirAll (butlast (secretsPath dataDir)) w1 of
                (Some e, w2) \<Rightarrow> (Some e, w2)
              | (None, w2) \<Rightarrow>
                  (case os_WriteFile (secretsPath dataDir) blob w2 of
                     (Some e, w3) \<Rightarrow> (Some e, w3)
                   | (None, w3) \<Rightarrow> os_WriteFile (saltPath dataDir) (sx_MasterSalt s) w3)))"

definition errSecretsDecrypt :: error where
  "errSecretsDecrypt = Err (''secrets decrypt failed '' @ utf8 [0xE2, 0x80, 0x94]
     @ '' wrong passphrase or corrupted secrets.age'')"

definition LoadSecrets :: "prims \<Rightarrow> path \<Rightarrow> string \<Rightarrow> 'a os_scheme \<Rightarrow> error + secrets" where
  "LoadSecrets P dataDir passphrase w =
     (case os_ReadFile (saltPath dataDir) w of
        Inl e \<Rightarrow> Inl (Wrap ''read salt'' e)
      | Inr salt \<Rightarrow>
          (case os_ReadFile (secretsPath dataDir) w of
             Inl e \<Rightarrow> Inl (Wrap ''read secrets.age'' e)
           | Inr blob \<Rightarrow>
               (let master = DeriveMasterKey P passphrase salt in
                case DecryptSymmetric P master blob of
                  Inl e \<Rightarrow> Inl errSecretsDecrypt
                | Inr body \<Rightarrow>
                    (case Unmarshal_secrets body of
                       Inl e \<Rightarrow> Inl (Wrap ''parse secrets'' e)
                     | Inr s \<Rightarrow> Inr s))))"

section \<open>Properties\<close>

definition plain_totp :: "secrets \<Rightarrow> bool" where
  "plain_totp s \<longleftrightarrow> list_all json_plain (sx_TOTPSecret s) \<and> list_all json_plain (sx_TOTPSecretDuress s)"

lemma key_plain: "list_all json_plain ''master_salt''" "list_all json_plain ''admin_password_hash''"
  "list_all json_plain ''admin_password_salt''" "list_all json_plain ''totp_secret''"
  "list_all json_plain ''totp_secret_duress''" "list_all json_plain ''csrf_key''"
  "list_all json_plain ''session_mac_key''" "list_all json_plain ''lookup_key''"
  by (simp_all add: json_plain_def ordc_def)

lemma base64_plain: "list_all json_plain (base64_Encode b)"
  by (simp add: list_all_set base64_chars)

lemma secrets_plain: "plain_totp s \<Longrightarrow> plain_members (secrets_members s)"
  using key_plain base64_plain by (simp add: plain_members_def secrets_members_def plain_totp_def list_all_set)

lemma key_lower: "str_ToLower ''master_salt'' = ''master_salt''" "str_ToLower ''admin_password_hash'' = ''admin_password_hash''"
  "str_ToLower ''admin_password_salt'' = ''admin_password_salt''" "str_ToLower ''totp_secret'' = ''totp_secret''"
  "str_ToLower ''totp_secret_duress'' = ''totp_secret_duress''" "str_ToLower ''csrf_key'' = ''csrf_key''"
  "str_ToLower ''session_mac_key'' = ''session_mac_key''" "str_ToLower ''lookup_key'' = ''lookup_key''"
  by (simp_all add: str_ToLower_def ascii_lower_def ordc_def)

lemma unmarshal_marshal:
  "plain_totp s \<Longrightarrow> Unmarshal_secrets (Marshal_secrets s) = Inr s"
proof -
  assume "plain_totp s"
  then have "json_Parse (json_object (secrets_members s)) = Some (JObj (map (\<lambda>(k, v). (k, JStr v)) (secrets_members s)))"
    by (intro json_Parse_object secrets_plain) (simp_all add: secrets_members_def)
  moreover have "unmarshal_members (map (\<lambda>(k, v). (k, JStr v)) (secrets_members s)) empty_secrets = Some s"
    by (simp add: secrets_members_def unmarshal_member_def key_lower json_bytes_def json_text_def empty_secrets_def)
  ultimately show ?thesis by (simp add: Unmarshal_secrets_def Marshal_secrets_def)
qed

lemma CheckAdminPassword_Set:
  "CheckAdminPassword P (SetAdminPassword P pw s) pw' \<longleftrightarrow>
     argon2_IDKey P (bytes_of pw') (sx_AdminPasswordSalt s) 2 65536 2 32
     = argon2_IDKey P (bytes_of pw) (sx_AdminPasswordSalt s) 2 65536 2 32"
  by (simp add: CheckAdminPassword_def SetAdminPassword_def Let_def ConstantTimeCompare_eq)

lemma secrets_paths:
  assumes "config_dir_ok d"
  shows "secretsPath d = d @ [''config'', ''secrets.age'']" "saltPath d = d @ [''config'', ''secrets.salt'']"
  using assms by (simp_all add: secretsPath_def saltPath_def config_dir_ok_def join_comps_plain plain_comp_def slash_def)

lemma writes_Mkdir: "os_MkdirAll p w = (r, w') \<Longrightarrow> writes {} w w'"
  by (auto simp: os_MkdirAll_def writes_def rd_mkdirs split: if_splits option.splits)

lemma writes_Encrypt: "EncryptSymmetric P k pt w = (r, w') \<Longrightarrow> writes {} w w'"
  by (auto simp: EncryptSymmetric_def readRandom_def writes_def Let_def split: if_splits prod.splits sum.splits)

lemma SaveSecrets_files:
  assumes "SaveSecrets P d pw s w = (None, w')" and "config_dir_ok d"
  shows "\<exists>blob w1. EncryptSymmetric P (DeriveMasterKey P pw (sx_MasterSalt s)) (Marshal_secrets s) w = (Inr blob, w1)
     \<and> rd (os_root w') (secretsPath d) = Some blob \<and> rd (os_root w') (saltPath d) = Some (sx_MasterSalt s)
     \<and> writes {secretsPath d, saltPath d} w w'"
proof -
  obtain blob w1 w2 w3 where
    e: "EncryptSymmetric P (DeriveMasterKey P pw (sx_MasterSalt s)) (Marshal_secrets s) w = (Inr blob, w1)"
    and m: "os_MkdirAll (butlast (secretsPath d)) w1 = (None, w2)"
    and b: "os_WriteFile (secretsPath d) blob w2 = (None, w3)"
    and t: "os_WriteFile (saltPath d) (sx_MasterSalt s) w3 = (None, w')"
    using assms(1) by (auto simp: SaveSecrets_def Let_def split: prod.splits sum.splits option.splits)
  have "secretsPath d \<noteq> saltPath d" by (simp add: secrets_paths [OF assms(2)])
  then have "rd (os_root w') (secretsPath d) = Some blob"
    using WriteFile_read [OF b] writes_rd [OF writes_WriteFile [OF t], of "secretsPath d"] by simp
  moreover have "writes {secretsPath d, saltPath d} w w'"
    using writes_trans [OF writes_trans [OF writes_Encrypt [OF e] writes_Mkdir [OF m]]
        writes_trans [OF writes_WriteFile [OF b] writes_WriteFile [OF t]]] by (simp add: insert_commute)
  ultimately show ?thesis using e WriteFile_read [OF t] by blast
qed

lemma save_load:
  assumes "aead_correct P" and "plain_totp s"
    and "EncryptSymmetric P (DeriveMasterKey P pw (sx_MasterSalt s)) (Marshal_secrets s) w0 = (Inr blob, w1)"
    and "rd (os_root w') (secretsPath d) = Some blob" and "rd (os_root w') (saltPath d) = Some (sx_MasterSalt s)"
    and "os_fault w' OpRead (secretsPath d) = NoFault" and "os_fault w' OpRead (saltPath d) = NoFault"
  shows "LoadSecrets P d pw w' = Inr s"
  using assms(4-7) symmetric_opens [OF assms(1,3)] unmarshal_marshal [OF assms(2)]
  by (auto simp: LoadSecrets_def os_ReadFile_def rd_def Let_def split: option.splits node.splits)

text \<open>Secrets that were saved under a passphrase load again, under that passphrase, as they
  were, through encryption, JSON and base64; nothing but the two secrets files is written.\<close>

lemma secrets_roundtrip:
  assumes "aead_correct P" and "config_dir_ok d" and "plain_totp s"
    and "SaveSecrets P d pw s w = (None, w')"
    and "os_fault w OpRead (secretsPath d) = NoFault" and "os_fault w OpRead (saltPath d) = NoFault"
  shows "LoadSecrets P d pw w' = Inr s
     \<and> (\<forall>q. q \<noteq> secretsPath d \<longrightarrow> q \<noteq> saltPath d \<longrightarrow> rd (os_root w') q = rd (os_root w) q)"
proof -
  from SaveSecrets_files [OF assms(4,2)] obtain blob w1 where
    f: "EncryptSymmetric P (DeriveMasterKey P pw (sx_MasterSalt s)) (Marshal_secrets s) w = (Inr blob, w1)"
      "rd (os_root w') (secretsPath d) = Some blob" "rd (os_root w') (saltPath d) = Some (sx_MasterSalt s)"
      "writes {secretsPath d, saltPath d} w w'" by blast
  have "os_fault w' = os_fault w" using f(4) by (simp add: writes_def)
  with save_load [OF assms(1,3) f(1-3)] assms(5,6) f(4) show ?thesis by (simp add: writes_def)
qed

definition demo_secrets :: secrets where
  "demo_secrets = empty_secrets\<lparr>sx_MasterSalt := [1, 2], sx_TOTPSecret := ''ABC'', sx_CSRFKey := [3]\<rparr>"

lemma demo_saves:
  "\<exists>w'. SaveSecrets demo_prims [] ''pw'' demo_secrets (demo_disk [] (\<lambda>_ _. NoFault)) = (None, w')"
proof -
  let ?w = "demo_disk [] (\<lambda>_ _. NoFault)" and ?k = "DeriveMasterKey demo_prims ''pw'' (sx_MasterSalt demo_secrets)"
  have "length ?k = 32" using demo_argon2 by (simp add: DeriveMasterKey_def argon2_sized_def)
  then obtain blob where
    e: "EncryptSymmetric demo_prims ?k (Marshal_secrets demo_secrets) ?w = (Inr blob, ?w\<lparr>os_rng := drop 24 (replicate 400 7)\<rparr>)"
    by (simp add: EncryptSymmetric_def readRandom_def demo_disk_def demo_os_def Let_def del: drop_replicate)
  show ?thesis
    unfolding SaveSecrets_def Let_def e sum.case prod.case
    by (simp add: os_MkdirAll_def os_WriteFile_def secrets_paths [OF demo_dir] demo_disk_def demo_os_def
        wr_def is_dir_def less_char_def del: drop_replicate)
qed

end
