(* ===== verification/Init_Cmd.thy ===== *)
theory Init_Cmd
  imports Secrets_File
begin

text \<open>
  \<open>internal/kakekomi/init.go\<close>: the prompts read from standard input and the \<open>init\<close> command.
  Standard input is the string still to be read; \<open>Inl ErrEOF\<close> is what \<open>ReadString\<close> reports when
  the input ends before a line break.  The one-time disclosure on the terminal is the result of
  \<open>init\<close>.
\<close>

section \<open>Prompts\<close>

definition newline :: char where "newline = CHR 0x0A"

definition ReadString :: "string \<Rightarrow> (string \<times> error option) \<times> string" where
  "ReadString inp =
     (if newline \<in> set inp
      then ((takeWhile (\<lambda>c. c \<noteq> newline) inp @ [newline], None), tl (dropWhile (\<lambda>c. c \<noteq> newline) inp))
      else ((inp, Some ErrEOF), []))"

definition promptOnce :: "string \<Rightarrow> (error + string) \<times> string" where
  "promptOnce inp =
     (case ReadString inp of
        ((line, Some e), rest) \<Rightarrow> (Inl e, rest)
      | ((line, None), rest) \<Rightarrow> (Inr (TrimRight line [CHR 0x0D, CHR 0x0A]), rest))"

lemma promptOnce_shorter: "promptOnce inp = (Inr l, rest) \<Longrightarrow> length rest < length inp"
proof -
  assume p: "promptOnce inp = (Inr l, rest)"
  then have n: "newline \<in> set inp" and r: "rest = tl (dropWhile (\<lambda>c. c \<noteq> newline) inp)"
    by (auto simp: promptOnce_def ReadString_def split: if_splits)
  from n have "dropWhile (\<lambda>c. c \<noteq> newline) inp \<noteq> []" by (simp add: dropWhile_eq_Nil_conv)
  moreover have "length (dropWhile (\<lambda>c. c \<noteq> newline) inp) \<le> length inp" by (rule length_dropWhile_le)
  ultimately show ?thesis using r by (cases "dropWhile (\<lambda>c. c \<noteq> newline) inp") auto
qed

function promptPassphrase :: "string \<Rightarrow> (error + string) \<times> string" where
  "promptPassphrase inp =
     (case promptOnce inp of
        (Inl e, r1) \<Rightarrow> (Inl e, r1)
      | (Inr p1, r1) \<Rightarrow>
          (if length p1 < 12 then promptPassphrase r1
           else case promptOnce r1 of
             (Inl e, r2) \<Rightarrow> (Inl e, r2)
           | (Inr p2, r2) \<Rightarrow> if p1 \<noteq> p2 then promptPassphrase r2 else (Inr p1, r2)))"
  by pat_completeness auto
termination
  by (relation "measure length") (auto dest!: promptOnce_shorter [OF sym])

declare promptPassphrase.simps [simp del]

section \<open>The command\<close>

record init_output =
  io_Pub :: string
  io_Sec :: string
  io_TOTP :: string
  io_TOTPDuress :: string

definition totp_Generate :: "prims \<Rightarrow> 'a os_scheme \<Rightarrow> (error + string) \<times> 'a os_scheme" where
  "totp_Generate P w = (case readRandom 20 w of (Inl e, w1) \<Rightarrow> (Inl e, w1)
     | (Inr seed, w1) \<Rightarrow> (Inr (totp_Secret P seed), w1))"

definition init_config :: "string \<Rightarrow> bool \<Rightarrow> config" where
  "init_config pub enableTor =
     (set_key pub DefaultConfig)\<lparr>cfg_Tor := (cfg_Tor DefaultConfig)\<lparr>tor_Enabled := enableTor\<rparr>\<rparr>"

text \<open>Step 6 of the source: the files, in the order in which they are written.\<close>

definition init_persist :: "prims \<Rightarrow> yaml_codec \<Rightarrow> path \<Rightarrow> config \<Rightarrow> string \<Rightarrow> string \<Rightarrow> secrets
    \<Rightarrow> 'a os_scheme \<Rightarrow> error option \<times> 'a os_scheme" where
  "init_persist P Y dataDir c pub passphrase secrets w =
     (let cfgDir = join_comps dataDir [''config''] in
      case yaml_Marshal Y c of
        Inl e \<Rightarrow> (Some e, w)
      | Inr out \<Rightarrow>
          (case os_WriteFile (join_comps cfgDir [''kakekomi.yaml'']) out w of
             (Some e, w1) \<Rightarrow> (Some e, w1)
           | (None, w1) \<Rightarrow>
               (case os_WriteFile (join_comps cfgDir [''receiver.pub'']) (bytes_of (pub @ [newline])) w1 of
                  (Some e, w2) \<Rightarrow> (Some e, w2)
                | (None, w2) \<Rightarrow>
                    (case writePubkeyLock dataDir pub w2 of
                       (Some e, w3) \<Rightarrow> (Some e, w3)
                     | (None, w3) \<Rightarrow> SaveSecrets P dataDir passphrase secrets w3))))"

definition Init :: "prims \<Rightarrow> yaml_codec \<Rightarrow> path \<Rightarrow> bool \<Rightarrow> string \<Rightarrow> 'a os_scheme
    \<Rightarrow> (error + init_output) \<times> 'a os_scheme" where
  "Init P Y dataDir enableTor inp w =
     (let cfgDir = join_comps dataDir [''config'']; cfgPath = join_comps cfgDir [''kakekomi.yaml''] in
      case os_MkdirAll cfgDir w of
        (Some e, w1) \<Rightarrow> (Inl e, w1)
      | (None, w1) \<Rightarrow>
      (if os_exists cfgPath w1 then (Inl (Err ''config already exists''), w1)
       else case GenerateAgeKey P w1 of
        (Inl e, w2) \<Rightarrow> (Inl (Wrap ''generate age key'' e), w2)
      | (Inr (pub, sec), w2) \<Rightarrow>
      (case promptPassphrase inp of
        (Inl e, inp1) \<Rightarrow> (Inl e, w2)
      | (Inr passphrase, inp1) \<Rightarrow>
      (case promptOnce inp1 of
        (Inl e, inp2) \<Rightarrow> (Inl e, w2)
      | (Inr adminPassword, inp2) \<Rightarrow>
      (if length adminPassword < 12
       then (Inl (Err ''admin password must be at least 12 chars''), w2)
       else case totp_Generate P w2 of
        (Inl e, w3) \<Rightarrow> (Inl e, w3)
      | (Inr totpKey, w3) \<Rightarrow>
      (case totp_Generate P w3 of
        (Inl e, w4) \<Rightarrow> (Inl e, w4)
      | (Inr totpDuressKey, w4) \<Rightarrow>
      (case NewSecrets w4 of
        (Inl e, w5) \<Rightarrow> (Inl e, w5)
      | (Inr s0, w5) \<Rightarrow>
          (let secrets = SetAdminPassword P adminPassword
                 (s0\<lparr>sx_TOTPSecret := totpKey, sx_TOTPSecretDuress := totpDuressKey\<rparr>)
           in case init_persist P Y dataDir (init_config pub enableTor) pub passphrase secrets w5 of
                (Some e, w6) \<Rightarrow> (Inl e, w6)
              | (None, w6) \<Rightarrow>
                  (Inr \<lparr>io_Pub = pub, io_Sec = sec, io_TOTP = totpKey, io_TOTPDuress = totpDuressKey\<rparr>,
                   w6)))))))))"

section \<open>Properties\<close>

text \<open>A passphrase is only returned when two consecutive lines of the input agree on it and it has
  at least twelve bytes.\<close>

lemma promptPassphrase_sound:
  "promptPassphrase inp = (Inr p, rest) \<Longrightarrow>
     12 \<le> length p \<and> (\<exists>r0 r1. promptOnce r0 = (Inr p, r1) \<and> promptOnce r1 = (Inr p, rest))"
proof (induction inp rule: promptPassphrase.induct)
  case (1 inp)
  note run = 1(3) [unfolded promptPassphrase.simps [of inp]]
  obtain x1 r1 where x1: "promptOnce inp = (x1, r1)" by fastforce
  obtain p1 where p1: "x1 = Inr p1" using run x1 by (cases x1) auto
  show ?case
  proof (cases "length p1 < 12")
    case True
    with run x1 p1 have "promptPassphrase r1 = (Inr p, rest)" by simp
    with 1(1) [OF x1 [symmetric] p1 True] show ?thesis by simp
  next
    case False
    obtain x2 r2 where x2: "promptOnce r1 = (x2, r2)" by fastforce
    obtain p2 where p2: "x2 = Inr p2" using run x1 p1 False x2 by (cases x2) auto
    show ?thesis
    proof (cases "p1 = p2")
      case True
      with run x1 p1 False x2 p2 have "p = p1" "rest = r2" by simp_all
      with x1 p1 x2 p2 True False show ?thesis by auto
    next
      case ne: False
      with run x1 p1 False x2 p2 have "promptPassphrase r2 = (Inr p, rest)" by simp
      with 1(2) [OF x1 [symmetric] p1 False x2 [symmetric] p2] ne show ?thesis by simp
    qed
  qed
qed

definition totp_plain :: "prims \<Rightarrow> bool" where
  "totp_plain P \<longleftrightarrow> (\<forall>seed. list_all json_plain (totp_Secret P seed))"

lemma NewSecrets_totp: "NewSecrets w = (Inr s, w') \<Longrightarrow> writes {} w w'"
  by (auto simp: NewSecrets_def readRandom_def writes_def split: if_splits)

lemma totp_Generate_plain:
  "totp_plain P \<Longrightarrow> totp_Generate P w = (Inr k, w') \<Longrightarrow> list_all json_plain k"
  by (auto simp: totp_Generate_def totp_plain_def split: prod.splits sum.splits)

lemma totp_Generate_writes: "totp_Generate P w = (r, w') \<Longrightarrow> writes {} w w'"
  by (auto simp: totp_Generate_def readRandom_def writes_def split: if_splits)

lemma init_paths:
  assumes "config_dir_ok d"
  shows "join_comps (join_comps d [''config'']) [''kakekomi.yaml''] = configPath d"
    "join_comps (join_comps d [''config'']) [''receiver.pub''] = receiverPubPath d"
  using assms by (simp_all add: config_paths config_dir_ok_def join_comps_plain plain_comp_def slash_def)

lemma init_config_facts: "recv_PublicKey (cfg_Receiver (init_config pub t)) = pub"
  "sec_PubkeyLock (cfg_Security (init_config pub t)) = []" "pub \<noteq> [] \<Longrightarrow> config_ok (init_config pub t)"
  using default_ok [of "(cfg_Receiver DefaultConfig)\<lparr>recv_PublicKey := pub\<rparr>"
      "(cfg_Tor DefaultConfig)\<lparr>tor_Enabled := t\<rparr>"]
  by (simp_all add: init_config_def set_key_def DefaultConfig_def)


definition init_files :: "path \<Rightarrow> path set" where
  "init_files d = {configPath d, receiverPubPath d, pubkeyLockPath d, secretsPath d, saltPath d}"

lemma init_persist_done:
  fixes w :: "'a os_scheme"
  assumes "init_persist P Y d c pub pw s w = (None, w')" and "config_dir_ok d"
  shows "\<exists>out v blob v1. yaml_Marshal Y c = Inr out \<and> rd (os_root w') (configPath d) = Some out
     \<and> rd (os_root w') (pubkeyLockPath d) = Some (bytes_of (PubkeyFingerprint pub @ [CHR 0x0A]))
     \<and> EncryptSymmetric P (DeriveMasterKey P pw (sx_MasterSalt s)) (Marshal_secrets s) (v :: 'a os_scheme) = (Inr blob, v1)
     \<and> rd (os_root w') (secretsPath d) = Some blob \<and> rd (os_root w') (saltPath d) = Some (sx_MasterSalt s)
     \<and> writes (init_files d) w w'"
proof -
  obtain out w1 w2 w3 where out: "yaml_Marshal Y c = Inr out"
    and w1: "os_WriteFile (configPath d) out w = (None, w1)"
    and w2: "os_WriteFile (receiverPubPath d) (bytes_of (pub @ [newline])) w1 = (None, w2)"
    and w3: "os_WriteFile (pubkeyLockPath d) (bytes_of (PubkeyFingerprint pub @ [CHR 0x0A])) w2 = (None, w3)"
    and s: "SaveSecrets P d pw s w3 = (None, w')"
    using assms(1) by (auto simp: init_persist_def Let_def init_paths [OF assms(2)] writePubkeyLock_eq
        split: sum.splits prod.splits option.splits)
  from SaveSecrets_files [OF s assms(2)] obtain blob v1 where
    e: "EncryptSymmetric P (DeriveMasterKey P pw (sx_MasterSalt s)) (Marshal_secrets s) w3 = (Inr blob, v1)"
      "rd (os_root w') (secretsPath d) = Some blob" "rd (os_root w') (saltPath d) = Some (sx_MasterSalt s)"
      "writes {secretsPath d, saltPath d} w3 w'" by blast
  have ne: "configPath d \<notin> {secretsPath d, saltPath d}" "pubkeyLockPath d \<notin> {secretsPath d, saltPath d}"
    by (auto simp: config_paths [OF assms(2)] secrets_paths [OF assms(2)])
  note d = paths_differ [OF assms(2)]
  have "rd (os_root w') (configPath d) = Some out"
    using WriteFile_read [OF w1] writes_rd [OF writes_WriteFile [OF w2], of "configPath d"]
      writes_rd [OF writes_WriteFile [OF w3], of "configPath d"] writes_rd [OF e(4) ne(1)] d by simp
  moreover have "rd (os_root w') (pubkeyLockPath d) = Some (bytes_of (PubkeyFingerprint pub @ [CHR 0x0A]))"
    using WriteFile_read [OF w3] writes_rd [OF e(4) ne(2)] by simp
  moreover have "writes (init_files d) w w'"
    using writes_WriteFile [OF w1] writes_WriteFile [OF w2] writes_WriteFile [OF w3] e(4)
    by (simp add: writes_def init_files_def)
  ultimately show ?thesis using out e by blast
qed

lemma Init_steps:
  fixes w :: "'a os_scheme"
  assumes "Init P Y d t inp w = (Inr out, w')"
  shows "\<exists>seed pass inp1 adm inp2 s0 s w5. length seed = 32 \<and> age_Keypair P seed = (io_Pub out, io_Sec out)
     \<and> promptPassphrase inp = (Inr pass, inp1) \<and> promptOnce inp1 = (Inr adm, inp2) \<and> 12 \<le> length adm
     \<and> s = SetAdminPassword P adm (s0\<lparr>sx_TOTPSecret := io_TOTP out, sx_TOTPSecretDuress := io_TOTPDuress out\<rparr>)
     \<and> (totp_plain P \<longrightarrow> list_all json_plain (io_TOTP out) \<and> list_all json_plain (io_TOTPDuress out))
     \<and> writes {} w w5
     \<and> init_persist P Y d (init_config (io_Pub out) t) (io_Pub out) pass s (w5 :: 'a os_scheme) = (None, w')"
proof -
  obtain w1 w2 pub sec pass inp1 adm inp2 k1 w3 k2 w4 s0 w5 where
    m: "os_MkdirAll (join_comps d [''config'']) w = (None, w1)"
    and g: "GenerateAgeKey P w1 = (Inr (pub, sec), w2)"
    and p: "promptPassphrase inp = (Inr pass, inp1)" "promptOnce inp1 = (Inr adm, inp2)" "12 \<le> length adm"
    and t1: "totp_Generate P w2 = (Inr k1, w3)" and t2: "totp_Generate P w3 = (Inr k2, w4)"
    and n: "NewSecrets w4 = (Inr s0, w5)"
    and i: "init_persist P Y d (init_config pub t) pub pass
        (SetAdminPassword P adm (s0\<lparr>sx_TOTPSecret := k1, sx_TOTPSecretDuress := k2\<rparr>)) w5 = (None, w')"
    and o: "out = \<lparr>io_Pub = pub, io_Sec = sec, io_TOTP = k1, io_TOTPDuress = k2\<rparr>"
    using assms
    by (auto simp: Init_def Let_def not_less split: prod.splits sum.splits option.splits if_splits)
  obtain seed where seed: "length seed = 32" "age_Keypair P seed = (pub, sec)"
    using g that [of "take 32 (os_rng w1)"] by (auto simp: GenerateAgeKey_def readRandom_def split: if_splits)
  have "writes {} w w5"
    using writes_Mkdir [OF m] GenerateAgeKey_writes [OF g] totp_Generate_writes [OF t1]
      totp_Generate_writes [OF t2] NewSecrets_totp [OF n] by (simp add: writes_def)
  with seed p i o totp_Generate_plain [OF _ t1] totp_Generate_plain [OF _ t2] show ?thesis
    by (metis init_output.select_convs)
qed

text \<open>A successful \<open>init\<close> leaves a data directory from which the server starts: the default
  configuration with the new public key and the chosen Tor switch loads, and the passphrase that
  was entered twice, of at least twelve bytes, opens the secrets, which hold the printed TOTP
  secrets and accept the entered administrator password, of at least twelve bytes as well.  Only
  the five files of the installation are written.\<close>

lemma Init_loads:
  fixes w :: "'a os_scheme"
  assumes "aead_correct P" and "age_correct P" and "totp_plain P" and "config_dir_ok d"
    and "\<forall>pub t. yaml_keeps Y (init_config pub t)" and "\<forall>p. os_fault w OpRead p = NoFault"
    and "Init P Y d t inp w = (Inr out, w')"
  shows "LoadConfig Y d w' = Inr (init_config (io_Pub out) t)
     \<and> (\<exists>pass adm inp1 inp2 s. promptPassphrase inp = (Inr pass, inp1) \<and> promptOnce inp1 = (Inr adm, inp2)
          \<and> 12 \<le> length pass \<and> 12 \<le> length adm \<and> LoadSecrets P d pass w' = Inr s
          \<and> sx_TOTPSecret s = io_TOTP out \<and> sx_TOTPSecretDuress s = io_TOTPDuress out
          \<and> CheckAdminPassword P s adm)
     \<and> writes (init_files d) w w' \<and> rd (os_root w') (configPath d) \<noteq> None"
proof -
  from Init_steps [OF assms(7)] obtain seed pass inp1 adm inp2 s0 s
    and w5 :: "'a os_scheme" where
    seed: "length seed = 32" "age_Keypair P seed = (io_Pub out, io_Sec out)"
    and p: "promptPassphrase inp = (Inr pass, inp1)" "promptOnce inp1 = (Inr adm, inp2)" "12 \<le> length adm"
    and s: "s = SetAdminPassword P adm (s0\<lparr>sx_TOTPSecret := io_TOTP out, sx_TOTPSecretDuress := io_TOTPDuress out\<rparr>)"
    and plain: "list_all json_plain (io_TOTP out)" "list_all json_plain (io_TOTPDuress out)"
    and f: "writes {} w w5"
    and i: "init_persist P Y d (init_config (io_Pub out) t) (io_Pub out) pass s w5 = (None, w')"
    using assms(3) by blast
  from init_persist_done [OF i assms(4)] obtain c blob
    and v v1 :: "'a os_scheme" where
    c: "yaml_Marshal Y (init_config (io_Pub out) t) = Inr c" "rd (os_root w') (configPath d) = Some c"
      "rd (os_root w') (pubkeyLockPath d) = Some (bytes_of (PubkeyFingerprint (io_Pub out) @ [CHR 0x0A]))"
    and e: "EncryptSymmetric P (DeriveMasterKey P pass (sx_MasterSalt s)) (Marshal_secrets s) v = (Inr blob, v1)"
      "rd (os_root w') (secretsPath d) = Some blob" "rd (os_root w') (saltPath d) = Some (sx_MasterSalt s)"
    and f': "writes (init_files d) w5 w'" by blast
  have wr: "writes (init_files d) w w'" using writes_trans [OF f f'] by simp
  then have reads: "os_fault w' OpRead q = NoFault" for q using assms(6) by (simp add: writes_def)
  have "io_Pub out \<noteq> []" using assms(2) seed by (auto simp: age_correct_def)
  then have "LoadConfig Y d w' = Inr (init_config (io_Pub out) t)"
    using c reads yaml_keepsD [OF assms(5)[rule_format] c(1)]
    by (simp add: LoadConfig_ok ReadFile_iff init_config_facts lockPath_def Trim_line)
  moreover have "plain_totp s" using plain by (simp add: s plain_totp_def SetAdminPassword_def)
  then have "LoadSecrets P d pass w' = Inr s" by (rule save_load [OF assms(1) _ e reads reads])
  moreover have "CheckAdminPassword P s adm" by (simp add: s CheckAdminPassword_Set)
  moreover have "sx_TOTPSecret s = io_TOTP out" "sx_TOTPSecretDuress s = io_TOTPDuress out"
    by (simp_all add: s SetAdminPassword_def)
  ultimately show ?thesis using p promptPassphrase_sound [OF p(1)] wr c(2) by blast
qed

text \<open>\<open>init\<close> never touches an existing installation: where a configuration file exists and can
  be seen, it fails and no file changes.\<close>

lemma Init_refuses:
  assumes "config_dir_ok d" and "rd (os_root w) (configPath d) \<noteq> None"
    and "os_fault w OpStat (configPath d) = NoFault"
  shows "\<exists>e w'. Init P Y d t inp w = (Inl e, w') \<and> (\<forall>q. rd (os_root w') q = rd (os_root w) q)"
proof -
  obtain r w1 where m: "os_MkdirAll (join_comps d [''config'']) w = (r, w1)" by fastforce
  note wr = writes_Mkdir [OF m]
  then have rd: "rd (os_root w1) q = rd (os_root w) q" for q by (simp add: writes_def)
  have "os_fault w1 OpStat (configPath d) = NoFault" using wr assms(3) by (simp add: writes_def)
  moreover have "rd (os_root w1) (configPath d) \<noteq> None" using rd assms(2) by simp
  ultimately have "os_exists (configPath d) w1"
    by (auto simp: os_exists_def os_Stat_size_def rd_def split: option.splits node.splits)
  then show ?thesis
    using m rd by (cases r) (auto simp: Init_def Let_def init_paths [OF assms(1)])
qed

end
