(* ===== verification/Tor_Control.thy ===== *)
theory Tor_Control
  imports Init_Cmd Tarpack "HOL-Library.Signed_Division"
begin

text \<open>
  \<open>internal/kakekomi/tor.go\<close>: the client of the Tor control protocol.

  A connection holds the bytes sent so far and the bytes received and not read yet.  The daemon is
  a parameter of the connection, \<open>tc_daemon h line\<close> being what it answers to a line sent after
  the bytes \<open>h\<close>; a write can be cut short, after which the connection takes no more.  A daemon
  that stays silent is one that closes the connection: reading then ends in \<open>ErrEOF\<close>.
\<close>

definition crlf :: string where "crlf = [CHR 0x0D, CHR 0x0A]"

record tor_conn =
  tc_out :: string
  tc_in :: string
  tc_up :: bool
  tc_cut :: "string \<Rightarrow> nat option"
  tc_daemon :: "string \<Rightarrow> string \<Rightarrow> string"

definition tor_address :: "string \<Rightarrow> string \<times> string" where
  "tor_address addr =
     (if HasPrefix addr ''tcp:'' then (''tcp'', TrimPrefix addr ''tcp:'')
      else if HasPrefix addr ''unix:'' then (''unix'', TrimPrefix addr ''unix:'')
      else (''tcp'', addr))"

definition DialTorControl :: "(string \<Rightarrow> string \<Rightarrow> error + tor_conn) \<Rightarrow> string \<Rightarrow> error + tor_conn" where
  "DialTorControl dial addr =
     (case tor_address addr of (network, target) \<Rightarrow>
        (case dial network target of
           Inl e \<Rightarrow> Inl (Wrap ''tor control dial'' e)
         | Inr c \<Rightarrow> Inr c))"

definition send :: "string \<Rightarrow> tor_conn \<Rightarrow> error option \<times> tor_conn" where
  "send line t =
     (let s = line @ crlf in
      if \<not> tc_up t then (Some (ErrIO ''write''), t)
      else case tc_cut t (tc_out t @ s) of
        Some k \<Rightarrow> (Some (ErrIO ''write''), t\<lparr>tc_out := tc_out t @ take k s, tc_up := False\<rparr>)
      | None \<Rightarrow> (None, t\<lparr>tc_out := tc_out t @ s, tc_in := tc_in t @ tc_daemon t (tc_out t) s\<rparr>))"

section \<open>Replies\<close>

text \<open>The rune at the head of a string and its length, as a Go \<open>range\<close> loop yields them.\<close>

definition head_rune :: "string \<Rightarrow> int \<times> nat" where
  "head_rune s =
     (let b = (\<lambda>i. ordc (s ! i)); c = (\<lambda>i. b i mod 64) in
      case utf8_len s of
        0 \<Rightarrow> (0xFFFD, 1)
      | Suc 0 \<Rightarrow> (int (b 0), 1)
      | Suc (Suc 0) \<Rightarrow> (int (b 0 mod 32 * 64 + c 1), 2)
      | Suc (Suc (Suc 0)) \<Rightarrow> (int (b 0 mod 16 * 4096 + c 1 * 64 + c 2), 3)
      | _ \<Rightarrow> (int (b 0 mod 8 * 262144 + c 1 * 4096 + c 2 * 64 + c 3), 4))"

lemma head_rune_pos: "(c, k) = head_rune s \<Longrightarrow> 0 < k"
  by (auto simp: head_rune_def Let_def split: nat.splits)

function atoi_loop :: "int \<Rightarrow> string \<Rightarrow> int" where
  "atoi_loop n s =
     (if s = [] then n
      else case head_rune s of (c, k) \<Rightarrow> atoi_loop (n * 10 + (c - 48)) (drop k s))"
  by pat_completeness auto
termination
  by (relation "measure (length \<circ> snd)") (auto dest: head_rune_pos)

declare atoi_loop.simps [simp del]

definition atoi3 :: "string \<Rightarrow> int" where
  "atoi3 s = atoi_loop 0 s"

lemma ReadString_shorter: "ReadString inp = ((line, None), rest) \<Longrightarrow> length rest < length inp"
  using promptOnce_shorter [of inp "TrimRight line [CHR 0x0D, CHR 0x0A]" rest] by (simp add: promptOnce_def)

type_synonym reply = "string list \<times> int \<times> error option"

function reply_loop :: "string list \<Rightarrow> string \<Rightarrow> reply \<times> string" where
  "reply_loop lines inp =
     (case ReadString inp of
        ((l, Some e), rest) \<Rightarrow> (([], 0, Some e), rest)
      | ((l, None), rest) \<Rightarrow>
          (let line = TrimRight l [CHR 0x0D, CHR 0x0A] in
           if length line < 4 then (([], 0, Some (Err (''short reply: '' @ line))), rest)
           else
             let code = atoi3 (take 3 line); body = drop 4 line in
             if line ! 3 = CHR '' ''
             then ((lines @ [body], code,
                    if code sdiv 100 \<noteq> 2 then Some (Err (''tor error '' @ dec_int code @ '': '' @ body)) else None),
                   rest)
             else reply_loop (lines @ [body]) rest))"
  by pat_completeness auto
termination
  by (relation "measure (length \<circ> snd)") (auto dest!: ReadString_shorter [OF sym])

declare reply_loop.simps [simp del]

definition readReply :: "tor_conn \<Rightarrow> reply \<times> tor_conn" where
  "readReply t = (case reply_loop [] (tc_in t) of (r, rest) \<Rightarrow> (r, t\<lparr>tc_in := rest\<rparr>))"

section \<open>Commands\<close>

definition hasControlBytes :: "string \<Rightarrow> bool" where
  "hasControlBytes s = list_ex (\<lambda>c. c = CHR 0x0D \<or> c = CHR 0x0A \<or> c = CHR 0x00) s"

definition command :: "string \<Rightarrow> tor_conn \<Rightarrow> error option \<times> tor_conn" where
  "command line t =
     (case send line t of
        (Some e, t1) \<Rightarrow> (Some e, t1)
      | (None, t1) \<Rightarrow> (case readReply t1 of ((_, _, e), t2) \<Rightarrow> (e, t2)))"

definition AuthenticateCookie :: "string \<Rightarrow> 'a os_scheme \<Rightarrow> tor_conn \<Rightarrow> error option \<times> tor_conn" where
  "AuthenticateCookie cookieFile w t =
     (case os_ReadFile (os_path cookieFile) w of
        Inl e \<Rightarrow> (Some (Wrap ''read auth cookie'' e), t)
      | Inr cookie \<Rightarrow> command (''AUTHENTICATE '' @ hex_EncodeToString cookie) t)"

definition AuthenticatePassword :: "string \<Rightarrow> tor_conn \<Rightarrow> error option \<times> tor_conn" where
  "AuthenticatePassword password t =
     (if hasControlBytes password
      then (Some (Err (''tor password contains forbidden control bytes ('' @ CHR 0x5C # ''r/''
              @ CHR 0x5C # ''n/'' @ CHR 0x5C # ''0)'')), t)
      else
        let q = ReplaceChar password (CHR 0x22) [CHR 0x5C, CHR 0x22] in
        command (''AUTHENTICATE '' @ [CHR 0x22] @ q @ [CHR 0x22]) t)"

definition authenticate_rest :: "string \<Rightarrow> tor_conn \<Rightarrow> error option \<times> tor_conn" where
  "authenticate_rest password t =
     (if password \<noteq> [] then AuthenticatePassword password t else command ''AUTHENTICATE'' t)"

definition AuthenticateAuto :: "string \<Rightarrow> string \<Rightarrow> 'a os_scheme \<Rightarrow> tor_conn \<Rightarrow> error option \<times> tor_conn" where
  "AuthenticateAuto cookieFile password w t =
     (if cookieFile \<noteq> [] then
        (case AuthenticateCookie cookieFile w t of
           (None, t1) \<Rightarrow> (None, t1)
         | (Some _, t1) \<Rightarrow> authenticate_rest password t1)
      else authenticate_rest password t)"

definition bad_client_key :: "string \<Rightarrow> bool" where
  "bad_client_key pk \<longleftrightarrow> hasControlBytes pk \<or> ContainsAny pk [CHR '' '', CHR 0x09]"

definition add_onion_cmd :: "string \<Rightarrow> string \<Rightarrow> string list \<Rightarrow> string" where
  "add_onion_cmd key target pks =
     foldl (\<lambda>cmd pk. cmd @ '' ClientAuthV3='' @ pk)
       (''ADD_ONION '' @ key @ '' Flags=Detach Port=80,'' @ target) pks"

definition add_onion :: "string \<Rightarrow> tor_conn \<Rightarrow> (error + string list) \<times> tor_conn" where
  "add_onion cmd t =
     (case send cmd t of
        (Some e, t1) \<Rightarrow> (Inl e, t1)
      | (None, t1) \<Rightarrow>
          (case readReply t1 of
             ((_, _, Some e), t2) \<Rightarrow> (Inl e, t2)
           | ((lines, _, None), t2) \<Rightarrow> (Inr lines, t2)))"

definition onion_line :: "string \<times> string \<Rightarrow> string \<Rightarrow> string \<times> string" where
  "onion_line st l =
     (case st of (serviceID, privKey) \<Rightarrow>
        if HasPrefix l ''ServiceID='' then (TrimPrefix l ''ServiceID='', privKey)
        else if HasPrefix l ''PrivateKey='' then (serviceID, TrimPrefix l ''PrivateKey='')
        else (serviceID, privKey))"

definition AddOnionV3 :: "string \<Rightarrow> string list \<Rightarrow> tor_conn \<Rightarrow> (error + string \<times> string) \<times> tor_conn" where
  "AddOnionV3 target pks t =
     (if hasControlBytes target then (Inl (Err ''targetHostPort contains forbidden control bytes''), t)
      else if list_ex bad_client_key pks then (Inl (Err ''clientPubKey contains forbidden bytes''), t)
      else case add_onion (add_onion_cmd ''NEW:ED25519-V3'' target pks) t of
        (Inl e, t1) \<Rightarrow> (Inl e, t1)
      | (Inr lines, t1) \<Rightarrow>
          (case foldl onion_line ([], []) lines of (serviceID, privKey) \<Rightarrow>
             if serviceID = [] then (Inl (Err ''tor ADD_ONION did not return ServiceID''), t1)
             else (Inr (serviceID, privKey), t1)))"

definition AddOnionExistingKey :: "string \<Rightarrow> string \<Rightarrow> string list \<Rightarrow> tor_conn \<Rightarrow> (error + string) \<times> tor_conn" where
  "AddOnionExistingKey privKey target pks t =
     (if hasControlBytes privKey \<or> ContainsAny privKey [CHR '' '', CHR 0x09]
      then (Inl (Err ''tor private key contains forbidden bytes''), t)
      else if \<not> HasPrefix privKey ''ED25519-V3:''
      then (Inl (Err ''tor private key has unexpected format''), t)
      else if hasControlBytes target
      then (Inl (Err ''targetHostPort contains forbidden control bytes''), t)
      else if list_ex bad_client_key pks then (Inl (Err ''clientPubKey contains forbidden bytes''), t)
      else case add_onion (add_onion_cmd privKey target pks) t of
        (Inl e, t1) \<Rightarrow> (Inl e, t1)
      | (Inr lines, t1) \<Rightarrow>
          (case find (\<lambda>l. HasPrefix l ''ServiceID='') lines of
             Some l \<Rightarrow> (Inr (TrimPrefix l ''ServiceID=''), t1)
           | None \<Rightarrow> (Inl (Err ''tor ADD_ONION did not return ServiceID''), t1)))"

definition DelOnion :: "string \<Rightarrow> tor_conn \<Rightarrow> error option \<times> tor_conn" where
  "DelOnion serviceID t = command (''DEL_ONION '' @ serviceID) t"

section \<open>What is sent\<close>

text \<open>\<open>wire\<close> is a sequence of commands as bytes; \<open>emits n P\<close> says that at most \<open>n\<close> commands, all
  of them \<open>P\<close>, were sent, the last of them perhaps in part when the connection was lost.\<close>

definition wire :: "string list \<Rightarrow> string" where
  "wire cmds = concat (map (\<lambda>c. c @ crlf) cmds)"

definition emits :: "nat \<Rightarrow> (string \<Rightarrow> bool) \<Rightarrow> tor_conn \<Rightarrow> tor_conn \<Rightarrow> bool" where
  "emits n P t t' \<longleftrightarrow> (\<exists>cmds. length cmds \<le> n \<and> list_all P cmds \<and> prefix (tc_out t') (tc_out t @ wire cmds)
     \<and> (tc_up t' \<longrightarrow> tc_up t \<and> tc_out t' = tc_out t @ wire cmds)
     \<and> (\<not> tc_up t \<longrightarrow> tc_out t' = tc_out t))
     \<and> tc_cut t' = tc_cut t \<and> tc_daemon t' = tc_daemon t"

lemma wire_append [simp]: "wire (a @ b) = wire a @ wire b"
  by (simp add: wire_def)

lemma wire_Nil [simp]: "wire [] = []"
  by (simp add: wire_def)

lemma wire_Cons [simp]: "wire (c # cs) = c @ crlf @ wire cs"
  by (simp add: wire_def)

lemma emits_same: "tc_out t' = tc_out t \<Longrightarrow> tc_up t' = tc_up t \<Longrightarrow> tc_cut t' = tc_cut t
    \<Longrightarrow> tc_daemon t' = tc_daemon t \<Longrightarrow> emits n P t t'"
  unfolding emits_def by (intro conjI exI [of _ "[]"]) auto

lemma emits_refl [simp]: "emits n P t t"
  by (simp add: emits_same)

lemma emitsE:
  assumes "emits n P t t'"
  obtains cmds where "length cmds \<le> n" "list_all P cmds" "prefix (tc_out t') (tc_out t @ wire cmds)"
    "tc_up t' \<longrightarrow> tc_up t \<and> tc_out t' = tc_out t @ wire cmds" "\<not> tc_up t \<longrightarrow> tc_out t' = tc_out t"
  using assms unfolding emits_def by blast

lemma emits_trans:
  assumes "emits n P t t1" and "emits m P t1 t2"
  shows "emits (n + m) P t t2"
proof -
  obtain a where a: "length a \<le> n" "list_all P a" "prefix (tc_out t1) (tc_out t @ wire a)"
    "tc_up t1 \<longrightarrow> tc_up t \<and> tc_out t1 = tc_out t @ wire a" "\<not> tc_up t \<longrightarrow> tc_out t1 = tc_out t"
    using assms(1) by (rule emitsE)
  obtain b where b: "length b \<le> m" "list_all P b" "prefix (tc_out t2) (tc_out t1 @ wire b)"
    "tc_up t2 \<longrightarrow> tc_up t1 \<and> tc_out t2 = tc_out t1 @ wire b" "\<not> tc_up t1 \<longrightarrow> tc_out t2 = tc_out t1"
    using assms(2) by (rule emitsE)
  have ab: "tc_out t @ wire (a @ b) = (tc_out t @ wire a) @ wire b" by simp
  have "prefix (tc_out t2) (tc_out t @ wire (a @ b))"
  proof (cases "tc_up t1")
    case True
    with a(4) b(3) show ?thesis by simp
  next
    case False
    have "prefix (tc_out t @ wire a) (tc_out t @ wire (a @ b))" unfolding ab by (rule prefixI [OF refl])
    then show ?thesis using a(3) b(5) False prefix_order.trans by metis
  qed
  moreover have "tc_up t2 \<longrightarrow> tc_up t \<and> tc_out t2 = tc_out t @ wire (a @ b)" using a(4) b(4) by simp
  moreover have "\<not> tc_up t \<longrightarrow> tc_out t2 = tc_out t" using a(4,5) b(5) by metis
  moreover have "tc_cut t2 = tc_cut t \<and> tc_daemon t2 = tc_daemon t"
    using assms by (simp add: emits_def)
  moreover have "length (a @ b) \<le> n + m" "list_all P (a @ b)" using a(1,2) b(1,2) by simp_all
  ultimately show ?thesis unfolding emits_def by blast
qed

lemma emits_mono: "emits n P t t' \<Longrightarrow> n \<le> m \<Longrightarrow> (\<And>c. P c \<Longrightarrow> Q c) \<Longrightarrow> emits m Q t t'"
  unfolding emits_def by (metis list.pred_mono_strong order_trans)

lemma emits_send:
  assumes "P line" and "send line t = (e, t')"
  shows "emits 1 P t t'"
proof -
  have "prefix (tc_out t @ take k (line @ crlf)) (tc_out t @ wire [line])" for k
    using take_is_prefix [of k "line @ crlf"] by (simp del: take_append)
  with assms show ?thesis unfolding emits_def
    by (intro conjI exI [of _ "[line]"])
      (auto simp: send_def Let_def simp del: take_append split: if_splits option.splits)
qed

lemma readReply_sent [simp]:
  "readReply t = (r, t') \<Longrightarrow> tc_out t' = tc_out t \<and> tc_up t' = tc_up t \<and> tc_cut t' = tc_cut t
     \<and> tc_daemon t' = tc_daemon t"
  by (auto simp: readReply_def split: prod.splits)

lemma emits_command:
  assumes "P line" and "command line t = (e, t')"
  shows "emits 1 P t t'"
proof -
  obtain e1 t1 where s: "send line t = (e1, t1)" by fastforce
  have "emits 0 P t1 t'"
    using assms(2) s by (auto simp: command_def split: option.splits prod.splits intro: emits_same)
  from emits_trans [OF emits_send [where P = P, OF assms(1) s] this] show ?thesis by simp
qed

lemma emits_add_onion:
  assumes "P cmd" and "add_onion cmd t = (r, t')"
  shows "emits 1 P t t'"
proof -
  obtain e1 t1 where s: "send cmd t = (e1, t1)" by fastforce
  have "emits 0 P t1 t'"
    using assms(2) s by (auto simp: add_onion_def split: option.splits prod.splits intro: emits_same)
  from emits_trans [OF emits_send [where P = P, OF assms(1) s] this] show ?thesis by simp
qed

text \<open>The commands that may be sent: authentication on one line, and the registration of an onion
  for a given target, under a new key or under a key without white space.\<close>

definition onion_key :: "string \<Rightarrow> bool" where
  "onion_key k \<longleftrightarrow> \<not> hasControlBytes k \<and> \<not> ContainsAny k [CHR '' '', CHR 0x09] \<and> HasPrefix k ''ED25519-V3:''"

definition auth_cmd :: "string \<Rightarrow> bool" where
  "auth_cmd c \<longleftrightarrow> \<not> hasControlBytes c \<and> (c = ''AUTHENTICATE'' \<or> HasPrefix c ''AUTHENTICATE '')"

definition add_cmd :: "string \<Rightarrow> string \<Rightarrow> bool" where
  "add_cmd target c \<longleftrightarrow> \<not> hasControlBytes c
     \<and> (\<exists>k. (k = ''NEW:ED25519-V3'' \<or> onion_key k) \<and> c = add_onion_cmd k target [])"

lemma hasControlBytes_append [simp]: "hasControlBytes (a @ b) \<longleftrightarrow> hasControlBytes a \<or> hasControlBytes b"
  by (simp add: hasControlBytes_def)

lemma hasControlBytes_Cons [simp]:
  "hasControlBytes (c # s) \<longleftrightarrow> c = CHR 0x0D \<or> c = CHR 0x0A \<or> c = CHR 0x00 \<or> hasControlBytes s"
  "\<not> hasControlBytes []"
  by (simp_all add: hasControlBytes_def)

lemma hex_no_control: "\<not> hasControlBytes (hex_EncodeToString b)"
  using hex_encode_lower [of _ b]
  by (force simp: hasControlBytes_def list_ex_iff lower_hex_char_def ordc_def)

lemma quote_no_control: "\<not> hasControlBytes s \<Longrightarrow> \<not> hasControlBytes (ReplaceChar s (CHR 0x22) [CHR 0x5C, CHR 0x22])"
  by (induction s) (auto simp: ReplaceChar_def)

lemma auth_cmd_plain: "auth_cmd ''AUTHENTICATE''"
  by (simp add: auth_cmd_def)

lemma auth_cmd_args: "\<not> hasControlBytes a \<Longrightarrow> auth_cmd (''AUTHENTICATE '' @ a)"
  by (simp add: auth_cmd_def)

lemma auth_cmd_hex: "auth_cmd (''AUTHENTICATE '' @ hex_EncodeToString b)"
  by (rule auth_cmd_args [OF hex_no_control])

lemma auth_cmd_quoted: "\<not> hasControlBytes pw \<Longrightarrow>
    auth_cmd (''AUTHENTICATE '' @ [CHR 0x22] @ ReplaceChar pw (CHR 0x22) [CHR 0x5C, CHR 0x22] @ [CHR 0x22])"
  by (rule auth_cmd_args) (simp add: quote_no_control)

lemma emits_AuthenticateCookie: "AuthenticateCookie f w t = (e, t') \<Longrightarrow> emits 1 auth_cmd t t'"
  using auth_cmd_hex by (auto simp: AuthenticateCookie_def simp del: One_nat_def split: sum.splits
      intro: emits_command [where P = auth_cmd])

lemma emits_authenticate_rest: "authenticate_rest pw t = (e, t') \<Longrightarrow> emits 1 auth_cmd t t'"
  using auth_cmd_quoted [of pw] auth_cmd_plain
  by (auto simp: authenticate_rest_def AuthenticatePassword_def Let_def simp del: One_nat_def
      split: if_splits intro: emits_command [where P = auth_cmd])

lemma emits_AuthenticateAuto:
  assumes "AuthenticateAuto f pw w t = (e, t')"
  shows "emits 2 auth_cmd t t'"
proof (cases "f = []")
  case True
  with assms have "authenticate_rest pw t = (e, t')" by (simp add: AuthenticateAuto_def)
  from emits_authenticate_rest [OF this] show ?thesis by (rule emits_mono) simp_all
next
  case False
  obtain e1 t1 where c: "AuthenticateCookie f w t = (e1, t1)" by fastforce
  note m = emits_AuthenticateCookie [OF c]
  show ?thesis
  proof (cases e1)
    case None
    with assms False c have "t' = t1" by (simp add: AuthenticateAuto_def)
    with m show ?thesis by (auto intro: emits_mono)
  next
    case (Some err)
    with assms False c have "authenticate_rest pw t1 = (e, t')" by (simp add: AuthenticateAuto_def)
    from emits_trans [OF m emits_authenticate_rest [OF this]] show ?thesis by (simp add: numeral_2_eq_2)
  qed
qed

lemma add_cmd_new: "\<not> hasControlBytes target \<Longrightarrow> add_cmd target (add_onion_cmd ''NEW:ED25519-V3'' target [])"
  unfolding add_cmd_def by (auto simp: add_onion_cmd_def)

lemma add_cmd_key: "\<not> hasControlBytes target \<Longrightarrow> onion_key k \<Longrightarrow> add_cmd target (add_onion_cmd k target [])"
  unfolding add_cmd_def by (auto simp: add_onion_cmd_def onion_key_def)

lemma emits_AddOnionV3: "AddOnionV3 target [] t = (r, t') \<Longrightarrow> emits 1 (add_cmd target) t t'"
  by (auto simp: AddOnionV3_def simp del: One_nat_def split: if_splits prod.splits sum.splits
      intro: emits_add_onion [where P = "add_cmd target", OF add_cmd_new])

lemma emits_AddOnionExistingKey:
  assumes "AddOnionExistingKey k target [] t = (r, t')"
  shows "emits 1 (add_cmd target) t t'"
proof (cases "onion_key k \<and> \<not> hasControlBytes target")
  case True
  then obtain r1 where "add_onion (add_onion_cmd k target []) t = (r1, t')"
    using assms by (auto simp: AddOnionExistingKey_def onion_key_def split: prod.splits sum.splits option.splits)
  with True show ?thesis by (intro emits_add_onion [where P = "add_cmd target", OF add_cmd_key]) auto
next
  case False
  with assms show ?thesis
    by (auto simp: AddOnionExistingKey_def onion_key_def simp del: One_nat_def split: if_splits)
qed

section \<open>Reading replies\<close>

definition reply_text :: "string \<Rightarrow> string list \<Rightarrow> string" where
  "reply_text code bodies =
     concat (map (\<lambda>b. code @ CHR ''-'' # b @ crlf) (butlast bodies)) @ code @ CHR '' '' # last bodies @ crlf"

definition body_ok :: "string \<Rightarrow> bool" where
  "body_ok b \<longleftrightarrow> newline \<notin> set b \<and> (b = [] \<or> last b \<noteq> CHR 0x0D)"

definition code3 :: "nat \<Rightarrow> string" where
  "code3 n = [char_of (48 + n div 100), char_of (48 + n div 10 mod 10), char_of (48 + n mod 10)]"

lemma ReadString_line: "newline \<notin> set s \<Longrightarrow> ReadString (s @ crlf @ rest) = ((s @ crlf, None), rest)"
proof -
  assume "newline \<notin> set s"
  then have n: "\<forall>c \<in> set (s @ [CHR 0x0D]). c \<noteq> newline" by (auto simp: newline_def)
  have e: "s @ crlf @ rest = (s @ [CHR 0x0D]) @ newline # rest" by (simp add: crlf_def newline_def)
  have "takeWhile (\<lambda>c. c \<noteq> newline) (s @ crlf @ rest) = s @ [CHR 0x0D]"
    "dropWhile (\<lambda>c. c \<noteq> newline) (s @ crlf @ rest) = newline # rest"
    unfolding e using n by (subst takeWhile_append2 dropWhile_append2, blast, simp)+
  moreover have "newline \<in> set (s @ crlf @ rest)" unfolding e by simp
  ultimately show ?thesis by (simp add: ReadString_def crlf_def newline_def)
qed

lemma TrimRight_line: "s \<noteq> [] \<Longrightarrow> last s \<notin> {CHR 0x0D, newline} \<Longrightarrow> TrimRight (s @ crlf) [CHR 0x0D, CHR 0x0A] = s"
  by (cases s rule: rev_cases) (auto simp: TrimRight_def crlf_def newline_def)

lemma head_rune_ascii: "ordc c < 128 \<Longrightarrow> head_rune (c # s) = (int (ordc c), 1)"
  by (simp add: head_rune_def utf8_len_def Let_def)

lemma ordc_digit: "d < 10 \<Longrightarrow> ordc (char_of (48 + d)) = 48 + d"
  by (simp add: ordc_char_of)

lemma digits_int: "n = 100 * a + 10 * b + c \<Longrightarrow> (int a * 10 + int b) * 10 + int c = int n"
  by simp

lemma atoi3_code3: "n < 1000 \<Longrightarrow> atoi3 (code3 n) = int n"
proof -
  assume n: "n < 1000"
  have d: "n div 100 < 10" "n div 10 mod 10 < 10" "n mod 10 < 10" using n by auto
  have "n = 10 * (n div 10) + n mod 10" "n div 10 = 10 * (n div 100) + n div 10 mod 10"
    using div_mult2_eq [of n 10 10] by simp_all
  then have "n = 100 * (n div 100) + 10 * (n div 10 mod 10) + n mod 10" by linarith
  then have e: "(int (n div 100) * 10 + int (n div 10 mod 10)) * 10 + int (n mod 10) = int n"
    by (rule digits_int)
  with d show ?thesis
    by (simp add: atoi3_def code3_def atoi_loop.simps head_rune_ascii ordc_digit)
qed

lemma code3_chars: "n < 1000 \<Longrightarrow> c \<in> set (code3 n) \<Longrightarrow> c \<noteq> newline \<and> c \<noteq> CHR 0x0D"
proof -
  assume n: "n < 1000" and "c \<in> set (code3 n)"
  then have "48 \<le> ordc c" by (auto simp: code3_def ordc_digit)
  then show ?thesis by (auto simp: newline_def ordc_def)
qed

lemma reply_line:
  assumes "n < 1000" and "body_ok b" and "sep = CHR '' '' \<or> sep = CHR ''-''"
  shows "reply_loop ls ((code3 n @ sep # b @ crlf) @ rest) =
     (if sep = CHR '' ''
      then ((ls @ [b], int n, if n div 100 = 2 then None else Some (Err (''tor error '' @ dec_int (int n) @ '': '' @ b))), rest)
      else reply_loop (ls @ [b]) rest)"
proof -
  let ?l = "code3 n @ sep # b"
  have len: "length (code3 n) = 3" by (simp add: code3_def)
  have nl: "newline \<notin> set ?l" using assms code3_chars [OF assms(1)] by (auto simp: body_ok_def newline_def)
  have "last ?l \<notin> {CHR 0x0D, newline}"
    using assms(2,3) by (cases b rule: rev_cases) (auto simp: body_ok_def newline_def)
  then have tr: "TrimRight (?l @ crlf) [CHR 0x0D, CHR 0x0A] = ?l" by (intro TrimRight_line) simp_all
  have "int n sdiv 100 = int (n div 100)" by (simp add: signed_divide_int_def sgn_if zdiv_int)
  then have q: "(int n sdiv 100 \<noteq> 2) = (n div 100 \<noteq> 2)" by simp
  have "(code3 n @ sep # b @ crlf) @ rest = ?l @ crlf @ rest" by simp
  then show ?thesis
    by (subst reply_loop.simps)
      (simp only: ReadString_line [OF nl] tr prod.case option.case Let_def,
        simp add: len q atoi3_code3 [OF assms(1)] nth_append)
qed

lemma reply_loop_text:
  assumes "n < 1000" and "bodies \<noteq> []" and "list_all body_ok bodies"
  shows "reply_loop ls (reply_text (code3 n) bodies @ rest) =
     ((ls @ bodies, int n, if n div 100 = 2 then None
        else Some (Err (''tor error '' @ dec_int (int n) @ '': '' @ last bodies))), rest)"
  using assms(2,3)
proof (induction bodies arbitrary: ls rule: list_nonempty_induct)
  case (single b)
  then show ?case using reply_line [OF assms(1), of b "CHR '' ''" ls rest] by (simp add: reply_text_def)
next
  case (cons b bs)
  have "reply_text (code3 n) (b # bs) @ rest = (code3 n @ CHR ''-'' # b @ crlf) @ reply_text (code3 n) bs @ rest"
    using cons.hyps by (simp add: reply_text_def)
  with cons reply_line [OF assms(1), of b "CHR ''-''" ls "reply_text (code3 n) bs @ rest"] show ?case by simp
qed

text \<open>C32: the reader of replies understands every reply of the control protocol without data blocks,
  however many lines it has and whatever follows it on the connection: it returns the text of
  every line and the status, reports an error exactly for statuses outside the 2xx range, and
  leaves the rest of the input to the next command.\<close>

theorem readReply_roundtrip:
  assumes "n < 1000" and "bodies \<noteq> []" and "list_all body_ok bodies"
    and "tc_in t = reply_text (code3 n) bodies @ rest"
  shows "readReply t = ((bodies, int n, if n div 100 = 2 then None
        else Some (Err (''tor error '' @ dec_int (int n) @ '': '' @ last bodies))), t\<lparr>tc_in := rest\<rparr>)"
  using reply_loop_text [OF assms(1-3), of "[]" rest] by (simp add: readReply_def assms(4))

definition demo_conn :: tor_conn where
  "demo_conn = \<lparr>tc_out = [], tc_in = reply_text (code3 250) [''ServiceID=abc'', ''OK''] @ ''x'', tc_up = True,
     tc_cut = (\<lambda>_. None), tc_daemon = (\<lambda>_ _. [])\<rparr>"

theorem readReply_roundtrip_witness:
  "readReply demo_conn = (([''ServiceID=abc'', ''OK''], 250, None), demo_conn\<lparr>tc_in := ''x''\<rparr>)"
  using readReply_roundtrip [of 250 "[''ServiceID=abc'', ''OK'']" demo_conn "''x''"]
  by (simp add: demo_conn_def body_ok_def newline_def)

text \<open>A password that ends in a back slash escapes the closing quote of its own command.\<close>

lemma password_backslash:
  "AuthenticatePassword [CHR 0x5C] t = command (''AUTHENTICATE '' @ [CHR 0x22, CHR 0x5C, CHR 0x22]) t"
  by (simp add: AuthenticatePassword_def ReplaceChar_def)

end
