(* ===== verification/Tor_Setup.thy ===== *)
theory Tor_Setup
  imports Tor_Control Fs_Laws Config
begin

text \<open>
  \<open>setupTor\<close> of \<open>internal/kakekomi/server.go\<close>: the onion service of the server is registered with
  the daemon under the key kept in the data directory, or under a new key, which is then kept.
  The result carries the connection, in whatever state it was left; \<open>Close\<close> is not a state.
\<close>

definition ingressKeyPath :: "path \<Rightarrow> path" where
  "ingressKeyPath dataDir = join_comps dataDir [''tor'', ''ingress.key'']"

definition addressesPath :: "path \<Rightarrow> path" where
  "addressesPath dataDir = join_comps dataDir [''tor'', ''addresses.txt'']"

definition persistOnionAddrs :: "path \<Rightarrow> config \<Rightarrow> 'a os_scheme \<Rightarrow> error option \<times> 'a os_scheme" where
  "persistOnionAddrs dataDir cfg w =
     (let body = ''ingress: '' @ tor_IngressOnionAddr (cfg_Tor cfg) @ ''.onion'' @ [newline]
        @ ''admin: '' @ tor_AdminOnionAddr (cfg_Tor cfg) @ ''.onion'' @ [newline]
      in os_WriteFile (addressesPath dataDir) (bytes_of body) w)"

definition register_onion :: "path \<Rightarrow> string \<Rightarrow> bytes \<Rightarrow> tor_conn \<Rightarrow> 'a os_scheme
    \<Rightarrow> (error + string) \<times> tor_conn \<times> 'a os_scheme" where
  "register_onion keyPath localAddr priv t w =
     (if priv \<noteq> [] then
        (case AddOnionExistingKey (TrimSpace (str_of priv)) localAddr [] t of (r, t1) \<Rightarrow> (r, t1, w))
      else case AddOnionV3 localAddr [] t of
        (Inl e, t1) \<Rightarrow> (Inl e, t1, w)
      | (Inr (serviceID, newKey), t1) \<Rightarrow>
          (case os_WriteFile keyPath (bytes_of newKey) w of
             (Some e, w1) \<Rightarrow> (Inl e, t1, w1)
           | (None, w1) \<Rightarrow> (Inr serviceID, t1, w1)))"

definition set_ingress :: "string \<Rightarrow> config \<Rightarrow> config" where
  "set_ingress a cfg = cfg\<lparr>cfg_Tor := cfg_Tor cfg\<lparr>tor_IngressOnionAddr := a\<rparr>\<rparr>"

definition setupTor :: "(string \<Rightarrow> string \<Rightarrow> error + tor_conn) \<Rightarrow> config \<Rightarrow> path \<Rightarrow> string \<Rightarrow> 'a os_scheme
    \<Rightarrow> (error + config \<times> string) \<times> tor_conn option \<times> 'a os_scheme" where
  "setupTor dial cfg dataDir localAddr w =
     (case DialTorControl dial (tor_ControlAddr (cfg_Tor cfg)) of
        Inl e \<Rightarrow> (Inl e, None, w)
      | Inr t \<Rightarrow>
     (case AuthenticateAuto (tor_CookieAuthFile (cfg_Tor cfg)) (tor_ControlPassword (cfg_Tor cfg)) w t of
        (Some e, t1) \<Rightarrow> (Inl (Wrap ''tor auth'' e), Some t1, w)
      | (None, t1) \<Rightarrow>
     (let keyPath = ingressKeyPath dataDir;
          w1 = snd (os_MkdirAll (butlast keyPath) w);
          priv = (case os_ReadFile keyPath w1 of Inl _ \<Rightarrow> [] | Inr b \<Rightarrow> b)
      in case register_onion keyPath localAddr priv t1 w1 of
        (Inl e, t2, w2) \<Rightarrow> (Inl e, Some t2, w2)
      | (Inr serviceID, t2, w2) \<Rightarrow>
          (let cfg1 = set_ingress serviceID cfg
           in (Inr (cfg1, serviceID), Some t2, snd (persistOnionAddrs dataDir cfg1 w2))))))"

text \<open>The function that \<open>Run\<close> defers; the connection is closed whatever \<open>DelOnion\<close> returns.\<close>

definition tear_down :: "string \<Rightarrow> tor_conn \<Rightarrow> tor_conn" where
  "tear_down serviceID t = (snd (DelOnion serviceID t))\<lparr>tc_up := False\<rparr>"

section \<open>What the daemon is sent\<close>

lemma emits_register:
  assumes "register_onion keyPath addr priv t w = (r, t', w')"
  shows "emits 1 (add_cmd addr) t t'"
proof (cases "priv = []")
  case True
  then obtain r1 where "AddOnionV3 addr [] t = (r1, t')"
    using assms by (auto simp: register_onion_def split: prod.splits sum.splits option.splits)
  then show ?thesis by (rule emits_AddOnionV3)
next
  case False
  then obtain r1 where "AddOnionExistingKey (TrimSpace (str_of priv)) addr [] t = (r1, t')"
    using assms by (auto simp: register_onion_def split: prod.splits)
  then show ?thesis by (rule emits_AddOnionExistingKey)
qed

lemma setupTor_conn:
  "DialTorControl dial (tor_ControlAddr (cfg_Tor cfg)) = Inr t \<Longrightarrow> \<exists>r t' w'. setupTor dial cfg d addr w = (r, Some t', w')"
  by (simp add: setupTor_def Let_def split: prod.split option.split sum.split)

lemma setupTor_cases:
  fixes w :: "'a os_scheme"
  assumes "setupTor dial cfg d addr w = (r, Some t', w')"
  obtains t e t1 where "DialTorControl dial (tor_ControlAddr (cfg_Tor cfg)) = Inr t"
    "AuthenticateAuto (tor_CookieAuthFile (cfg_Tor cfg)) (tor_ControlPassword (cfg_Tor cfg)) w t = (e, t1)"
    "t' = t1 \<or> (\<exists>priv (w1 :: 'a os_scheme) r1 w2. register_onion (ingressKeyPath d) addr priv t1 w1 = (r1, t', w2))"
proof -
  obtain t where t: "DialTorControl dial (tor_ControlAddr (cfg_Tor cfg)) = Inr t"
    using assms by (auto simp: setupTor_def split: sum.splits)
  obtain e t1 where a: "AuthenticateAuto (tor_CookieAuthFile (cfg_Tor cfg)) (tor_ControlPassword (cfg_Tor cfg)) w t = (e, t1)"
    by fastforce
  have "t' = t1 \<or> (\<exists>priv (w1 :: 'a os_scheme) r1 w2. register_onion (ingressKeyPath d) addr priv t1 w1 = (r1, t', w2))"
  proof (cases e)
    case (Some x)
    with assms t a show ?thesis by (simp add: setupTor_def)
  next
    case None
    let ?w1 = "snd (os_MkdirAll (butlast (ingressKeyPath d)) w)"
    let ?priv = "case os_ReadFile (ingressKeyPath d) ?w1 of Inl _ \<Rightarrow> [] | Inr b \<Rightarrow> b"
    obtain r1 t2 w2 where r: "register_onion (ingressKeyPath d) addr ?priv t1 ?w1 = (r1, t2, w2)"
      by (metis prod.exhaust)
    then have "t' = t2" using assms t a None by (cases r1) (auto simp: setupTor_def Let_def)
    with r show ?thesis by blast
  qed
  with t a that show thesis by blast
qed

text \<open>C23: whatever stands in the key file, the cookie file and the configured password, and whatever
  the daemon answers, setting up the onion service sends over a fresh connection at most two
  authentication commands and one registration, each on one line without control bytes; the
  registration forwards to the given address and its key has no white space, so nothing can
  smuggle in another command or another argument, not even when a write is cut short.\<close>

theorem setupTor_commands:
  fixes w :: "'a os_scheme"
  assumes "setupTor dial cfg d addr w = (r, Some t', w')"
    and "DialTorControl dial (tor_ControlAddr (cfg_Tor cfg)) = Inr t" and "tc_out t = []"
  shows "\<exists>auths adds. prefix (tc_out t') (wire (auths @ adds)) \<and> length auths \<le> 2 \<and> length adds \<le> 1
     \<and> list_all auth_cmd auths \<and> list_all (add_cmd addr) adds"
proof -
  obtain e t1 where
    a: "AuthenticateAuto (tor_CookieAuthFile (cfg_Tor cfg)) (tor_ControlPassword (cfg_Tor cfg)) w t = (e, t1)"
    and c: "t' = t1 \<or> (\<exists>priv (w1 :: 'a os_scheme) r1 w2. register_onion (ingressKeyPath d) addr priv t1 w1 = (r1, t', w2))"
    using setupTor_cases [OF assms(1)] assms(2) by (metis sum.inject(2))
  have m: "emits 1 (add_cmd addr) t1 t'" using c emits_register by auto
  obtain auths where s: "length auths \<le> 2" "list_all auth_cmd auths" "prefix (tc_out t1) (wire auths)"
    "tc_up t1 \<longrightarrow> tc_out t1 = wire auths"
    using emitsE [OF emits_AuthenticateAuto [OF a]] assms(3) by (metis append_Nil)
  obtain adds where p: "length adds \<le> 1" "list_all (add_cmd addr) adds"
    "prefix (tc_out t') (tc_out t1 @ wire adds)" "\<not> tc_up t1 \<longrightarrow> tc_out t' = tc_out t1"
    using emitsE [OF m] by metis
  have "prefix (tc_out t') (wire (auths @ adds))"
  proof (cases "tc_up t1")
    case True
    with s p show ?thesis by simp
  next
    case False
    with s p show ?thesis using prefix_order.trans [OF _ prefixI [of "wire auths @ wire adds" "wire auths"]] by simp
  qed
  with s p show ?thesis by blast
qed

section \<open>The address\<close>

text \<open>What the code relies on in the daemon, as the control protocol documents it: every command gets
  one reply.  Any of them may be refused, with any code outside of 2xx (515 for a wrong password,
  550 for an address in use, and so on) or by closing the connection; a write may fail at any
  point.  A registration under a new key that is answered with 250 returns the key and the address
  of the key, one under a given key returns the address of that key: an address is a function of
  the key, which is what an onion address is.\<close>

definition printable_key :: "string \<Rightarrow> bool" where
  "printable_key k \<longleftrightarrow> onion_key k \<and> list_all (\<lambda>c. \<not> space_char c) k"

definition refusal_text :: "string \<Rightarrow> bool" where
  "refusal_text s \<longleftrightarrow> s = [] \<or> (\<exists>n bs. n < 1000 \<and> n div 100 \<noteq> 2 \<and> bs \<noteq> [] \<and> list_all body_ok bs
     \<and> s = reply_text (code3 n) bs)"

definition tor_daemon_ok :: "(string \<Rightarrow> string) \<Rightarrow> tor_conn \<Rightarrow> bool" where
  "tor_daemon_ok addr_of t \<longleftrightarrow>
     (\<forall>h c. auth_cmd c \<longrightarrow> refusal_text (tc_daemon t h (c @ crlf))
        \<or> tc_daemon t h (c @ crlf) = reply_text (code3 250) [''OK''])
   \<and> (\<forall>h target. refusal_text (tc_daemon t h (add_onion_cmd ''NEW:ED25519-V3'' target [] @ crlf))
        \<or> (\<exists>k. printable_key k \<and> tc_daemon t h (add_onion_cmd ''NEW:ED25519-V3'' target [] @ crlf)
            = reply_text (code3 250) [''ServiceID='' @ addr_of k, ''PrivateKey='' @ k, ''OK'']))
   \<and> (\<forall>h target k. onion_key k \<longrightarrow> refusal_text (tc_daemon t h (add_onion_cmd k target [] @ crlf))
        \<or> tc_daemon t h (add_onion_cmd k target [] @ crlf)
            = reply_text (code3 250) [''ServiceID='' @ addr_of k, ''OK''])
   \<and> (\<forall>k. addr_of k \<noteq> [] \<and> \<not> hasControlBytes (addr_of k))"

text \<open>A fresh connection to such a daemon, and one on which nothing is refused.\<close>

definition talking :: "(string \<Rightarrow> string) \<Rightarrow> tor_conn \<Rightarrow> bool" where
  "talking addr_of t \<longleftrightarrow> tc_in t = [] \<and> tor_daemon_ok addr_of t"

definition tor_accepts :: "tor_conn \<Rightarrow> bool" where
  "tor_accepts t \<longleftrightarrow> tc_up t \<and> (\<forall>s. tc_cut t s = None)
   \<and> (\<forall>h c. auth_cmd c \<longrightarrow> \<not> refusal_text (tc_daemon t h (c @ crlf)))
   \<and> (\<forall>h target k. onion_key k \<longrightarrow> \<not> refusal_text (tc_daemon t h (add_onion_cmd k target [] @ crlf)))"

lemma body_ok_plain: "\<not> hasControlBytes b \<Longrightarrow> body_ok b"
  by (cases b rule: rev_cases) (auto simp: body_ok_def hasControlBytes_def list_ex_iff newline_def)

lemma refusal_read: "refusal_text s \<Longrightarrow> \<exists>ls n e. reply_loop [] s = ((ls, n, Some e), [])"
  using reply_loop_text [of _ _ "[]" "[]"]
  by (auto simp: refusal_text_def reply_loop.simps [of "[]" "[]"] ReadString_def)

lemma accept_read:
  "bs \<noteq> [] \<Longrightarrow> list_all body_ok bs \<Longrightarrow> reply_loop [] (reply_text (code3 250) bs) = ((bs, 250, None), [])"
  using reply_loop_text [of 250 bs "[]" "[]"] by simp

lemma send_talks:
  assumes "tc_in t = []" and "send c t = (e, t1)"
  shows "tc_daemon t1 = tc_daemon t \<and> tc_cut t1 = tc_cut t
     \<and> (e = None \<longrightarrow> tc_in t1 = tc_daemon t (tc_out t) (c @ crlf) \<and> tc_up t1 = tc_up t)
     \<and> (e \<noteq> None \<longrightarrow> tc_in t1 = [] \<and> \<not> tor_accepts t)"
  using assms by (auto simp: send_def Let_def tor_accepts_def split: if_splits option.splits)

lemma readReply_talks: "tc_in t = s \<Longrightarrow> reply_loop [] s = (r, []) \<Longrightarrow> readReply t = (r, t\<lparr>tc_in := []\<rparr>)"
  by (simp add: readReply_def)

lemma command_talks:
  assumes "talking addr_of t" and "auth_cmd c" and "command c t = (e, t1)"
  shows "talking addr_of t1 \<and> (tor_accepts t \<longrightarrow> e = None \<and> tor_accepts t1)"
proof -
  obtain se t0 where s: "send c t = (se, t0)" by fastforce
  note k = send_talks [OF _ s]
  have i: "tc_in t = []" using assms(1) by (simp add: talking_def)
  show ?thesis
  proof (cases se)
    case (Some x)
    with s k [OF i] assms show ?thesis by (simp add: command_def talking_def tor_daemon_ok_def)
  next
    case None
    let ?s = "tc_daemon t (tc_out t) (c @ crlf)"
    have "refusal_text ?s \<or> ?s = reply_text (code3 250) [''OK'']"
      using assms(1,2) by (simp add: talking_def tor_daemon_ok_def)
    then obtain ls n x where r: "reply_loop [] ?s = ((ls, n, x), [])" and x: "refusal_text ?s \<or> x = None"
      using refusal_read [of ?s] accept_read [of "[''OK'']"] by (auto simp: body_ok_plain)
    from readReply_talks [OF _ r, of t0] s None k [OF i] assms(3)
    have t1: "e = x" "t1 = t0\<lparr>tc_in := []\<rparr>" by (simp_all add: command_def)
    with k [OF i] None assms(1,2) x show ?thesis
      by (auto simp: talking_def tor_daemon_ok_def tor_accepts_def)
  qed
qed

lemma rest_talks:
  assumes "talking addr_of t" and "authenticate_rest pw t = (e, t1)"
  shows "talking addr_of t1 \<and> (tor_accepts t \<and> \<not> hasControlBytes pw \<longrightarrow> e = None \<and> tor_accepts t1)"
  using assms command_talks [OF assms(1) auth_cmd_plain] command_talks [OF assms(1) auth_cmd_quoted [of pw]]
  by (auto simp: authenticate_rest_def AuthenticatePassword_def Let_def split: if_splits)

lemma Auto_talks:
  assumes "talking addr_of t" and "AuthenticateAuto f pw w t = (e, t1)"
  shows "talking addr_of t1 \<and> (tor_accepts t \<and> \<not> hasControlBytes pw \<longrightarrow> e = None \<and> tor_accepts t1)"
proof (cases "f = []")
  case True
  with assms rest_talks show ?thesis by (simp add: AuthenticateAuto_def)
next
  case False
  obtain ce t2 where c: "AuthenticateCookie f w t = (ce, t2)" by fastforce
  have "talking addr_of t2 \<and> (tor_accepts t \<longrightarrow> tor_accepts t2)"
    using c assms(1) command_talks [OF assms(1) auth_cmd_hex]
    by (auto simp: AuthenticateCookie_def split: sum.splits)
  with False c assms(2) rest_talks [of addr_of t2 pw e t1] show ?thesis
    by (cases ce) (auto simp: AuthenticateAuto_def)
qed

lemma add_onion_talks:
  assumes "tc_in t = []" and "add_onion c t = (r, t1)" and "bs \<noteq> []" and "list_all body_ok bs"
    and "refusal_text (tc_daemon t (tc_out t) (c @ crlf)) \<or> tc_daemon t (tc_out t) (c @ crlf) = reply_text (code3 250) bs"
  shows "case r of Inl e \<Rightarrow> \<not> tor_accepts t \<or> refusal_text (tc_daemon t (tc_out t) (c @ crlf)) | Inr lines \<Rightarrow> lines = bs"
proof -
  obtain se t0 where s: "send c t = (se, t0)" by fastforce
  note k = send_talks [OF assms(1) s]
  show ?thesis
  proof (cases se)
    case (Some x)
    with s k assms(2) show ?thesis by (auto simp: add_onion_def)
  next
    case None
    let ?s = "tc_daemon t (tc_out t) (c @ crlf)"
    have i: "tc_in t0 = ?s" using k None by simp
    from assms(5) show ?thesis
    proof
      assume ref: "refusal_text ?s"
      then obtain ls n e where "reply_loop [] ?s = ((ls, n, Some e), [])" using refusal_read by blast
      from readReply_talks [OF i this] s None assms(2) have "r = Inl e" by (simp add: add_onion_def)
      with ref show ?thesis by simp
    next
      assume "?s = reply_text (code3 250) bs"
      with accept_read [OF assms(3,4)] have "reply_loop [] ?s = ((bs, 250, None), [])" by simp
      from readReply_talks [OF i this] s None assms(2) have "r = Inr bs" by (simp add: add_onion_def)
      then show ?thesis by simp
    qed
  qed
qed

lemma add_onion_refused:
  assumes "tc_in t = []" and "add_onion c t = (Inr lines, t1)"
  shows "\<not> refusal_text (tc_daemon t (tc_out t) (c @ crlf))"
proof
  assume ref: "refusal_text (tc_daemon t (tc_out t) (c @ crlf))"
  obtain t0 where s: "send c t = (None, t0)"
    using assms(2) by (auto simp: add_onion_def split: prod.splits option.splits)
  have i: "tc_in t0 = tc_daemon t (tc_out t) (c @ crlf)" using send_talks [OF assms(1) s] by simp
  obtain ls n e where "reply_loop [] (tc_daemon t (tc_out t) (c @ crlf)) = ((ls, n, Some e), [])"
    using refusal_read [OF ref] by blast
  from readReply_talks [OF i this] s assms(2) show False by (simp add: add_onion_def)
qed

lemma talk_key:
  assumes "talking addr_of t" and "onion_key k" and "AddOnionExistingKey k addr [] t = (r, t1)"
  shows "case r of Inl e \<Rightarrow> \<not> (tor_accepts t \<and> \<not> hasControlBytes addr) | Inr sid \<Rightarrow> sid = addr_of k"
proof (cases "hasControlBytes addr")
  case True
  with assms(2,3) show ?thesis by (auto simp: AddOnionExistingKey_def onion_key_def)
next
  case False
  let ?c = "add_onion_cmd k addr []" and ?bs = "[''ServiceID='' @ addr_of k, ''OK'']"
  obtain r1 t2 where a: "add_onion ?c t = (r1, t2)" by fastforce
  have "list_all body_ok ?bs" using assms(1) by (simp add: body_ok_plain talking_def tor_daemon_ok_def)
  moreover have "refusal_text (tc_daemon t (tc_out t) (?c @ crlf)) \<or> tc_daemon t (tc_out t) (?c @ crlf) = reply_text (code3 250) ?bs"
    using assms(1,2) by (simp add: talking_def tor_daemon_ok_def)
  ultimately have "case r1 of Inl e \<Rightarrow> \<not> tor_accepts t \<or> refusal_text (tc_daemon t (tc_out t) (?c @ crlf)) | Inr lines \<Rightarrow> lines = ?bs"
    using assms(1) by (intro add_onion_talks [OF _ a]) (simp_all add: talking_def)
  then have "case r1 of Inl e \<Rightarrow> \<not> tor_accepts t | Inr lines \<Rightarrow> lines = ?bs"
    using assms(2) by (auto simp: tor_accepts_def split: sum.splits)
  with a False assms(2,3) show ?thesis
    by (cases r1) (auto simp: AddOnionExistingKey_def onion_key_def TrimPrefix_def)
qed

lemma talk_new:
  assumes "talking addr_of t" and "AddOnionV3 addr [] t = (Inr (sid, key), t1)"
  shows "printable_key key \<and> sid = addr_of key"
proof -
  let ?c = "add_onion_cmd ''NEW:ED25519-V3'' addr []" and ?s = "tc_daemon t (tc_out t) (add_onion_cmd ''NEW:ED25519-V3'' addr [] @ crlf)"
  obtain lines t2 where a: "add_onion ?c t = (Inr lines, t2)"
    using assms(2) by (auto simp: AddOnionV3_def split: if_splits prod.splits sum.splits)
  have i: "tc_in t = []" using assms(1) by (simp add: talking_def)
  have "\<not> refusal_text ?s" using add_onion_refused [OF i a] by blast
  then obtain k where k: "printable_key k"
    and r: "?s = reply_text (code3 250) [''ServiceID='' @ addr_of k, ''PrivateKey='' @ k, ''OK'']"
    using assms(1) unfolding talking_def tor_daemon_ok_def by meson
  let ?bs = "[''ServiceID='' @ addr_of k, ''PrivateKey='' @ k, ''OK'']"
  have "list_all body_ok ?bs"
    using assms(1) k by (simp add: body_ok_plain talking_def tor_daemon_ok_def printable_key_def onion_key_def)
  with add_onion_talks [OF i a, of ?bs] r have "lines = ?bs" by simp
  with a show ?thesis
    using assms(2) k by (auto simp: AddOnionV3_def onion_line_def TrimPrefix_def split: if_splits)
qed

lemma tor_paths:
  assumes "list_all plain_comp d"
  shows "ingressKeyPath d = d @ [''tor'', ''ingress.key'']" "addressesPath d = d @ [''tor'', ''addresses.txt'']"
  using assms by (simp_all add: ingressKeyPath_def addressesPath_def join_comps_plain plain_comp_def slash_def)

lemma register_key:
  assumes "talking addr_of t" and "register_onion p addr priv t w = (Inr sid, t1, w1)"
    and "priv \<noteq> [] \<longrightarrow> rd (os_root w) p = Some priv"
  shows "\<exists>b. rd (os_root w1) p = Some b \<and> b \<noteq> [] \<and> onion_key (TrimSpace (str_of b)) \<and> sid = addr_of (TrimSpace (str_of b))"
proof (cases "priv = []")
  case True
  then obtain key where a: "AddOnionV3 addr [] t = (Inr (sid, key), t1)"
    and wr: "os_WriteFile p (bytes_of key) w = (None, w1)"
    using assms(2) by (auto simp: register_onion_def split: prod.splits sum.splits option.splits)
  note k = talk_new [OF assms(1) a]
  have "TrimSpace key = key" by (rule TrimSpace_plain) (use k in \<open>auto simp: printable_key_def list_all_iff\<close>)
  moreover have "bytes_of key \<noteq> []" using k by (auto simp: printable_key_def onion_key_def bytes_of_def)
  ultimately show ?thesis using k WriteFile_read [OF wr] by (simp add: printable_key_def)
next
  case False
  let ?k = "TrimSpace (str_of priv)"
  from False assms(2) have a: "AddOnionExistingKey ?k addr [] t = (Inr sid, t1)" and w: "w1 = w"
    by (auto simp: register_onion_def split: prod.splits)
  then have "onion_key ?k" "\<not> hasControlBytes addr"
    by (auto simp: AddOnionExistingKey_def onion_key_def split: if_splits)
  with talk_key [OF assms(1) this(1) a] have "onion_key ?k" "sid = addr_of ?k" by auto
  with False assms(3) w show ?thesis by auto
qed

lemma persist_keeps:
  assumes "list_all plain_comp d"
  shows "rd (os_root (snd (persistOnionAddrs d cfg w))) (ingressKeyPath d) = rd (os_root w) (ingressKeyPath d)"
proof -
  let ?r = "persistOnionAddrs d cfg w"
  have "writes {addressesPath d} w (snd ?r)"
    unfolding persistOnionAddrs_def Let_def by (rule writes_WriteFile [OF surjective_pairing])
  moreover have "ingressKeyPath d \<notin> {addressesPath d}" using tor_paths [OF assms] by simp
  ultimately show ?thesis by (rule writes_rd)
qed

lemma setupTor_stored:
  assumes "list_all plain_comp d" and "DialTorControl dial (tor_ControlAddr (cfg_Tor cfg)) = Inr u"
    and "talking addr_of u" and "os_fault w OpRead (ingressKeyPath d) = NoFault"
    and "rd (os_root w) (ingressKeyPath d) = Some b" and "b \<noteq> []" and "onion_key (TrimSpace (str_of b))"
    and "setupTor dial cfg d addr w = (r, u1, w1)"
  shows "rd (os_root w1) (ingressKeyPath d) = Some b
    \<and> (case r of
         Inl e \<Rightarrow> \<not> (tor_accepts u \<and> \<not> hasControlBytes (tor_ControlPassword (cfg_Tor cfg)) \<and> \<not> hasControlBytes addr)
       | Inr (cfg1, sid) \<Rightarrow> sid = addr_of (TrimSpace (str_of b)) \<and> cfg1 = set_ingress sid cfg)"
proof -
  let ?p = "ingressKeyPath d"
  obtain ae ub where a: "AuthenticateAuto (tor_CookieAuthFile (cfg_Tor cfg)) (tor_ControlPassword (cfg_Tor cfg)) w u = (ae, ub)"
    by fastforce
  note t = Auto_talks [OF assms(3) a]
  show ?thesis
  proof (cases ae)
    case (Some e)
    with assms(5,8) t show ?thesis by (auto simp: setupTor_def assms(2) a)
  next
    case None
    obtain me wc where mk: "os_MkdirAll (butlast ?p) w = (me, wc)" by fastforce
    have b: "rd (os_root wc) ?p = Some b" using assms(5) by (simp add: MkdirAll_rd [OF mk])
    moreover have "os_fault wc = os_fault w"
      using mk by (auto simp: os_MkdirAll_def split: if_splits option.splits)
    ultimately have rd: "os_ReadFile ?p wc = Inr b" using assms(4) by (simp add: ReadFile_iff)
    obtain kr uc where k: "AddOnionExistingKey (TrimSpace (str_of b)) addr [] ub = (kr, uc)" by fastforce
    then have reg: "register_onion ?p addr b ub wc = (kr, uc, wc)"
      using assms(6) by (simp add: register_onion_def)
    from assms(8) None show ?thesis
      using talk_key [OF conjunct1 [OF t] assms(7) k] t b
      by (cases kr)
        (auto simp: setupTor_def assms(2) a mk rd reg Let_def persist_keeps [OF assms(1)] b)
  qed
qed

text \<open>C31: the address of the service survives restarts.  Once the onion service has been set up, under a
  new key or under the stored one, let a later set-up find the key file unchanged and be able to
  read it; the target, the password and the rest of the configuration may have changed.  Then it
  leaves the key file alone, and if it succeeds, the address is the same.  Tor may refuse: the
  set-up fails then, and with another address it never succeeds.  It does succeed if Tor refuses
  nothing and neither the password nor the target has control bytes.\<close>

theorem onion_address_stable:
  assumes "list_all plain_comp d"
    and "DialTorControl dial (tor_ControlAddr (cfg_Tor cfg)) = Inr t" and "talking addr_of t"
    and "setupTor dial cfg d addr w = (Inr (cfg1, sid), t1, w1)"
    and "os_fault w2 OpRead (ingressKeyPath d) = NoFault"
    and "rd (os_root w2) (ingressKeyPath d) = rd (os_root w1) (ingressKeyPath d)"
    and "DialTorControl dial2 (tor_ControlAddr (cfg_Tor cfg2)) = Inr u" and "talking addr_of u"
    and "setupTor dial2 cfg2 d addr2 w2 = (r, u1, w3)"
  shows "rd (os_root w3) (ingressKeyPath d) = rd (os_root w1) (ingressKeyPath d)
    \<and> (case r of
         Inl e \<Rightarrow> \<not> (tor_accepts u \<and> \<not> hasControlBytes (tor_ControlPassword (cfg_Tor cfg2))
                    \<and> \<not> hasControlBytes addr2)
       | Inr (cfg3, sid3) \<Rightarrow> sid3 = sid \<and> cfg3 = set_ingress sid cfg2)"
proof -
  let ?p = "ingressKeyPath d"
  obtain ta priv wa wb where
    ta: "AuthenticateAuto (tor_CookieAuthFile (cfg_Tor cfg)) (tor_ControlPassword (cfg_Tor cfg)) w t = (None, ta)"
    and reg: "register_onion ?p addr priv ta wa = (Inr sid, the t1, wb)"
    and priv: "priv \<noteq> [] \<longrightarrow> rd (os_root wa) ?p = Some priv"
    and w1: "w1 = snd (persistOnionAddrs d cfg1 wb)"
    using assms(2,4)
    by (auto simp: setupTor_def Let_def ReadFile_iff split: prod.splits option.splits sum.splits)
  obtain b where b: "rd (os_root wb) ?p = Some b" "b \<noteq> []" "onion_key (TrimSpace (str_of b))"
    "sid = addr_of (TrimSpace (str_of b))"
    using register_key [OF conjunct1 [OF Auto_talks [OF assms(3) ta]] reg priv] by blast
  then have "rd (os_root w1) ?p = Some b" by (simp add: w1 persist_keeps [OF assms(1)])
  with setupTor_stored [OF assms(1,7,8,5) _ b(2,3) assms(9)] assms(6) b(4) show ?thesis by (auto split: sum.splits)
qed

section \<open>Instances\<close>

text \<open>A daemon with one key, whose address is \<open>abc\<close>, and one that wants a password.\<close>

definition demo_key :: string where "demo_key = ''ED25519-V3:k''"

definition demo_daemon :: "string \<Rightarrow> string \<Rightarrow> string" where
  "demo_daemon h line =
     (if HasPrefix line ''AUTHENTICATE'' then reply_text (code3 250) [''OK'']
      else if HasPrefix line ''ADD_ONION NEW:''
      then reply_text (code3 250) [''ServiceID=abc'', ''PrivateKey='' @ demo_key, ''OK'']
      else reply_text (code3 250) [''ServiceID=abc'', ''OK''])"

definition demo_tor :: tor_conn where
  "demo_tor = \<lparr>tc_out = [], tc_in = [], tc_up = True, tc_cut = (\<lambda>_. None), tc_daemon = demo_daemon\<rparr>"

definition stern_daemon :: "string \<Rightarrow> string \<Rightarrow> string" where
  "stern_daemon h line = (if line = ''AUTHENTICATE'' @ crlf
     then reply_text (code3 515) [''Authentication failed''] else demo_daemon h line)"

definition stern_tor :: tor_conn where
  "stern_tor = demo_tor\<lparr>tc_daemon := stern_daemon\<rparr>"

definition demo_dial :: "string \<Rightarrow> string \<Rightarrow> error + tor_conn" where
  "demo_dial network target = Inr demo_tor"

definition stern_dial :: "string \<Rightarrow> string \<Rightarrow> error + tor_conn" where
  "stern_dial network target = Inr stern_tor"

lemma demo_printable: "printable_key demo_key"
  by (simp add: printable_key_def onion_key_def demo_key_def ContainsAny_def space_char_def ordc_def)

lemma demo_answers:
  "auth_cmd c \<Longrightarrow> demo_daemon h (c @ crlf) = reply_text (code3 250) [''OK'']"
  "demo_daemon h (add_onion_cmd ''NEW:ED25519-V3'' target [] @ crlf)
      = reply_text (code3 250) [''ServiceID=abc'', ''PrivateKey='' @ demo_key, ''OK'']"
  "onion_key k \<Longrightarrow> demo_daemon h (add_onion_cmd k target [] @ crlf) = reply_text (code3 250) [''ServiceID=abc'', ''OK'']"
  by (auto simp: demo_daemon_def auth_cmd_def add_onion_cmd_def onion_key_def HasPrefix_iff)

lemma demo_talking: "talking (\<lambda>_. ''abc'') demo_tor"
  using demo_printable by (auto simp: talking_def tor_daemon_ok_def demo_tor_def demo_answers)

lemma stern_talking: "talking (\<lambda>_. ''abc'') stern_tor"
proof -
  have "refusal_text (reply_text (code3 515) [''Authentication failed''])"
    unfolding refusal_text_def by (intro disjI2 exI [of _ 515] exI [of _ "[''Authentication failed'']"]) (simp add: body_ok_plain)
  then show ?thesis using demo_printable
    by (auto simp: talking_def tor_daemon_ok_def stern_tor_def demo_tor_def stern_daemon_def demo_answers)
qed

lemma demo_accepts: "tor_accepts demo_tor"
proof -
  have "\<not> refusal_text (reply_text (code3 250) bs)" if "bs \<noteq> []" "list_all body_ok bs" for bs
    using refusal_read accept_read [OF that] by fastforce
  then show ?thesis by (simp add: tor_accepts_def demo_tor_def demo_answers body_ok_plain)
qed

lemma demo_dials: "DialTorControl demo_dial a = Inr demo_tor" "DialTorControl stern_dial a = Inr stern_tor"
  by (simp_all add: DialTorControl_def demo_dial_def stern_dial_def split: prod.split)

theorem setupTor_commands_witness:
  "\<exists>r t' w'. setupTor demo_dial DefaultConfig [] ''127.0.0.1:8080'' demo_os = (r, Some t', w')
     \<and> (\<exists>auths adds. prefix (tc_out t') (wire (auths @ adds)) \<and> length auths \<le> 2 \<and> length adds \<le> 1
         \<and> list_all auth_cmd auths \<and> list_all (add_cmd ''127.0.0.1:8080'') adds)"
proof -
  obtain r t' w' where s: "setupTor demo_dial DefaultConfig [] ''127.0.0.1:8080'' demo_os = (r, Some t', w')"
    using setupTor_conn [OF demo_dials(1)] by blast
  from setupTor_commands [OF s demo_dials(1)] s show ?thesis by (simp add: demo_tor_def)
qed

definition tor_disk :: os where
  "tor_disk = demo_os\<lparr>os_root := Dir [(''tor'', Dir [(''ingress.key'', File (bytes_of demo_key))])]\<rparr>"

theorem onion_address_stable_witness:
  "\<exists>u1 w3 r u2 w4. setupTor demo_dial DefaultConfig [] ''127.0.0.1:9090'' tor_disk
       = (Inr (set_ingress ''abc'' DefaultConfig, ''abc''), Some u1, w3)
     \<and> setupTor stern_dial DefaultConfig [] ''127.0.0.1:9090'' (w3\<lparr>os_fault := \<lambda>_ _. NoFault\<rparr>) = (r, u2, w4)
     \<and> rd (os_root w4) (ingressKeyPath []) = Some (bytes_of demo_key)"
proof -
  have tr: "TrimSpace demo_key = demo_key"
    by (rule TrimSpace_plain) (use demo_printable in \<open>auto simp: printable_key_def list_all_iff\<close>)
  have rd: "rd (os_root tor_disk) (ingressKeyPath []) = Some (bytes_of demo_key)"
    by (simp add: tor_paths tor_disk_def rd_def)
  have pw: "\<not> hasControlBytes (tor_ControlPassword (cfg_Tor DefaultConfig))" by (simp add: DefaultConfig_def)
  have ne: "bytes_of demo_key \<noteq> []" by (simp add: demo_key_def bytes_of_def)
  have ok: "onion_key (TrimSpace (str_of (bytes_of demo_key)))"
    using demo_printable by (simp add: tr printable_key_def)
  have f: "os_fault tor_disk OpRead (ingressKeyPath []) = NoFault" by (simp add: tor_disk_def demo_os_def)
  obtain r0 u1 w3 where s: "setupTor demo_dial DefaultConfig [] ''127.0.0.1:9090'' tor_disk = (r0, Some u1, w3)"
    using setupTor_conn [OF demo_dials(1)] by blast
  have same: "rd (os_root w3) (ingressKeyPath []) = Some (bytes_of demo_key)"
    and r0: "r0 = Inr (set_ingress ''abc'' DefaultConfig, ''abc'')"
    using setupTor_stored [OF _ demo_dials(1) demo_talking f rd ne ok s] demo_accepts pw
    by (auto simp: tr split: sum.splits)
  let ?w = "w3\<lparr>os_fault := \<lambda>_ _. NoFault\<rparr>"
  obtain r u2 w4 where s2: "setupTor stern_dial DefaultConfig [] ''127.0.0.1:9090'' ?w = (r, Some u2, w4)"
    using setupTor_conn [OF demo_dials(2)] by blast
  have "rd (os_root w4) (ingressKeyPath []) = Some (bytes_of demo_key)"
    using onion_address_stable [OF _ demo_dials(1) demo_talking s [unfolded r0] _ _ demo_dials(2) stern_talking s2] same
    by simp
  with s [unfolded r0] s2 show ?thesis by blast
qed

end
