(* ===== verification/Shred.thy ===== *)
theory Shred
  imports Fs_Laws
begin

text \<open>
  \<open>shredDir\<close> of \<open>internal/kakekomi/store.go\<close>: every regular file below a directory is
  overwritten with zeros and unlinked, then the directory itself is removed.

  The world record extends the operating system by \<open>sh_log\<close>, a record of the write, unlink
  and rmdir calls that \<open>shredDir\<close> makes, in order, so that the order of overwriting and
  unlinking can be stated.  The recursion follows the node that \<open>os.ReadDir\<close> reported: while
  a subdirectory waits for its turn only its siblings change.
\<close>

datatype shred_event = Zeroed path nat | Unlinked path | Rmdired path

record shred_os = os +
  sh_log :: "shred_event list"

definition os_ReadDir :: "path \<Rightarrow> 'a os_scheme \<Rightarrow> error + (string \<times> node) list" where
  "os_ReadDir p w =
     (if os_fault w OpReadDir p \<noteq> NoFault then Inl (ErrIO ''readdir'')
      else case node_at p (os_root w) of
        None \<Rightarrow> Inl ErrNotExist
      | Some (File _) \<Rightarrow> Inl (ErrIO ''not a directory'')
      | Some (Dir es) \<Rightarrow> Inr es)"

definition os_Remove :: "path \<Rightarrow> 'a os_scheme \<Rightarrow> error option \<times> 'a os_scheme" where
  "os_Remove p w =
     (if os_fault w OpRemove p \<noteq> NoFault then (Some (ErrIO ''remove''), w)
      else case node_at p (os_root w) of
        None \<Rightarrow> (Some ErrNotExist, w)
      | Some (Dir (e # es)) \<Rightarrow> (Some (ErrIO ''directory not empty''), w)
      | Some _ \<Rightarrow> (None, w\<lparr>os_root := del_node p (os_root w)\<rparr>))"

definition log_ev :: "shred_event \<Rightarrow> 'a shred_os_scheme \<Rightarrow> 'a shred_os_scheme" where
  "log_ev e w = w\<lparr>sh_log := sh_log w @ [e]\<rparr>"

definition shred_file :: "path \<Rightarrow> 'a shred_os_scheme \<Rightarrow> error option \<times> 'a shred_os_scheme" where
  "shred_file p w =
     (case os_Stat_size p w of
        Inl e \<Rightarrow> (Some e, w)
      | Inr sz \<Rightarrow>
          (let zeros = replicate (nat sz) 0;
               w1 = log_ev (Zeroed p (nat sz)) (snd (os_WriteFile p zeros w));
               w2 = log_ev (Unlinked p) (snd (os_Remove p w1))
           in (None, w2)))"

fun shred_node :: "path \<Rightarrow> node \<Rightarrow> 'a shred_os_scheme \<Rightarrow> error option \<times> 'a shred_os_scheme"
  and shred_entries :: "path \<Rightarrow> (string \<times> node) list \<Rightarrow> 'a shred_os_scheme
        \<Rightarrow> error option \<times> 'a shred_os_scheme" where
  "shred_node p (File b) w = shred_file p w"
| "shred_node p (Dir es) w =
     (if os_fault w OpReadDir p \<noteq> NoFault then (Some (ErrIO ''readdir''), w)
      else case shred_entries p es w of
        (Some e, w1) \<Rightarrow> (Some e, w1)
      | (None, w1) \<Rightarrow> (case os_Remove p w1 of (r, w2) \<Rightarrow> (r, log_ev (Rmdired p) w2)))"
| "shred_entries p [] w = (None, w)"
| "shred_entries p ((c, n) # es) w =
     (case shred_node (p @ [c]) n w of
        (Some e, w1) \<Rightarrow> (Some e, w1)
      | (None, w1) \<Rightarrow> shred_entries p es w1)"

definition shredDir :: "path \<Rightarrow> 'a shred_os_scheme \<Rightarrow> error option \<times> 'a shred_os_scheme" where
  "shredDir p w =
     (case os_ReadDir p w of
        Inl e \<Rightarrow> (Some e, w)
      | Inr es \<Rightarrow> shred_node p (Dir es) w)"

section \<open>What every call leaves alone\<close>

text \<open>\<open>below p w w'\<close>: the second world differs from the first only below path \<open>p\<close>.\<close>

definition below :: "path \<Rightarrow> 'a shred_os_scheme \<Rightarrow> 'a shred_os_scheme \<Rightarrow> bool" where
  "below p w w' \<longleftrightarrow> (\<forall>q. \<not> prefix p q \<longrightarrow> rd (os_root w') q = rd (os_root w) q)
     \<and> os_fault w' = os_fault w \<and> os_now w' = os_now w \<and> os_rng w' = os_rng w
     \<and> (wf_node (os_root w) \<longrightarrow> wf_node (os_root w'))
     \<and> shred_os.more w' = shred_os.more w"

lemma below_refl [simp, intro]: "below p w w"
  by (simp add: below_def)

lemma below_trans [trans]: "below p w w' \<Longrightarrow> below p w' w'' \<Longrightarrow> below p w w''"
  by (simp add: below_def)

lemma below_mono: "below (p @ q) w w' \<Longrightarrow> below p w w'"
  by (auto simp: below_def dest: append_prefixD)

lemma below_log [simp]: "below p w (log_ev e w)"
  by (simp add: below_def log_ev_def)

lemma below_log_iff [simp]: "below p w (log_ev e w') \<longleftrightarrow> below p w w'"
  by (simp add: below_def log_ev_def)

lemma below_root:
  "(\<And>q. \<not> prefix p q \<Longrightarrow> rd n q = rd (os_root w) q) \<Longrightarrow> (wf_node (os_root w) \<Longrightarrow> wf_node n)
   \<Longrightarrow> below p w (w\<lparr>os_root := n\<rparr>)"
  by (simp add: below_def)

lemma wf_wr: "wf_node n \<Longrightarrow> wr p b n = Some n' \<Longrightarrow> wf_node n'"
  by (auto simp: wr_def split: if_splits intro: wf_put_node [where x = "File b"])

lemma below_WriteFile: "below p w (snd (os_WriteFile p b w))"
  by (auto simp: os_WriteFile_def rd_wr_other wf_wr split: fault.splits option.splits
      intro!: below_root)

lemma rd_del_outside: "\<not> prefix p q \<Longrightarrow> rd (del_node p n) q = rd n q"
  by (cases "p = []") (auto simp: rd_del)

lemma below_Remove: "below p w (snd (os_Remove p w))"
  by (auto simp: os_Remove_def rd_del_outside wf_del_node split: option.splits node.splits list.splits
      intro!: below_root)

lemma below_RemoveAll: "below p w (snd (os_RemoveAll p w))"
  by (auto simp: os_RemoveAll_def rd_del_outside wf_del_node intro!: below_root)

lemma below_shred_file: "below p w (snd (shred_file p w))"
  by (auto simp: shred_file_def Let_def split: sum.splits
      intro: below_trans [OF below_WriteFile below_trans [OF below_log below_Remove]])

lemma below_shred_node:
  fixes w :: "'a shred_os_scheme"
  shows "below p w (snd (shred_node p n w))"
    and "below p w (snd (shred_entries p es w))"
proof (induction p n w and p es w rule: shred_node_shred_entries.induct)
  case (1 p b w)
  then show ?case by (simp add: below_shred_file)
next
  case (2 p es w)
  then show ?case
    by (auto split: option.splits prod.splits) 
      (metis below_Remove below_trans snd_conv)+
next
  case (3 p w)
  then show ?case by simp
next
  case (4 p c n es w)
  then show ?case
    by (auto split: option.splits prod.splits dest: below_mono) 
      (metis below_mono below_trans snd_conv)+
qed

lemma below_shredDir: "below p w (snd (shredDir p w))"
  by (auto simp: shredDir_def below_shred_node simp del: shred_node.simps split: sum.splits)

section \<open>Shredding on a disk that removes\<close>

lemma put_node_exists: "node_at p n = Some m \<Longrightarrow> \<exists>n'. put_node p x n = Some n'"
proof (induction p n rule: node_at.induct)
  case (3 c cs es)
  then show ?case by (auto split: option.splits)
qed auto

text \<open>The disk does not refuse to list, to stat or to remove; it may refuse to write, which \<open>shredDir\<close>
  does not look at.\<close>

definition removes_ok :: "'a os_scheme \<Rightarrow> bool" where
  "removes_ok w \<longleftrightarrow> (\<forall>p. os_fault w OpRemove p = NoFault \<and> os_fault w OpReadDir p = NoFault
     \<and> os_fault w OpStat p = NoFault)"

lemma no_faults_removes: "no_faults w \<Longrightarrow> removes_ok w"
  by (simp add: no_faults_def removes_ok_def)

lemma removes_ok_below: "below p w w' \<Longrightarrow> removes_ok w \<Longrightarrow> removes_ok w'"
  by (simp add: below_def removes_ok_def)

lemma wf_below: "below p w w' \<Longrightarrow> wf_node (os_root w) \<Longrightarrow> wf_node (os_root w')"
  by (simp add: below_def)

lemma write_over:
  assumes "p \<noteq> []" and "node_at p (os_root w) = Some (File b)"
  shows "\<exists>c. node_at p (os_root (snd (os_WriteFile p d w))) = Some (File c)"
    and "del_node p (os_root (snd (os_WriteFile p d w))) = del_node p (os_root w)"
proof -
  have w: "\<exists>n. wr p c (os_root w) = Some n \<and> node_at p n = Some (File c) \<and> del_node p n = del_node p (os_root w)" for c
  proof -
    from put_node_exists [OF assms(2)] obtain n where n: "put_node p (File c) (os_root w) = Some n" by blast
    with assms(2) have "wr p c (os_root w) = Some n" by (simp add: wr_def is_dir_def)
    with node_at_put [OF n] del_absorbs_put [of p "[]"] n assms(1) show ?thesis by simp
  qed
  have "(\<exists>c. node_at p (os_root (snd (os_WriteFile p d w))) = Some (File c))
    \<and> del_node p (os_root (snd (os_WriteFile p d w))) = del_node p (os_root w)"
  proof (cases "os_fault w OpWrite p")
    case NoFault
    with w [of d] show ?thesis by (auto simp: os_WriteFile_def)
  next
    case Refused
    with assms(2) show ?thesis by (auto simp: os_WriteFile_def)
  next
    case (Short k)
    with w [of "take k d"] show ?thesis by (auto simp: os_WriteFile_def)
  qed
  then show "\<exists>c. node_at p (os_root (snd (os_WriteFile p d w))) = Some (File c)"
    "del_node p (os_root (snd (os_WriteFile p d w))) = del_node p (os_root w)" by blast+
qed

lemma shred_file_clean:
  assumes "removes_ok w" and "p \<noteq> []" and "node_at p (os_root w) = Some (File b)"
  shows "\<exists>w'. shred_file p w = (None, w') \<and> os_root w' = del_node p (os_root w)
    \<and> sh_log w' = sh_log w @ [Zeroed p (length b), Unlinked p]"
proof -
  obtain e w1 where wr: "os_WriteFile p (replicate (length b) 0) w = (e, w1)" by fastforce
  note over = write_over [OF assms(2,3), of "replicate (length b) 0", unfolded wr snd_conv]
  have "below p w w1" using below_WriteFile [where p = p and w = w and b = "replicate (length b) 0"] by (simp add: wr)
  then have "removes_ok w1" using assms(1) by (rule removes_ok_below)
  moreover have "sh_log w1 = sh_log w"
    using wr by (auto simp: os_WriteFile_def split: fault.splits option.splits)
  ultimately show ?thesis using assms(1,3) over
    by (auto simp: shred_file_def os_Stat_size_def removes_ok_def os_Remove_def wr log_ev_def Let_def)
qed

definition del_keys :: "string list \<Rightarrow> (string \<times> node) list \<Rightarrow> (string \<times> node) list" where
  "del_keys ks es = fold al_del ks es"

lemma del_keys_all: "del_keys (map fst es) es = []"
proof -
  have "set (fold al_del ks fs) = {e \<in> set fs. fst e \<notin> set ks}" for ks and fs :: "(string \<times> node) list"
    by (induction ks arbitrary: fs) (auto simp: al_del_def)
  then have "set (del_keys (map fst es) es) = {}" by (auto simp: del_keys_def)
  then show ?thesis by simp
qed

fun shred_plan :: "path \<Rightarrow> node \<Rightarrow> shred_event list"
  and plan_entries :: "path \<Rightarrow> (string \<times> node) list \<Rightarrow> shred_event list" where
  "shred_plan p (File b) = [Zeroed p (length b), Unlinked p]"
| "shred_plan p (Dir es) = plan_entries p es @ [Rmdired p]"
| "plan_entries p [] = []"
| "plan_entries p ((c, n) # es) = shred_plan (p @ [c]) n @ plan_entries p es"

lemma plan_covers:
  shows "rd n q = Some b \<Longrightarrow> Zeroed (p @ q) (length b) \<in> set (shred_plan p n)"
    and "rd (Dir es) q = Some b \<Longrightarrow> Zeroed (p @ q) (length b) \<in> set (plan_entries p es)"
proof (induction p n and p es arbitrary: q and q rule: shred_plan_plan_entries.induct)
  case (1 p c)
  then show ?case by (cases q) (auto simp: rd_def)
next
  case (2 p es)
  then show ?case by simp
next
  case (3 p)
  then show ?case by (cases q) auto
next
  case (4 p c n es)
  then obtain d ds where q: "q = d # ds" by (cases q) auto
  show ?case
  proof (cases "d = c")
    case True
    with 4(1) [of ds] 4(3) q show ?thesis by simp
  next
    case False
    with 4(2) [of q] 4(3) q show ?thesis by simp
  qed
qed

lemma shred_node_clean:
  fixes w :: "'a shred_os_scheme"
  shows "removes_ok w \<Longrightarrow> wf_node (os_root w) \<Longrightarrow> p \<noteq> [] \<Longrightarrow> node_at p (os_root w) = Some n \<Longrightarrow>
      \<exists>w'. shred_node p n w = (None, w') \<and> os_root w' = del_node p (os_root w)
        \<and> sh_log w' = sh_log w @ shred_plan p n"
    and "removes_ok w \<Longrightarrow> wf_node (os_root w) \<Longrightarrow> p \<noteq> [] \<Longrightarrow> node_at p (os_root w) = Some (Dir fs) \<Longrightarrow>
      (\<forall>(c, n) \<in> set es. map_of fs c = Some n) \<Longrightarrow> distinct (map fst es) \<Longrightarrow>
      \<exists>w'. shred_entries p es w = (None, w')
        \<and> node_at p (os_root w') = Some (Dir (del_keys (map fst es) fs))
        \<and> del_node p (os_root w') = del_node p (os_root w)
        \<and> sh_log w' = sh_log w @ plan_entries p es"
proof (induction p n w and p es w arbitrary: and fs rule: shred_node_shred_entries.induct)
  case (1 p b w)
  then show ?case using shred_file_clean [of w p b] by auto
next
  case (2 p es w)
  then have wf: "wf_node (Dir es)" by (metis wf_node_at)
  have f: "os_fault w OpReadDir p = NoFault" using 2(2) by (simp add: removes_ok_def)
  from wf have "\<forall>(c, n) \<in> set es. map_of es c = Some n" "distinct (map fst es)" by auto
  from 2(1) f 2(2-5) this obtain w1 where
    w1: "shred_entries p es w = (None, w1)" "node_at p (os_root w1) = Some (Dir [])"
      "del_node p (os_root w1) = del_node p (os_root w)"
      "sh_log w1 = sh_log w @ plan_entries p es"
    by (auto simp: del_keys_all)
  have "removes_ok w1"
    using below_shred_node(2) [where p = p and es = es and w = w] w1(1) 2(2) by (auto dest: removes_ok_below)
  with w1 f show ?case by (simp add: os_Remove_def removes_ok_def log_ev_def)
next
  case (3 p w)
  then show ?case by (simp add: del_keys_def)
next
  case (4 p c n es w)
  have mc: "map_of fs c = Some n" using 4(7) by auto
  then have "node_at (p @ [c]) (os_root w) = Some n" using 4(6) by (simp add: node_at_append)
  with 4 obtain w1 where w1: "shred_node (p @ [c]) n w = (None, w1)"
    "os_root w1 = del_node (p @ [c]) (os_root w)" "sh_log w1 = sh_log w @ shred_plan (p @ [c]) n"
    by auto
  have b: "below (p @ [c]) w w1" using below_shred_node(1) [where p = "p @ [c]" and n = n and w = w] w1 by simp
  have at: "node_at p (os_root w1) = Some (Dir (al_del c fs))"
    using w1 entries_del [OF 4(6)] by simp
  have m: "\<forall>(d, m) \<in> set es. map_of (al_del c fs) d = Some m"
  proof clarify
    fix d m
    assume dm: "(d, m) \<in> set es"
    with 4(8) have "d \<noteq> c" by (auto simp: image_iff)
    with dm 4(7) show "map_of (al_del c fs) d = Some m" by (auto simp: map_of_al_del)
  qed
  have "\<exists>w'. shred_entries p es w1 = (None, w')
        \<and> node_at p (os_root w') = Some (Dir (del_keys (map fst es) (al_del c fs)))
        \<and> del_node p (os_root w') = del_node p (os_root w1)
        \<and> sh_log w' = sh_log w1 @ plan_entries p es"
    using 4(2) [OF w1(1) [symmetric] refl] removes_ok_below [OF b 4(3)] wf_below [OF b 4(4)] 4(5)
      at m 4(8) by auto
  with w1 show ?case by (simp add: del_keys_def del_absorbs_del 4(5))
qed

lemma shredDir_clean:
  assumes "removes_ok w" and "wf_node (os_root w)" and "p \<noteq> []"
    and "node_at p (os_root w) = Some (Dir es)"
  shows "\<exists>w'. shredDir p w = (None, w') \<and> os_root w' = del_node p (os_root w)
    \<and> sh_log w' = sh_log w @ shred_plan p (Dir es)"
  using shred_node_clean(1) [OF assms] assms(1,4)
  by (simp add: shredDir_def os_ReadDir_def removes_ok_def)

section \<open>Overwriting comes before unlinking\<close>

fun zero_first :: "shred_event list \<Rightarrow> bool" where
  "zero_first (Zeroed p k # Unlinked q # es) = (p = q \<and> zero_first es)"
| "zero_first (Rmdired p # es) = zero_first es"
| "zero_first [] = True"
| "zero_first _ = False"

lemma zero_first_append: "zero_first a \<Longrightarrow> zero_first b \<Longrightarrow> zero_first (a @ b)"
  by (induction a rule: zero_first.induct) auto

lemma log_Remove [simp]: "sh_log (snd (os_Remove p w)) = sh_log w"
  by (auto simp: os_Remove_def split: option.splits node.splits list.splits)

lemma log_WriteFile [simp]: "sh_log (snd (os_WriteFile p b w)) = sh_log w"
  by (auto simp: os_WriteFile_def split: fault.splits option.splits)

lemma shred_file_log:
  "\<exists>es. sh_log (snd (shred_file p w)) = sh_log w @ es \<and> zero_first es"
  by (auto simp: shred_file_def log_ev_def Let_def split: sum.splits)

lemma shred_node_log:
  fixes w :: "'a shred_os_scheme"
  shows "\<exists>es. sh_log (snd (shred_node p n w)) = sh_log w @ es \<and> zero_first es"
    and "\<exists>es. sh_log (snd (shred_entries p ns w)) = sh_log w @ es \<and> zero_first es"
proof (induction p n w and p ns w rule: shred_node_shred_entries.induct)
  case (1 p b w)
  then show ?case by (simp add: shred_file_log)
next
  case (2 p es w)
  show ?case
  proof (cases "os_fault w OpReadDir p = NoFault")
    case True
    obtain r w1 where r: "shred_entries p es w = (r, w1)" by fastforce
    from 2 True r obtain l where l: "sh_log w1 = sh_log w @ l" "zero_first l" by auto
    obtain q w2 where q: "os_Remove p w1 = (q, w2)" by fastforce
    then have "sh_log w2 = sh_log w1" using log_Remove [of p w1] by simp
    with q r l True zero_first_append [of l "[Rmdired p]"] show ?thesis
      by (cases r) (auto simp: log_ev_def)
  qed simp
next
  case (3 p w)
  then show ?case by simp
next
  case (4 p c n es w)
  obtain r w1 where r: "shred_node (p @ [c]) n w = (r, w1)" by fastforce
  with 4(1) obtain l where l: "sh_log w1 = sh_log w @ l" "zero_first l" by auto
  show ?case
  proof (cases r)
    case None
    with 4(2) r obtain k where "sh_log (snd (shred_entries p es w1)) = sh_log w1 @ k" "zero_first k"
      by metis
    with l r None show ?thesis using zero_first_append [of l k] by simp
  qed (use l r in simp)
qed

lemma shredDir_zero_first:
  "\<exists>es. sh_log (snd (shredDir p w)) = sh_log w @ es \<and> zero_first es"
  by (simp add: shredDir_def shred_node_log del: shred_node.simps split: sum.splits)

text \<open>Shredding a directory of a fault-free disk succeeds, leaves nothing at or below it,
  leaves every other file as it was, and overwrites every file below it with zeros over its
  whole length, each one before that file is unlinked.\<close>

lemma shredDir_thorough:
  assumes "no_faults w" and "wf_node (os_root w)" and "p \<noteq> []" and "is_dir (os_root w) p"
  shows "\<exists>w' es. shredDir p w = (None, w') \<and> node_at p (os_root w') = None
    \<and> (\<forall>q. \<not> prefix p q \<longrightarrow> rd (os_root w') q = rd (os_root w) q)
    \<and> sh_log w' = sh_log w @ es \<and> zero_first es
    \<and> (\<forall>q b. prefix p q \<longrightarrow> rd (os_root w) q = Some b \<longrightarrow> Zeroed q (length b) \<in> set es)"
proof -
  from assms(4) obtain fs where fs: "node_at p (os_root w) = Some (Dir fs)"
    by (auto simp: is_dir_def split: option.splits node.splits)
  from shredDir_clean [OF no_faults_removes [OF assms(1)] assms(2,3) fs] obtain w' where w': "shredDir p w = (None, w')"
    "os_root w' = del_node p (os_root w)" "sh_log w' = sh_log w @ shred_plan p (Dir fs)" by blast
  have "Zeroed q (length b) \<in> set (shred_plan p (Dir fs))"
    if q: "prefix p q" and b: "rd (os_root w) q = Some b" for q b
  proof -
    from q obtain r where r: "q = p @ r" by (auto elim: prefixE)
    with b fs have "rd (Dir fs) r = Some b" by (simp add: rd_def node_at_append)
    with r plan_covers(1) show ?thesis by blast
  qed
  moreover have "zero_first (shred_plan p (Dir fs))"
    using shredDir_zero_first [of p w] w' by auto
  ultimately show ?thesis
    using w' assms(3) by (auto simp: node_at_del_self rd_del)
qed

definition demo_shred :: shred_os where
  "demo_shred = \<lparr>os_now = 0, os_rng = [],
     os_root = Dir [(''blob'', Dir [(''a'', Dir [(''case-data.tar.age'', File [1, 2, 3])])]),
       (''config.yml'', File [9])],
     os_fault = (\<lambda>_ _. NoFault), sh_log = []\<rparr>"

end
