(* ===== verification/Store.thy ===== *)
theory Store
  imports Shred Tarpack
begin

text \<open>
  \<open>internal/kakekomi/store.go\<close> and \<open>gc.go\<close>: the \<open>cases\<close> table and the blob directory.

  The table is an association list from the primary key to the other columns, in the order of
  insertion.  Each SQL statement of the source is an operation on it; \<open>db_fault\<close> says which
  statement the database refuses and with which error, and a refused statement has no effect.
  Where SQL leaves the order of a result open the model takes the order of insertion.  Of the
  operations only the wipe takes time that a visitor could measure, since a request waits for it:
  \<open>wipe_time\<close> is how long it takes this disk and database, in nanoseconds.  Paths are
  component lists: \<open>data_dir\<close> is the data directory and \<open>caseDir\<close> is \<open>filepath.Join\<close> of it
  with \<open>blob\<close> and the identifier, cleaned as \<open>filepath.Clean\<close> does.
\<close>

section \<open>State\<close>

record case_row =
  row_lookup :: bytes
  row_hash :: bytes
  row_salt :: bytes
  row_created :: int
  row_expires :: int
  row_read :: int
  row_reply :: int

datatype db_stmt =
    DbSchema | DbInsert string | DbDelete string | DbList | DbGet string | DbMarkRead string
  | DbSetReply string | DbFind | DbExpired | DbDeleteAll | DbVacuum

record world = shred_os +
  db_rows :: "(string \<times> case_row) list"
  db_fault :: "db_stmt \<Rightarrow> error option"
  data_dir :: path
  wipe_time :: nat

record case_info =
  case_ID :: string
  case_CreatedAt :: int
  case_ExpiresAt :: int
  case_Read :: bool
  case_HasReply :: bool
  case_Size :: int

definition caseDir :: "'a world_scheme \<Rightarrow> string \<Rightarrow> path" where
  "caseDir w i = join_comps (data_dir w) [''blob'', i]"

definition blobPath :: "'a world_scheme \<Rightarrow> string \<Rightarrow> path" where
  "blobPath w i = join_comps (caseDir w i) [''case-data.tar.age'']"

definition replyPath :: "'a world_scheme \<Rightarrow> string \<Rightarrow> path" where
  "replyPath w i = join_comps (caseDir w i) [''reply.bin'']"

definition isUniqueErr :: "error option \<Rightarrow> bool" where
  "isUniqueErr err = (case err of None \<Rightarrow> False
     | Some e \<Rightarrow> str_Contains (err_Error e) ''UNIQUE'' \<or> str_Contains (err_Error e) ''PRIMARY KEY'')"

section \<open>SQL statements\<close>

definition rows_del :: "string \<Rightarrow> (string \<times> case_row) list \<Rightarrow> (string \<times> case_row) list" where
  "rows_del i rows = filter (\<lambda>r. fst r \<noteq> i) rows"

definition rows_ins :: "string \<Rightarrow> case_row \<Rightarrow> (string \<times> case_row) list \<Rightarrow> (string \<times> case_row) list" where
  "rows_ins i r rows = rows @ [(i, r)]"

definition rows_upd :: "string \<Rightarrow> (case_row \<Rightarrow> case_row) \<Rightarrow> (string \<times> case_row) list
    \<Rightarrow> (string \<times> case_row) list" where
  "rows_upd i f rows = map (\<lambda>(k, r). if k = i then (k, f r) else (k, r)) rows"

definition db_exec :: "db_stmt \<Rightarrow> ((string \<times> case_row) list \<Rightarrow> (string \<times> case_row) list)
    \<Rightarrow> 'a world_scheme \<Rightarrow> error option \<times> 'a world_scheme" where
  "db_exec st f w = (case db_fault w st of
     Some e \<Rightarrow> (Some e, w)
   | None \<Rightarrow> (None, w\<lparr>db_rows := f (db_rows w)\<rparr>))"

definition db_insert :: "string \<Rightarrow> case_row \<Rightarrow> 'a world_scheme \<Rightarrow> error option \<times> 'a world_scheme" where
  "db_insert i r w =
     (if db_fault w (DbInsert i) = None \<and> map_of (db_rows w) i \<noteq> None
      then (Some (Err ''constraint failed: UNIQUE constraint failed: cases.id (1555)''), w)
      else db_exec (DbInsert i) (rows_ins i r) w)"

definition db_delete :: "string \<Rightarrow> 'a world_scheme \<Rightarrow> error option \<times> 'a world_scheme" where
  "db_delete i = db_exec (DbDelete i) (rows_del i)"

definition db_vacuum :: "'a world_scheme \<Rightarrow> error option \<times> 'a world_scheme" where
  "db_vacuum = db_exec DbVacuum id"

section \<open>Operations\<close>

definition OpenStore :: "path \<Rightarrow> 'a world_scheme \<Rightarrow> error option \<times> 'a world_scheme" where
  "OpenStore dataDir w =
     (case os_MkdirAll (join_comps dataDir [''blob'']) w of
        (Some e, w1) \<Rightarrow> (Some e, w1)
      | (None, w1) \<Rightarrow>
          (case db_exec DbSchema id w1 of
             (Some e, w2) \<Rightarrow> (Some (Wrap ''init schema'' e), w2)
           | (None, w2) \<Rightarrow> (None, w2\<lparr>data_dir := dataDir\<rparr>)))"

fun create_loop :: "nat \<Rightarrow> case_row \<Rightarrow> bytes \<Rightarrow> 'a world_scheme \<Rightarrow> (error + string) \<times> 'a world_scheme" where
  "create_loop 0 r blob w = (Inl (Err ''case_id collision retries exhausted''), w)"
| "create_loop (Suc n) r blob w =
     (case NewID w of
        (Inl e, w1) \<Rightarrow> (Inl e, w1)
      | (Inr i, w1) \<Rightarrow>
          (case db_insert i r w1 of
             (None, w2) \<Rightarrow>
               (case os_MkdirAll (caseDir w2 i) w2 of
                  (Some e, w3) \<Rightarrow> (Inl (Wrap ''mkdir case'' e), snd (db_delete i w3))
                | (None, w3) \<Rightarrow>
                    (case os_WriteFile (blobPath w3 i) blob w3 of
                       (Some e, w4) \<Rightarrow>
                         (Inl (Wrap ''write blob'' e),
                          snd (db_delete i (snd (os_RemoveAll (caseDir w4 i) w4))))
                     | (None, w4) \<Rightarrow> (Inr i, w4)))
           | (Some e, w2) \<Rightarrow>
               (if isUniqueErr (Some e) then create_loop n r blob w2
                else (Inl (Wrap ''insert case'' e), w2))))"

definition new_row :: "bytes \<Rightarrow> bytes \<Rightarrow> bytes \<Rightarrow> int \<Rightarrow> int \<Rightarrow> case_row" where
  "new_row codeLookup codeHash codeSalt ttl t =
     (let now = truncate_hour t; expires = unix_seconds (now + ttl)
      in \<lparr>row_lookup = codeLookup, row_hash = codeHash, row_salt = codeSalt,
          row_created = unix_seconds now, row_expires = expires, row_read = 0, row_reply = 0\<rparr>)"

definition CreateCase :: "bytes \<Rightarrow> bytes \<Rightarrow> bytes \<Rightarrow> int \<Rightarrow> bytes \<Rightarrow> 'a world_scheme
    \<Rightarrow> (error + string) \<times> 'a world_scheme" where
  "CreateCase codeLookup codeHash codeSalt ttl blob w =
     create_loop 5 (new_row codeLookup codeHash codeSalt ttl (os_now w)) blob w"

definition scan_case :: "'a world_scheme \<Rightarrow> string \<times> case_row \<Rightarrow> case_info" where
  "scan_case w ir = (case ir of (i, r) \<Rightarrow>
     \<lparr>case_ID = i, case_CreatedAt = row_created r * second, case_ExpiresAt = row_expires r * second,
      case_Read = (row_read r = 1), case_HasReply = (row_reply r = 1),
      case_Size = (case os_Stat_size (blobPath w i) w of Inl e \<Rightarrow> 0 | Inr n \<Rightarrow> n)\<rparr>)"

definition ListCases :: "'a world_scheme \<Rightarrow> error + case_info list" where
  "ListCases w = (case db_fault w DbList of
     Some e \<Rightarrow> Inl e
   | None \<Rightarrow> Inr (map (scan_case w) (sort_key (\<lambda>ir. - row_created (snd ir)) (db_rows w))))"

definition GetCase :: "string \<Rightarrow> 'a world_scheme \<Rightarrow> error + case_info" where
  "GetCase i w = (case db_fault w (DbGet i) of
     Some e \<Rightarrow> Inl e
   | None \<Rightarrow> (case map_of (db_rows w) i of
       None \<Rightarrow> Inl ErrNoRows
     | Some r \<Rightarrow> Inr (scan_case w (i, r))))"

definition ReadBlob :: "string \<Rightarrow> 'a world_scheme \<Rightarrow> error + bytes" where
  "ReadBlob i w = os_ReadFile (blobPath w i) w"

definition MarkRead :: "string \<Rightarrow> 'a world_scheme \<Rightarrow> error option \<times> 'a world_scheme" where
  "MarkRead i = db_exec (DbMarkRead i) (rows_upd i (\<lambda>r. r\<lparr>row_read := 1\<rparr>))"

definition WriteReply :: "string \<Rightarrow> bytes \<Rightarrow> 'a world_scheme \<Rightarrow> error option \<times> 'a world_scheme" where
  "WriteReply i blob w =
     (case GetCase i w of
        Inl e \<Rightarrow> (Some e, w)
      | Inr _ \<Rightarrow>
          (case os_WriteFile (replyPath w i) blob w of
             (Some e, w1) \<Rightarrow> (Some e, w1)
           | (None, w1) \<Rightarrow> db_exec (DbSetReply i) (rows_upd i (\<lambda>r. r\<lparr>row_reply := 1\<rparr>)) w1))"

definition ReadReply :: "string \<Rightarrow> 'a world_scheme \<Rightarrow> error + bytes" where
  "ReadReply i w = os_ReadFile (replyPath w i) w"

text \<open>The hash of the code under a zero salt, which is computed when there is no row, is only there
  to take time: its value is dropped.\<close>

definition FindCaseByCode :: "prims \<Rightarrow> string \<Rightarrow> bytes \<Rightarrow> 'a world_scheme \<Rightarrow> error + string" where
  "FindCaseByCode P c codeLookup w =
     (case db_fault w DbFind of
        Some e \<Rightarrow> Inl (if e = ErrNoRows then Err ''code not found'' else e)
      | None \<Rightarrow>
          (case find (\<lambda>ir. row_lookup (snd ir) = codeLookup) (db_rows w) of
             None \<Rightarrow> Inl (Err ''code not found'')
           | Some (i, r) \<Rightarrow>
               (if VerifyCode P c (row_salt r) (row_hash r) then Inr i
                else Inl (Err ''code not found''))))"

fun gc_loop :: "string list \<Rightarrow> nat \<Rightarrow> 'a world_scheme \<Rightarrow> (nat \<times> error option) \<times> 'a world_scheme" where
  "gc_loop [] n w = ((n, None), snd (db_vacuum w))"
| "gc_loop (i # ids) n w =
     (case shredDir (caseDir w i) w of (r, w1) \<Rightarrow>
        if r \<noteq> None \<and> r \<noteq> Some ErrNotExist then ((n, r), w1)
        else (case db_delete i w1 of
                (Some e, w2) \<Rightarrow> ((n, Some e), w2)
              | (None, w2) \<Rightarrow> gc_loop ids (n + 1) w2))"

definition expired_ids :: "'a world_scheme \<Rightarrow> string list" where
  "expired_ids w = map fst (filter (\<lambda>ir. row_expires (snd ir) < unix_seconds (os_now w)) (db_rows w))"

definition GC :: "'a world_scheme \<Rightarrow> (nat \<times> error option) \<times> 'a world_scheme" where
  "GC w = (case db_fault w DbExpired of
     Some e \<Rightarrow> ((0, Some e), w)
   | None \<Rightarrow> gc_loop (expired_ids w) 0 w)"

fun shred_all :: "path \<Rightarrow> string list \<Rightarrow> 'a world_scheme \<Rightarrow> 'a world_scheme" where
  "shred_all dir [] w = w"
| "shred_all dir (c # cs) w = shred_all dir cs (snd (shredDir (join_comps dir [c]) w))"

definition spend_wipe :: "'a world_scheme \<Rightarrow> 'a world_scheme" where
  "spend_wipe w = w\<lparr>os_now := os_now w + int (wipe_time w)\<rparr>"

definition Wipe :: "'a world_scheme \<Rightarrow> error option \<times> 'a world_scheme" where
  "Wipe w =
     (let dir = join_comps (data_dir w) [''blob''];
          w1 = (case os_ReadDir dir w of Inl e \<Rightarrow> w | Inr es \<Rightarrow> shred_all dir (map fst es) w)
      in case db_exec DbDeleteAll (\<lambda>_. []) w1 of
           (Some e, w2) \<Rightarrow> (Some e, spend_wipe w2)
         | (None, w2) \<Rightarrow> (None, spend_wipe (snd (db_vacuum w2))))"

text \<open>The periodic sweep: each tick of the ticker, at the time it fires, runs one collection;
  cancellation ends the loop.\<close>

datatype gc_event = GcTick int | GcDone

fun runGCLoop :: "gc_event list \<Rightarrow> 'a world_scheme \<Rightarrow> 'a world_scheme" where
  "runGCLoop [] w = w"
| "runGCLoop (GcDone # es) w = w"
| "runGCLoop (GcTick t # es) w = runGCLoop es (snd (GC (w\<lparr>os_now := t\<rparr>)))"

definition Gc :: "path \<Rightarrow> 'a world_scheme \<Rightarrow> (error + nat) \<times> 'a world_scheme" where
  "Gc dataDir w =
     (case OpenStore dataDir w of
        (Some e, w1) \<Rightarrow> (Inl e, w1)
      | (None, w1) \<Rightarrow>
          (case GC w1 of ((n, Some e), w2) \<Rightarrow> (Inl e, w2) | ((n, None), w2) \<Rightarrow> (Inr n, w2)))"

interpretation rowt: keyed_insert "map_of :: (string \<times> case_row) list \<Rightarrow> string \<Rightarrow> case_row option"
  rows_del rows_ins
  by unfold_locales (auto simp: rows_del_def rows_ins_def map_of_filter_ne map_add_def split: option.splits)


section \<open>Paths and identifiers\<close>

definition case_id :: "string \<Rightarrow> bool" where
  "case_id i \<longleftrightarrow> length i = 16 \<and> list_all lower_hex_char i"

definition plain_dir :: "'a world_scheme \<Rightarrow> bool" where
  "plain_dir w \<longleftrightarrow> list_all plain_comp (data_dir w)"

lemma case_id_plain: "case_id i \<Longrightarrow> plain_comp i"
proof -
  assume c: "case_id i"
  then have "slash \<notin> set i" by (auto simp: case_id_def list_all_set dest: lower_hex_not_slash)
  with c show ?thesis by (auto simp: plain_comp_def case_id_def)
qed

lemma plain_names [simp]: "plain_comp ''blob''" "plain_comp ''case-data.tar.age''" "plain_comp ''reply.bin''"
  by (simp_all add: plain_comp_def slash_def)

lemma caseDir_plain: "plain_dir w \<Longrightarrow> plain_comp i \<Longrightarrow> caseDir w i = data_dir w @ [''blob'', i]"
  by (simp add: caseDir_def join_comps_plain plain_dir_def)

lemma blobPath_plain: "plain_dir w \<Longrightarrow> plain_comp i \<Longrightarrow> blobPath w i = caseDir w i @ [''case-data.tar.age'']"
  by (simp add: blobPath_def caseDir_plain join_comps_plain plain_dir_def)

lemma replyPath_plain: "plain_dir w \<Longrightarrow> plain_comp i \<Longrightarrow> replyPath w i = caseDir w i @ [''reply.bin'']"
  by (simp add: replyPath_def caseDir_plain join_comps_plain plain_dir_def)

lemma caseDir_disjoint:
  "plain_dir w \<Longrightarrow> plain_comp i \<Longrightarrow> plain_comp j \<Longrightarrow> i \<noteq> j \<Longrightarrow> \<not> prefix (caseDir w i) (caseDir w j @ r)"
  by (auto simp: caseDir_plain)

lemma caseDir_nonempty: "plain_dir w \<Longrightarrow> plain_comp i \<Longrightarrow> caseDir w i \<noteq> []"
  by (simp add: caseDir_plain)

lemma paths_data_dir:
  assumes "data_dir w' = data_dir w"
  shows "caseDir w' = caseDir w" "blobPath w' = blobPath w" "replyPath w' = replyPath w"
    "plain_dir w' = plain_dir w"
proof -
  show c: "caseDir w' = caseDir w" using assms by (simp add: fun_eq_iff caseDir_def)
  show "blobPath w' = blobPath w" "replyPath w' = replyPath w" "plain_dir w' = plain_dir w"
    using assms by (simp_all add: fun_eq_iff blobPath_def replyPath_def plain_dir_def c)
qed

lemma NewID_case_id: "NewID w = (Inr i, w') \<Longrightarrow> case_id i"
  by (auto simp: NewID_def case_id_def list_all_set readRandom_def dest: hex_encode_lower
      split: if_splits)

section \<open>What an operation can change\<close>

definition files_upto :: "path \<Rightarrow> 'a world_scheme \<Rightarrow> 'a world_scheme \<Rightarrow> bool" where
  "files_upto p w w' \<longleftrightarrow> (\<forall>q. \<not> prefix p q \<longrightarrow> rd (os_root w') q = rd (os_root w) q)
     \<and> os_fault w' = os_fault w \<and> os_now w' = os_now w
     \<and> (wf_node (os_root w) \<longrightarrow> wf_node (os_root w'))
     \<and> db_fault w' = db_fault w \<and> data_dir w' = data_dir w \<and> wipe_time w' = wipe_time w
     \<and> world.more w' = world.more w"

lemma more_world:
  fixes w w' :: "'a world_scheme"
  assumes "shred_os.more w' = shred_os.more w"
  shows "db_rows w' = db_rows w" "db_fault w' = db_fault w" "data_dir w' = data_dir w"
    "wipe_time w' = wipe_time w" "world.more w' = world.more w"
  using assms by (cases w; cases w'; simp)+

lemma below_upto: "below p w w' \<Longrightarrow> files_upto p w w' \<and> db_rows w' = db_rows w"
  by (auto simp: below_def files_upto_def dest: more_world)

lemma upto_refl [simp, intro]: "files_upto p w w"
  by (simp add: files_upto_def)

lemma upto_trans [trans]: "files_upto p w w' \<Longrightarrow> files_upto p w' w'' \<Longrightarrow> files_upto p w w''"
  by (simp add: files_upto_def)

lemma upto_dir: "files_upto p w w' \<Longrightarrow> data_dir w' = data_dir w \<and> db_fault w' = db_fault w
    \<and> os_fault w' = os_fault w \<and> os_now w' = os_now w \<and> wipe_time w' = wipe_time w
    \<and> world.more w' = world.more w"
  by (simp add: files_upto_def)

lemma spend_fields [simp]:
  "db_rows (spend_wipe w) = db_rows w" "db_fault (spend_wipe w) = db_fault w" "data_dir (spend_wipe w) = data_dir w"
  "os_root (spend_wipe w) = os_root w" "os_fault (spend_wipe w) = os_fault w"
  "os_now (spend_wipe w) = os_now w + int (wipe_time w)" "world.more (spend_wipe w) = world.more w"
  by (simp_all add: spend_wipe_def)

lemma upto_wf: "files_upto p w w' \<Longrightarrow> wf_node (os_root w) \<Longrightarrow> wf_node (os_root w')"
  by (simp add: files_upto_def)

lemma upto_rd: "files_upto p w w' \<Longrightarrow> \<not> prefix p q \<Longrightarrow> rd (os_root w') q = rd (os_root w) q"
  by (simp add: files_upto_def)

lemma exec_upto: "db_exec st f w = (e, w') \<Longrightarrow> files_upto p w w'
    \<and> db_rows w' = (if e = None then f (db_rows w) else db_rows w) \<and> (e = None \<longleftrightarrow> db_fault w st = None)
    \<and> os_root w' = os_root w"
  by (auto simp: db_exec_def files_upto_def split: option.splits)

lemma NewID_upto: "NewID w = (r, w') \<Longrightarrow> files_upto p w w' \<and> db_rows w' = db_rows w"
  by (auto simp: NewID_def readRandom_def files_upto_def split: if_splits)

lemma mkdir_upto: "os_MkdirAll d w = (e, w') \<Longrightarrow> files_upto p w w' \<and> db_rows w' = db_rows w"
  by (auto simp: os_MkdirAll_def files_upto_def rd_mkdirs wf_mkdirs split: if_splits option.splits)

lemma write_upto: "os_WriteFile (p @ q) b w = (e, w') \<Longrightarrow> files_upto p w w' \<and> db_rows w' = db_rows w"
  using below_upto [OF below_mono [where p = p and q = q, OF below_WriteFile [where w = w and b = b]]] by simp

lemma write_ok: "os_WriteFile p b w = (None, w') \<Longrightarrow> rd (os_root w') p = Some b"
  by (auto simp: os_WriteFile_def rd_wr_same split: fault.splits option.splits)

lemma removeall_upto: "os_RemoveAll p w = (e, w') \<Longrightarrow> files_upto p w w' \<and> db_rows w' = db_rows w"
  using below_upto [OF below_RemoveAll [of p w]] by simp

lemma shredDir_upto: "shredDir p w = (e, w') \<Longrightarrow> files_upto p w w' \<and> db_rows w' = db_rows w"
  using below_upto [OF below_shredDir [of p w]] by simp

lemma vacuum_upto: "files_upto p w (snd (db_vacuum w)) \<and> db_rows (snd (db_vacuum w)) = db_rows w"
  by (auto simp: db_vacuum_def db_exec_def files_upto_def split: option.splits)

lemma insert_cases:
  "db_insert i r w = (e, w') \<Longrightarrow> files_upto p w w' \<and>
     (e = None \<and> map_of (db_rows w) i = None \<and> db_rows w' = rows_ins i r (db_rows w)
      \<or> e \<noteq> None \<and> w' = w)"
  by (auto simp: db_insert_def db_exec_def files_upto_def split: if_splits option.splits)

lemma delete_new:
  assumes "db_delete i w = (e, w')" and "db_rows w = rows_ins i r rows" and "map_of rows i = None"
  shows "files_upto p w w' \<and> (e = None \<and> db_rows w' = rows
      \<or> db_fault w (DbDelete i) \<noteq> None \<and> db_rows w' = rows_ins i r rows)"
proof -
  have "rows_del i (rows_ins i r rows) = rows"
    using assms(3) by (auto simp: rows_del_def rows_ins_def map_of_eq_None_iff filter_id_conv image_iff)
  with assms(2) exec_upto [OF assms(1) [unfolded db_delete_def], of p] show ?thesis
    by (auto split: if_splits)
qed


section \<open>Creation\<close>

definition create_result :: "case_row \<Rightarrow> bytes \<Rightarrow> 'a world_scheme \<Rightarrow> error + string
    \<Rightarrow> 'a world_scheme \<Rightarrow> string \<Rightarrow> bool" where
  "create_result r blob w res w' j \<longleftrightarrow>
     case_id j \<and> map_of (db_rows w) j = None \<and> files_upto (caseDir w j) w w'
     \<and> (case res of
          Inr i \<Rightarrow> i = j \<and> db_rows w' = rows_ins j r (db_rows w) \<and> rd (os_root w') (blobPath w j) = Some blob
        | Inl e \<Rightarrow> db_rows w' = db_rows w
            \<or> db_rows w' = rows_ins j r (db_rows w) \<and> db_fault w (DbDelete j) \<noteq> None)"

lemma create_result_frame:
  assumes "files_upto (caseDir w j) w0 w" "db_rows w = db_rows w0" and "create_result r blob w res w' j"
  shows "create_result r blob w0 res w' j"
proof -
  have d: "data_dir w = data_dir w0" "db_fault w = db_fault w0" using upto_dir [OF assms(1)] by simp_all
  note p = paths_data_dir [OF d(1)]
  have "files_upto (caseDir w0 j) w0 w'"
    using assms by (auto simp: create_result_def p intro: upto_trans)
  with assms d show ?thesis by (auto simp: create_result_def p split: sum.splits)
qed

lemma create_step:
  assumes pd: "plain_dir w" and i: "case_id i" and ins: "db_insert i r w = (None, w2)"
    and run: "(case os_MkdirAll (caseDir w2 i) w2 of
                  (Some e, w3) \<Rightarrow> (Inl (Wrap ''mkdir case'' e), snd (db_delete i w3))
                | (None, w3) \<Rightarrow>
                    (case os_WriteFile (blobPath w3 i) blob w3 of
                       (Some e, w4) \<Rightarrow>
                         (Inl (Wrap ''write blob'' e),
                          snd (db_delete i (snd (os_RemoveAll (caseDir w4 i) w4))))
                     | (None, w4) \<Rightarrow> (Inr i, w4))) = (res, w')"
  shows "create_result r blob w res w' i"
proof -
  let ?p = "caseDir w i"
  from insert_cases [OF ins, of ?p] have w2: "files_upto ?p w w2" "map_of (db_rows w) i = None"
    "db_rows w2 = rows_ins i r (db_rows w)" by auto
  obtain me w3 where m: "os_MkdirAll (caseDir w2 i) w2 = (me, w3)" by fastforce
  from mkdir_upto [OF this, of ?p] w2 have w3: "files_upto ?p w w3" "db_rows w3 = rows_ins i r (db_rows w)"
    by (auto intro: upto_trans)
  note p3 = paths_data_dir [of w3 w] upto_dir [OF w3(1)]
  have bp: "blobPath w i = ?p @ [''case-data.tar.age'']"
    using pd i by (simp add: blobPath_plain case_id_plain)
  show ?thesis
  proof (cases me)
    case (Some e)
    obtain de w4 where "db_delete i w3 = (de, w4)" by fastforce
    with delete_new [OF this w3(2) w2(2), of ?p] run m Some w2 w3 i p3 show ?thesis
      by (auto simp: create_result_def intro: upto_trans)
  next
    case None
    obtain we w4 where wr: "os_WriteFile (blobPath w3 i) blob w3 = (we, w4)" by fastforce
    then have wr': "os_WriteFile (?p @ [''case-data.tar.age'']) blob w3 = (we, w4)"
      using p3 bp by simp
    from write_upto [OF this] w3 have w4: "files_upto ?p w w4" "db_rows w4 = rows_ins i r (db_rows w)"
      by (auto intro: upto_trans)
    note p4 = paths_data_dir [of w4 w] upto_dir [OF w4(1)]
    show ?thesis
    proof (cases we)
      case None
      with write_ok [of "?p @ [''case-data.tar.age'']" blob w3 w4] wr' bp run m \<open>me = None\<close> wr w4 w2 i
      show ?thesis by (auto simp: create_result_def)
    next
      case (Some e)
      obtain re w5 where rm: "os_RemoveAll (caseDir w4 i) w4 = (re, w5)" by fastforce
      then have "os_RemoveAll ?p w4 = (re, w5)" using p4 by simp
      from removeall_upto [OF this] w4 have w5: "files_upto ?p w w5" "db_rows w5 = rows_ins i r (db_rows w)"
        using caseDir_nonempty [OF pd case_id_plain [OF i]] by (auto intro: upto_trans)
      obtain de w6 where dl: "db_delete i w5 = (de, w6)" by fastforce
      from delete_new [OF this w5(2) w2(2), of ?p] run m \<open>me = None\<close> wr Some rm dl w2 w5 i
        upto_dir [OF w5(1)]
      show ?thesis by (auto simp: create_result_def intro: upto_trans)
    qed
  qed
qed

lemma create_loop_spec:
  assumes "plain_dir w" and "create_loop n r blob w = (res, w')"
  shows "(\<exists>e. res = Inl e) \<and> db_rows w' = db_rows w \<and> (\<forall>p. files_upto p w w')
    \<or> (\<exists>j. create_result r blob w res w' j)"
  using assms
proof (induction n r blob w rule: create_loop.induct)
  case (1 r blob w)
  then show ?case by auto
next
  case (2 n r blob w)
  obtain nr w1 where nid: "NewID w = (nr, w1)" by fastforce
  have w1: "files_upto p w w1" "db_rows w1 = db_rows w" for p
    using NewID_upto [OF nid] by auto
  note p1 = paths_data_dir [of w1 w] upto_dir [OF w1(1)]
  show ?case
  proof (cases nr)
    case (Inl e)
    with nid 2(3) w1 show ?thesis by auto
  next
    case (Inr i)
    then have i: "case_id i" using nid NewID_case_id by blast
    obtain ie w2 where ins: "db_insert i r w1 = (ie, w2)" by fastforce
    show ?thesis
    proof (cases ie)
      case None
      have "create_result r blob w1 res w' i"
        using create_step [of w1 i r w2 blob res w'] 2(2,3) nid Inr ins None i p1 by simp
      from create_result_frame [OF w1 this] show ?thesis by blast
    next
      case (Some e)
      with insert_cases [OF ins, of "[]"] have "w2 = w1" by auto
      show ?thesis
      proof (cases "isUniqueErr (Some e)")
        case False
        with 2(3) nid Inr ins Some \<open>w2 = w1\<close> w1 show ?thesis by auto
      next
        case True
        then have run: "create_loop n r blob w1 = (res, w')"
          using 2(3) nid Inr ins Some \<open>w2 = w1\<close> by simp
        have "plain_dir w1" using 2(2) p1 by simp
        from 2(1) [OF nid [symmetric] Inr ins [symmetric] Some True] run this \<open>w2 = w1\<close>
        have "(\<exists>e. res = Inl e) \<and> db_rows w' = db_rows w1 \<and> (\<forall>p. files_upto p w1 w')
          \<or> (\<exists>j. create_result r blob w1 res w' j)" by simp
        then show ?thesis
        proof
          assume "(\<exists>e. res = Inl e) \<and> db_rows w' = db_rows w1 \<and> (\<forall>p. files_upto p w1 w')"
          then show ?thesis using w1 upto_trans [OF w1(1)] by simp
        next
          assume "\<exists>j. create_result r blob w1 res w' j"
          then show ?thesis using create_result_frame [OF w1] by blast
        qed
      qed
    qed
  qed
qed


section \<open>Collection and wipe\<close>

lemma gc_loop_spec:
  assumes "plain_dir w" and "list_all plain_comp ids" and "gc_loop ids n w = ((m, e), w')"
  shows "\<exists>k. m = n + k \<and> k \<le> length ids
      \<and> db_rows w' = filter (\<lambda>ir. fst ir \<notin> set (take k ids)) (db_rows w)
      \<and> (\<forall>q. (\<forall>i \<in> set ids. \<not> prefix (caseDir w i) q) \<longrightarrow> rd (os_root w') q = rd (os_root w) q)
      \<and> (wf_node (os_root w) \<longrightarrow> wf_node (os_root w')) \<and> data_dir w' = data_dir w
      \<and> db_fault w' = db_fault w \<and> os_fault w' = os_fault w \<and> os_now w' = os_now w
      \<and> world.more w' = world.more w \<and> (e = None \<longrightarrow> k = length ids)"
  using assms
proof (induction ids n w rule: gc_loop.induct)
  case (1 n w)
  then have "m = n" "e = None" "w' = snd (db_vacuum w)" by auto
  with vacuum_upto [of "[]" w] vacuum_upto [of "[[]]" w] have "files_upto [] w w'" "files_upto [[]] w w'"
    "db_rows w' = db_rows w" by auto
  moreover have "os_root w' = os_root w"
    using \<open>w' = _\<close> by (auto simp: db_vacuum_def db_exec_def split: option.splits)
  ultimately show ?case using \<open>m = n\<close> \<open>e = None\<close> by (auto simp: files_upto_def)
next
  case (2 i ids n w)
  let ?p = "caseDir w i"
  have pi: "plain_comp i" "list_all plain_comp ids" using 2(3) by auto
  obtain r w1 where sd: "shredDir ?p w = (r, w1)" by fastforce
  from shredDir_upto [OF sd]
  have w1: "files_upto ?p w w1" "db_rows w1 = db_rows w" by auto
  note p1 = paths_data_dir [of w1 w] upto_dir [OF w1(1)]
  show ?case
  proof (cases "r \<noteq> None \<and> r \<noteq> Some ErrNotExist")
    case True
    with 2(4) sd have "w' = w1" "m = n" "e = r" by auto
    with True w1 p1 upto_wf [OF w1(1)] upto_rd [OF w1(1)] show ?thesis
      by (intro exI [of _ 0]) auto
  next
    case False
    obtain de w2 where dl: "db_delete i w1 = (de, w2)" by fastforce
    from exec_upto [OF this [unfolded db_delete_def], of ?p] w1
    have w2: "files_upto ?p w w2" "db_rows w2 = (if de = None then rows_del i (db_rows w) else db_rows w)"
      by (auto intro: upto_trans)
    note p2 = paths_data_dir [of w2 w] upto_dir [OF w2(1)]
    show ?thesis
    proof (cases de)
      case (Some x)
      with 2(4) sd False dl have "w' = w2" "m = n" "e = Some x" by auto
      with Some w2 p2 upto_wf [OF w2(1)] upto_rd [OF w2(1)] show ?thesis
        by (intro exI [of _ 0]) auto
    next
      case None
      with 2(4) sd False dl have run: "gc_loop ids (n + 1) w2 = ((m, e), w')" by auto
      have "plain_dir w2" using 2(2) p2 by simp
      from 2(1) [OF sd [symmetric] False dl [symmetric] None this pi(2) run] obtain k where k:
        "m = n + 1 + k" "k \<le> length ids"
        "db_rows w' = filter (\<lambda>ir. fst ir \<notin> set (take k ids)) (db_rows w2)"
        "\<forall>q. (\<forall>i \<in> set ids. \<not> prefix (caseDir w2 i) q) \<longrightarrow> rd (os_root w') q = rd (os_root w2) q"
        "wf_node (os_root w2) \<longrightarrow> wf_node (os_root w')" "data_dir w' = data_dir w2"
        "db_fault w' = db_fault w2" "os_fault w' = os_fault w2" "os_now w' = os_now w2"
        "world.more w' = world.more w2" "e = None \<longrightarrow> k = length ids" by blast
      have "filter (\<lambda>ir. fst ir \<notin> set (take k ids)) (rows_del i (db_rows w))
          = filter (\<lambda>ir. fst ir \<notin> set (take (Suc k) (i # ids))) (db_rows w)"
        by (auto simp: rows_del_def intro: filter_cong)
      with k w2 None p2 upto_wf [OF w2(1)] upto_rd [OF w2(1)] show ?thesis
        by (intro exI [of _ "Suc k"]) auto
    qed
  qed
qed

definition store_inv :: "'a world_scheme \<Rightarrow> bool" where
  "store_inv w \<longleftrightarrow> plain_dir w \<and> distinct (map fst (db_rows w))
     \<and> list_all case_id (map fst (db_rows w)) \<and> wf_node (os_root w)"

lemma store_inv_id: "store_inv w \<Longrightarrow> map_of (db_rows w) i = Some r \<Longrightarrow> case_id i \<and> plain_comp i"
  by (force simp: store_inv_def list_all_set dest!: map_of_SomeD dest: case_id_plain)

lemma expired_plain: "store_inv w \<Longrightarrow> list_all plain_comp (expired_ids w)"
  by (force simp: store_inv_def expired_ids_def list_all_set dest: case_id_plain)

lemma map_of_filter_keys: "map_of (filter (\<lambda>ir. fst ir \<notin> S) rows) i = (if i \<in> S then None else map_of rows i)"
  by (induction rows) auto

lemma expired_iff:
  assumes "distinct (map fst (db_rows w))" and "map_of (db_rows w) i = Some r"
  shows "i \<in> set (expired_ids w) \<longleftrightarrow> row_expires r < unix_seconds (os_now w)"
proof -
  have "i \<in> set (expired_ids w) \<longleftrightarrow> (\<exists>r'. (i, r') \<in> set (db_rows w) \<and> row_expires r' < unix_seconds (os_now w))"
    by (force simp: expired_ids_def image_iff)
  then show ?thesis using assms by (auto simp: map_of_eq_Some_iff dest!: map_of_SomeD)
     (metis assms(2) map_of_is_SomeI option.inject)
qed

lemma GC_spec:
  assumes "store_inv w" and "GC w = ((n, e), w')"
  shows "db_rows w' = filter (\<lambda>ir. fst ir \<notin> set (take n (expired_ids w))) (db_rows w)
      \<and> n \<le> length (expired_ids w)
      \<and> (\<forall>q. (\<forall>i \<in> set (expired_ids w). \<not> prefix (caseDir w i) q) \<longrightarrow> rd (os_root w') q = rd (os_root w) q)
      \<and> (wf_node (os_root w) \<longrightarrow> wf_node (os_root w')) \<and> data_dir w' = data_dir w
      \<and> db_fault w' = db_fault w \<and> os_fault w' = os_fault w \<and> os_now w' = os_now w
      \<and> world.more w' = world.more w"
proof (cases "db_fault w DbExpired")
  case None
  with assms(2) have run: "gc_loop (expired_ids w) 0 w = ((n, e), w')" by (simp add: GC_def)
  have "plain_dir w" using assms(1) by (simp add: store_inv_def)
  from gc_loop_spec [OF this expired_plain [OF assms(1)] run] show ?thesis by auto
next
  case (Some x)
  with assms(2) show ?thesis by (auto simp: GC_def)
qed

text \<open>C21: whatever the disk and the database refuse, a collection leaves every case that has not
  expired exactly as it was, row and files, and the count it returns is the number of expired
  cases, taken in order, that it removed from the table.\<close>

theorem GC_spares_unexpired:
  assumes "store_inv w" and "GC w = ((n, e), w')"
  shows "(\<forall>i. map_of (db_rows w') i =
        (if i \<in> set (take n (expired_ids w)) then None else map_of (db_rows w) i))
    \<and> (\<forall>i r. map_of (db_rows w) i = Some r \<longrightarrow> unix_seconds (os_now w) \<le> row_expires r \<longrightarrow>
        map_of (db_rows w') i = Some r
        \<and> (\<forall>q. prefix (caseDir w i) q \<longrightarrow> rd (os_root w') q = rd (os_root w) q))"
proof -
  note spec = GC_spec [OF assms]
  from spec have m: "map_of (db_rows w') i =
      (if i \<in> set (take n (expired_ids w)) then None else map_of (db_rows w) i)" for i
    by (simp add: map_of_filter_keys)
  have "map_of (db_rows w') i = Some r
      \<and> (\<forall>q. prefix (caseDir w i) q \<longrightarrow> rd (os_root w') q = rd (os_root w) q)"
    if r: "map_of (db_rows w) i = Some r" "unix_seconds (os_now w) \<le> row_expires r" for i r
  proof -
    have ni: "i \<notin> set (expired_ids w)"
      using expired_iff [OF _ r(1)] r(2) assms(1) by (simp add: store_inv_def)
    have "rd (os_root w') q = rd (os_root w) q" if "prefix (caseDir w i) q" for q
    proof -
      from that obtain t where q: "q = caseDir w i @ t" by (auto elim: prefixE)
      have "\<not> prefix (caseDir w j) q" if j: "j \<in> set (expired_ids w)" for j
      proof -
        from j ni have "j \<noteq> i" by auto
        moreover have "plain_comp j" using expired_plain [OF assms(1)] j by (simp add: list_all_set)
        moreover have "plain_comp i" "plain_dir w"
          using store_inv_id [OF assms(1) r(1)] assms(1) by (simp_all add: store_inv_def)
        ultimately show ?thesis using q caseDir_disjoint [of w j i] by simp
      qed
      with spec show ?thesis by blast
    qed
    with m ni r show ?thesis by (auto dest: in_set_takeD)
  qed
  with m show ?thesis by simp
qed

lemma gc_loop_clean:
  assumes "removes_ok w" and "\<forall>i. db_fault w (DbDelete i) = None" and "plain_dir w" and "wf_node (os_root w)"
    and "list_all plain_comp ids" and "distinct ids" and "\<forall>i \<in> set ids. rd (os_root w) (caseDir w i) = None"
  shows "\<exists>w'. gc_loop ids n w = ((n + length ids, None), w')
     \<and> (\<forall>i \<in> set ids. \<forall>q. prefix (caseDir w i) q \<longrightarrow> rd (os_root w') q = None)"
  using assms
proof (induction ids n w rule: gc_loop.induct)
  case (1 n w)
  then show ?case by simp
next
  case (2 i ids n w)
  let ?p = "caseDir w i"
  have pi: "plain_comp i" "list_all plain_comp ids" "i \<notin> set ids" "distinct ids" using 2(6,7) by auto
  have ne: "?p \<noteq> []" by (rule caseDir_nonempty [OF 2(4) pi(1)])
  obtain r w1 where sd: "shredDir ?p w = (r, w1)" by fastforce
  have r: "(r = None \<or> r = Some ErrNotExist) \<and> (\<forall>q. prefix ?p q \<longrightarrow> rd (os_root w1) q = None)"
  proof (cases "node_at ?p (os_root w)")
    case None
    then have "r = Some ErrNotExist" "w1 = w"
      using sd 2(2) by (auto simp: shredDir_def os_ReadDir_def removes_ok_def)
    moreover have "rd (os_root w) q = None" if "prefix ?p q" for q
      using that None by (auto elim!: prefixE simp: rd_def node_at_append)
    ultimately show ?thesis by simp
  next
    case (Some m)
    with 2(8) obtain es where "node_at ?p (os_root w) = Some (Dir es)"
      by (cases m) (auto simp: rd_def)
    from shredDir_clean [OF 2(2,5) ne this] sd have "r = None" "os_root w1 = del_node ?p (os_root w)"
      by auto
    with ne show ?thesis by (simp add: rd_del)
  qed
  from shredDir_upto [OF sd] have w1: "files_upto ?p w w1" "db_rows w1 = db_rows w" by auto
  obtain de w2 where dl: "db_delete i w1 = (de, w2)" by fastforce
  from exec_upto [OF this [unfolded db_delete_def], of ?p] w1 2(3) upto_dir [OF w1(1)]
  have w2: "files_upto ?p w w2" "de = None" "os_root w2 = os_root w1" by (auto intro: upto_trans)
  note p2 = paths_data_dir [of w2 w] upto_dir [OF w2(1)]
  have c: "\<not> (r \<noteq> None \<and> r \<noteq> Some ErrNotExist)" using r by auto
  have other: "\<not> prefix ?p (caseDir w j @ t)" if "j \<in> set ids" for j t
    using that pi caseDir_disjoint [OF 2(4) pi(1), of j t] by (auto simp: list_all_set)
  have "rd (os_root w2) (caseDir w2 j) = None" if "j \<in> set ids" for j
    using upto_rd [OF w2(1) other [OF that, of "[]", simplified]] 2(8) that p2 by simp
  with 2(1) [OF sd [symmetric] c dl [symmetric] w2(2)] 2(2-5) pi p2 upto_wf [OF w2(1)]
  obtain w' where w': "gc_loop ids (n + 1) w2 = ((n + 1 + length ids, None), w')"
    "\<forall>i \<in> set ids. \<forall>q. prefix (caseDir w i) q \<longrightarrow> rd (os_root w') q = None"
    by (auto simp: removes_ok_def)
  have pd2: "plain_dir w2" using 2(4) p2 by simp
  have "rd (os_root w') q = None" if q: "prefix ?p q" for q
  proof -
    from q obtain t where t: "q = ?p @ t" by (auto elim: prefixE)
    have "\<not> prefix (caseDir w2 j) q" if "j \<in> set ids" for j
      using that pi caseDir_disjoint [OF 2(4), of j i t] t p2 by (auto simp: list_all_set)
    then have "rd (os_root w') q = rd (os_root w2) q"
      using gc_loop_spec [OF pd2 pi(2) w'(1)] by blast
    then show ?thesis using r q w2(3) by simp
  qed
  with sd c dl w2(2) w' show ?case by auto
qed

end
