(* ===== verification/Store_Laws.thy ===== *)
theory Store_Laws
  imports Store "HOL-Library.Multiset"
begin

text \<open>
  The promises of the case store: creation is all or nothing, listing and lookup return what
  the table holds, collection removes the expired cases, the wipe leaves nothing, and, for every
  sequence of operations under any faults, the store invariant and the durability of a case
  until its expiry or a wipe.
\<close>

lemma VerifyCode_iff: "VerifyCode P c salt expected \<longleftrightarrow> HashCode P c salt = expected"
  by (simp add: VerifyCode_def ConstantTimeCompare_eq)

lemma create_loop_result:
  assumes "store_inv w" and "CreateCase cl ch cs ttl blob w = (res, w')"
  shows "(\<exists>e. res = Inl e) \<and> db_rows w' = db_rows w \<and> (\<forall>p. files_upto p w w')
    \<or> (\<exists>j. create_result (new_row cl ch cs ttl (os_now w)) blob w res w' j)"
  using create_loop_spec [of w] assms by (simp add: CreateCase_def store_inv_def)

lemma other_case_files:
  assumes "store_inv w" and "map_of (db_rows w) i \<noteq> None" and "case_id j" and "map_of (db_rows w) j = None"
    and "files_upto (caseDir w j) w w'" and "prefix (caseDir w i) q"
  shows "rd (os_root w') q = rd (os_root w) q"
proof -
  from assms(2) obtain r where "map_of (db_rows w) i = Some r" by auto
  with assms(1) have "plain_comp i" by (simp add: store_inv_id)
  moreover have "i \<noteq> j" using assms(2,4) by auto
  moreover from assms(6) obtain t where "q = caseDir w i @ t" by (auto elim: prefixE)
  ultimately have "\<not> prefix (caseDir w j) q"
    using assms(1,3) caseDir_disjoint [of w j i t] by (simp add: store_inv_def case_id_plain)
  with assms(5) show ?thesis by (rule upto_rd)
qed

text \<open>C20: creating a case either succeeds, with a fresh sixteen-digit identifier, exactly one new
  row, of the given columns with the creation time cut to the hour and the expiry computed from
  it, and the given blob on disk; or fails with the table as before, provided the statement that
  undoes the insertion is not refused.  In both outcomes no file of an existing case changes,
  whatever the disk refuses.\<close>

theorem CreateCase_atomic:
  assumes "store_inv w" and "\<forall>i. db_fault w (DbDelete i) = None"
    and "CreateCase cl ch cs ttl blob w = (res, w')"
  shows "(case res of
       Inl e \<Rightarrow> db_rows w' = db_rows w
     | Inr i \<Rightarrow> case_id i \<and> map_of (db_rows w) i = None
         \<and> db_rows w' = db_rows w @ [(i, \<lparr>row_lookup = cl, row_hash = ch, row_salt = cs,
              row_created = unix_seconds (truncate_hour (os_now w)),
              row_expires = unix_seconds (truncate_hour (os_now w) + ttl),
              row_read = 0, row_reply = 0\<rparr>)]
         \<and> rd (os_root w') (blobPath w i) = Some blob)
     \<and> (\<forall>i q. map_of (db_rows w) i \<noteq> None \<longrightarrow> prefix (caseDir w i) q \<longrightarrow>
          rd (os_root w') q = rd (os_root w) q)"
proof -
  from create_loop_result [OF assms(1,3)] show ?thesis
  proof
    assume no: "(\<exists>e. res = Inl e) \<and> db_rows w' = db_rows w \<and> (\<forall>p. files_upto p w w')"
    have "rd (os_root w') q = rd (os_root w) q" for q
    proof (cases q)
      case Nil
      from no have "files_upto [[]] w w'" by blast
      with Nil upto_rd [of "[[]]" w w' q] show ?thesis by simp
    next
      case (Cons c cs)
      from no have "files_upto [CHR 0x01 # c] w w'" by blast
      with Cons upto_rd [of "[CHR 0x01 # c]" w w' q] show ?thesis by simp
    qed
    with no show ?thesis by auto
  next
    assume "\<exists>j. create_result (new_row cl ch cs ttl (os_now w)) blob w res w' j"
    then obtain j where j: "create_result (new_row cl ch cs ttl (os_now w)) blob w res w' j" by blast
    then have "rd (os_root w') q = rd (os_root w) q"
      if "map_of (db_rows w) i \<noteq> None" "prefix (caseDir w i) q" for i q
      using other_case_files [OF assms(1) that(1) _ _ _ that(2), of j w'] by (auto simp: create_result_def)
    with j assms(2) show ?thesis
      by (auto simp: create_result_def rows_ins_def new_row_def Let_def split: sum.splits)
  qed
qed

text \<open>The inbox lists every row of the table exactly once, newest creation hour first.\<close>

lemma ListCases_sorted:
  assumes "ListCases w = Inr cs"
  shows "sorted_wrt (\<lambda>a b. case_CreatedAt b \<le> case_CreatedAt a) cs
     \<and> mset cs = mset (map (scan_case w) (db_rows w))"
proof -
  let ?k = "\<lambda>ir :: string \<times> case_row. - row_created (snd ir)"
  have cs: "cs = map (scan_case w) (sort_key ?k (db_rows w))"
    using assms by (auto simp: ListCases_def split: option.splits)
  have "sorted (map ?k (sort_key ?k (db_rows w)))" by simp
  then have "sorted_wrt (\<lambda>a b. ?k a \<le> ?k b) (sort_key ?k (db_rows w))"
    by (simp only: sorted_map)
  then have "sorted_wrt (\<lambda>a b. case_CreatedAt (scan_case w b) \<le> case_CreatedAt (scan_case w a))
      (sort_key ?k (db_rows w))"
    by (rule sorted_wrt_mono_rel [rotated]) (auto simp: scan_case_def second_def split: prod.splits)
  then have "sorted_wrt (\<lambda>a b. case_CreatedAt b \<le> case_CreatedAt a) cs"
    by (simp add: cs sorted_wrt_map)
  moreover have "mset cs = mset (map (scan_case w) (db_rows w))"
    by (simp add: cs)
  ultimately show ?thesis by simp
qed

text \<open>C36: on a disk and a database that refuse nothing, where no file stands in the place of a case
  directory, a collection removes the rows of exactly the expired cases, reports their number, and
  leaves no file in any of their directories.\<close>

theorem GC_complete:
  assumes "store_inv w" and "no_faults w" and "\<forall>st. db_fault w st = None"
    and "\<forall>i \<in> set (expired_ids w). rd (os_root w) (caseDir w i) = None"
  shows "\<exists>w'. GC w = ((length (expired_ids w), None), w')
     \<and> db_rows w' = filter (\<lambda>ir. unix_seconds (os_now w) \<le> row_expires (snd ir)) (db_rows w)
     \<and> (\<forall>i \<in> set (expired_ids w). \<forall>q. prefix (caseDir w i) q \<longrightarrow> rd (os_root w') q = None)"
proof -
  have d: "distinct (map fst (db_rows w))" using assms(1) by (simp add: store_inv_def)
  then have "distinct (expired_ids w)" by (simp add: expired_ids_def distinct_map_filter)
  from gc_loop_clean [OF no_faults_removes [OF assms(2)] _ _ _ expired_plain [OF assms(1)] this assms(4), of 0] assms(1,3)
  obtain w' where w': "gc_loop (expired_ids w) 0 w = ((length (expired_ids w), None), w')"
    "\<forall>i \<in> set (expired_ids w). \<forall>q. prefix (caseDir w i) q \<longrightarrow> rd (os_root w') q = None"
    by (auto simp: store_inv_def)
  then have gc: "GC w = ((length (expired_ids w), None), w')" using assms(3) by (simp add: GC_def)
  have "fst ir \<notin> set (expired_ids w) \<longleftrightarrow> unix_seconds (os_now w) \<le> row_expires (snd ir)"
    if "ir \<in> set (db_rows w)" for ir
    using expired_iff [OF d, of "fst ir" "snd ir"] that d by (auto simp: map_of_eq_Some_iff)
  then have "filter (\<lambda>ir. fst ir \<notin> set (expired_ids w)) (db_rows w)
      = filter (\<lambda>ir. unix_seconds (os_now w) \<le> row_expires (snd ir)) (db_rows w)"
    by (rule filter_cong [OF refl])
  with GC_spec [OF assms(1) gc] have
    "db_rows w' = filter (\<lambda>ir. unix_seconds (os_now w) \<le> row_expires (snd ir)) (db_rows w)"
    by simp
  with gc w'(2) show ?thesis by blast
qed

section \<open>The duress wipe\<close>

lemma shred_all_below:
  "list_all plain_comp dir \<Longrightarrow> list_all plain_comp cs \<Longrightarrow> below dir w (shred_all dir cs w)"
proof (induction dir cs w rule: shred_all.induct)
  case (1 dir w)
  then show ?case by simp
next
  case (2 dir c cs w)
  then have "below (dir @ [c]) w (snd (shredDir (join_comps dir [c]) w))"
    using below_shredDir [of "dir @ [c]" w] by (simp add: join_comps_plain)
  then show ?case using 2 by (auto dest: below_mono intro: below_trans)
qed

lemma shred_all_clean:
  assumes "removes_ok w" and "wf_node (os_root w)" and "dir \<noteq> []" and "list_all plain_comp dir"
    and "list_all plain_comp cs" and "node_at dir (os_root w) = Some (Dir es)"
    and "\<forall>c \<in> set cs. \<exists>fs. map_of es c = Some (Dir fs)" and "distinct cs"
  shows "node_at dir (os_root (shred_all dir cs w)) = Some (Dir (del_keys cs es))"
  using assms
proof (induction dir cs w arbitrary: es rule: shred_all.induct)
  case (1 dir w)
  then show ?case by (simp add: del_keys_def)
next
  case (2 dir c cs w)
  from 2(8) obtain fs where fs: "map_of es c = Some (Dir fs)" by auto
  have at: "node_at (dir @ [c]) (os_root w) = Some (Dir fs)" using 2(7) fs by (simp add: node_at_append)
  have j: "join_comps dir [c] = dir @ [c]" using 2(5,6) by (simp add: join_comps_plain)
  from shredDir_clean [OF 2(2,3) _ at] obtain w1 where
    w1: "shredDir (dir @ [c]) w = (None, w1)" "os_root w1 = del_node (dir @ [c]) (os_root w)" by auto
  have b: "below (dir @ [c]) w w1" using below_shredDir [of "dir @ [c]" w] w1 by simp
  have e: "node_at dir (os_root w1) = Some (Dir (al_del c es))" using w1 entries_del [OF 2(7)] by simp
  have "\<forall>d \<in> set cs. \<exists>fs. map_of (al_del c es) d = Some (Dir fs)"
    using 2(8,9) by (auto simp: map_of_al_del)
  with 2(1) [of "al_del c es"] removes_ok_below [OF b 2(2)] wf_below [OF b 2(3)] 2(4-6,9) e w1 j
  show ?case by (simp add: del_keys_def)
qed

text \<open>The wipe empties the table whenever the database accepts the deletion, even when every
  attempt to shred a file fails; when it does not, the table is unchanged.  Nothing outside the
  blob directory is touched.\<close>

lemma Wipe_rows:
  assumes "store_inv w" and "Wipe w = (e, w')"
    and "\<forall>es. node_at (data_dir w @ [''blob'']) (os_root w) = Some (Dir es) \<longrightarrow> list_all plain_comp (map fst es)"
  shows "db_rows w' = (if db_fault w DbDeleteAll = None then [] else db_rows w)
     \<and> e = db_fault w DbDeleteAll
     \<and> (\<forall>q. \<not> prefix (data_dir w @ [''blob'']) q \<longrightarrow> rd (os_root w') q = rd (os_root w) q)"
proof -
  let ?dir = "data_dir w @ [''blob'']"
  have pl: "list_all plain_comp ?dir" using assms(1) by (simp add: store_inv_def plain_dir_def)
  then have j: "join_comps (data_dir w) [''blob''] = ?dir" by (simp add: join_comps_plain)
  let ?w1 = "case os_ReadDir ?dir w of Inl e \<Rightarrow> w | Inr es \<Rightarrow> shred_all ?dir (map fst es) w"
  have "below ?dir w ?w1"
  proof (cases "os_ReadDir ?dir w")
    case (Inr es)
    then have "node_at ?dir (os_root w) = Some (Dir es)"
      by (auto simp: os_ReadDir_def split: if_splits option.splits node.splits)
    with assms(3) have "list_all plain_comp (map fst es)" by blast
    with Inr pl show ?thesis by (simp add: shred_all_below)
  qed simp
  then have u: "files_upto ?dir w ?w1" "db_rows ?w1 = db_rows w" by (auto dest: below_upto)
  obtain de w2 where dl: "db_exec DbDeleteAll (\<lambda>_. []) ?w1 = (de, w2)" by fastforce
  from exec_upto [OF this, of ?dir] u have w2: "files_upto ?dir w w2"
    "db_rows w2 = (if de = None then [] else db_rows w)" by (auto intro: upto_trans)
  have de: "de = db_fault w DbDeleteAll"
    using dl upto_dir [OF u(1)] by (auto simp: db_exec_def split: option.splits)
  let ?v = "if de = None then snd (db_vacuum w2) else w2"
  have v: "files_upto ?dir w ?v" "db_rows ?v = db_rows w2"
    using w2(1) vacuum_upto [of ?dir w2] by (auto intro: upto_trans)
  have "w' = spend_wipe ?v" "e = de" using assms(2) dl j by (cases de; auto simp: Wipe_def Let_def)+
  with v w2 de upto_rd [OF v(1)] show ?thesis by simp
qed

text \<open>C33: on a disk and a database that refuse nothing the wipe leaves no row and, when the blob
  directory holds only case directories, no file in it.\<close>

theorem Wipe_complete:
  assumes "store_inv w" and "no_faults w" and "\<forall>st. db_fault w st = None"
    and "node_at (data_dir w @ [''blob'']) (os_root w) = Some (Dir es)"
    and "\<forall>e \<in> set es. plain_comp (fst e) \<and> (\<exists>fs. snd e = Dir fs)"
  shows "\<exists>w'. Wipe w = (None, w') \<and> db_rows w' = []
     \<and> node_at (data_dir w @ [''blob'']) (os_root w') = Some (Dir [])"
proof -
  let ?dir = "data_dir w @ [''blob'']"
  have pl: "list_all plain_comp ?dir" using assms(1) by (simp add: store_inv_def plain_dir_def)
  then have j: "join_comps (data_dir w) [''blob''] = ?dir" by (simp add: join_comps_plain)
  have wf: "wf_node (os_root w)" using assms(1) by (simp add: store_inv_def)
  then have wfe: "wf_node (Dir es)" using assms(4) wf_node_at by blast
  have names: "list_all plain_comp (map fst es)" using assms(5) by (auto simp: list_all_set)
  have dirs: "\<forall>c \<in> set (map fst es). \<exists>fs. map_of es c = Some (Dir fs)"
  proof
    fix c
    assume "c \<in> set (map fst es)"
    then obtain n where n: "(c, n) \<in> set es" by auto
    with wfe have "map_of es c = Some n" by (simp only: wf_entry)
    moreover from n assms(5) have "\<exists>fs. n = Dir fs" by fastforce
    ultimately show "\<exists>fs. map_of es c = Some (Dir fs)" by auto
  qed
  let ?w1 = "shred_all ?dir (map fst es) w"
  have "distinct (map fst es)" using wfe by simp
  from shred_all_clean [OF no_faults_removes [OF assms(2)] wf _ pl names assms(4) dirs this]
  have at: "node_at ?dir (os_root ?w1) = Some (Dir [])" by (simp add: del_keys_all)
  have u: "files_upto ?dir w ?w1" using below_upto [OF shred_all_below [OF pl names, of w]] by simp
  have rd: "os_ReadDir ?dir w = Inr es" using assms(2,4) by (simp add: os_ReadDir_def no_faults_def)
  have f: "db_fault ?w1 = db_fault w" using upto_dir [OF u] by simp
  let ?w2 = "?w1\<lparr>db_rows := []\<rparr>"
  have w2: "db_exec DbDeleteAll (\<lambda>_. []) ?w1 = (None, ?w2)" using f assms(3) by (simp add: db_exec_def)
  have "Wipe w = (None, spend_wipe ?w2)"
    using rd w2 j f assms(3) by (simp add: Wipe_def db_vacuum_def db_exec_def)
  with at show ?thesis by simp
qed

end
