(* ===== verification/Http.thy ===== *)
theory Http
  imports Tables Go_Strings Padding
begin

text \<open>
  The part of \<open>net/http\<close> that the handlers use: requests with parsed cookies, query and body,
  form parsing, the response under construction, and the page writer of \<open>padding.go\<close> in front
  of it.

  A body is what the parser of \<open>net/http\<close> finds in it; \<open>BadBody\<close> is one it refuses.  As
  \<open>Request.FormValue\<close> documents, a value is looked up first in an urlencoded body, then in the
  query of the URL, then in a multipart body.
\<close>

section \<open>Requests\<close>

datatype file_read = OpenError | ReadError | Content bytes

record upload =
  up_Filename :: string
  up_Size :: int
  up_Open :: file_read

datatype body =
    NoBody
  | BadBody
  | UrlBody "(string \<times> string) list"
  | MultipartBody "(string \<times> string) list" "(string \<times> upload) list"

record request =
  rq_Method :: string
  rq_EscapedPath :: string
  rq_Host :: string
  rq_TLS :: bool
  rq_cookies :: "(string \<times> string) list"
  rq_query :: "(string \<times> string) list"
  rq_body :: body
  rq_body_len :: int

text \<open>\<open>r.URL.Path\<close> is the path of the request line, percent-decoded; \<open>url.Parse\<close> has
  refused malformed escapes before, so other percent signs do not occur.\<close>

fun pathUnescape :: "string \<Rightarrow> string" where
  "pathUnescape (c # a # b # s) =
     (if c = CHR 0x25
      then (case (from_hex a, from_hex b) of
              (Some h, Some l) \<Rightarrow> char_of (16 * h + l) # pathUnescape s
            | _ \<Rightarrow> c # pathUnescape (a # b # s))
      else c # pathUnescape (a # b # s))"
| "pathUnescape [a, b] = [a, b]"
| "pathUnescape [a] = [a]"
| "pathUnescape [] = []"

definition URL_Path :: "request \<Rightarrow> string" where
  "URL_Path rq = pathUnescape (rq_EscapedPath rq)"

definition rq_Cookie :: "string \<Rightarrow> request \<Rightarrow> string option" where
  "rq_Cookie name rq = map_of (rq_cookies rq) name"

record form =
  fm_Form :: "(string \<times> string) list"
  fm_Files :: "(string \<times> upload) list option"

definition body_method :: "string \<Rightarrow> bool" where
  "body_method m \<longleftrightarrow> m = ''POST'' \<or> m = ''PUT'' \<or> m = ''PATCH''"

text \<open>The first parse of the body, under the size limit of \<open>http.MaxBytesReader\<close> where the
  handler sets one; without it an urlencoded body is limited to ten megabytes.  The Boolean says
  whether \<open>ParseMultipartForm\<close> reported an error.\<close>

definition parse_form :: "int option \<Rightarrow> request \<Rightarrow> form \<times> bool" where
  "parse_form limit rq =
     (let fits = (case limit of Some m \<Rightarrow> rq_body_len rq \<le> m | None \<Rightarrow> True);
          urlfits = (case limit of Some m \<Rightarrow> rq_body_len rq \<le> m | None \<Rightarrow> rq_body_len rq \<le> 10 * 2 ^ 20)
      in case rq_body rq of
           UrlBody ps \<Rightarrow>
             (\<lparr>fm_Form = (if body_method (rq_Method rq) \<and> urlfits then ps else []) @ rq_query rq,
               fm_Files = None\<rparr>, True)
         | MultipartBody ps fs \<Rightarrow>
             (if fits then (\<lparr>fm_Form = rq_query rq @ ps, fm_Files = Some fs\<rparr>, False)
              else (\<lparr>fm_Form = rq_query rq, fm_Files = None\<rparr>, True))
         | _ \<Rightarrow> (\<lparr>fm_Form = rq_query rq, fm_Files = None\<rparr>, True))"

text \<open>A second \<open>ParseForm\<close> finds both forms set and has nothing left to report.\<close>

definition ParseForm_again :: "form \<Rightarrow> error option" where
  "ParseForm_again fm = None"

definition FormValue :: "form \<Rightarrow> string \<Rightarrow> string" where
  "FormValue fm k = (case map_of (fm_Form fm) k of None \<Rightarrow> [] | Some v \<Rightarrow> v)"

definition form_value :: "request \<Rightarrow> string \<Rightarrow> string" where
  "form_value rq k = FormValue (fst (parse_form None rq)) k"

section \<open>Responses\<close>

record cookie =
  ck_Name :: string
  ck_Value :: string
  ck_Path :: string
  ck_HttpOnly :: bool
  ck_Secure :: bool
  ck_SameSite :: string
  ck_MaxAge :: int

record response =
  rs_status :: int
  rs_headers :: "(string \<times> string) list"
  rs_cookies :: "cookie list"
  rs_body :: string

definition new_response :: response where
  "new_response = \<lparr>rs_status = 200, rs_headers = [], rs_cookies = [], rs_body = []\<rparr>"

definition set_header :: "string \<Rightarrow> string \<Rightarrow> response \<Rightarrow> response" where
  "set_header k v rs = rs\<lparr>rs_headers := al_put k v (rs_headers rs)\<rparr>"

definition http_SetCookie :: "cookie \<Rightarrow> response \<Rightarrow> response" where
  "http_SetCookie c rs = rs\<lparr>rs_cookies := rs_cookies rs @ [c]\<rparr>"

definition http_Error :: "string \<Rightarrow> int \<Rightarrow> response \<Rightarrow> response" where
  "http_Error msg c rs =
     (set_header ''X-Content-Type-Options'' ''nosniff''
       (set_header ''Content-Type'' ''text/plain; charset=utf-8'' rs))
       \<lparr>rs_status := c, rs_body := msg @ [CHR 0x0A]\<rparr>"

definition http_NotFound :: "response \<Rightarrow> response" where
  "http_NotFound rs = http_Error ''404 page not found'' 404 rs"

definition see_other_body :: "string \<Rightarrow> string" where
  "see_other_body url =
     ''<a href='' @ [CHR 0x22] @ url @ [CHR 0x22] @ ''>See Other</a>.'' @ [CHR 0x0A, CHR 0x0A]"

definition http_Redirect :: "request \<Rightarrow> string \<Rightarrow> response \<Rightarrow> response" where
  "http_Redirect rq url rs =
     (let rs1 = (set_header ''Location'' url rs)\<lparr>rs_status := 303\<rparr>
      in if rq_Method rq = ''GET'' \<or> rq_Method rq = ''HEAD''
         then (set_header ''Content-Type'' ''text/html; charset=utf-8'' rs1)
                \<lparr>rs_body := (if rq_Method rq = ''GET'' then see_other_body url else [])\<rparr>
         else rs1)"

text \<open>A page of the padded writer: \<open>None\<close> is a failing template, whose output is dropped.  The
  padding of \<open>Flush\<close> never panics (\<open>pad_body_total\<close>).\<close>

definition write_page :: "string option \<Rightarrow> response \<Rightarrow> response" where
  "write_page out rs =
     (let rs1 = set_header ''Content-Type'' ''text/html; charset=utf-8'' rs
      in case out of
           None \<Rightarrow> http_Error ''render error'' 500 rs1
         | Some page \<Rightarrow> rs1\<lparr>rs_body := the (pad_body page)\<rparr>)"

section \<open>The request multiplexer\<close>

text \<open>\<open>http.ServeMux\<close> sends a request for a path that is not clean, and one for a registered
  tree without its trailing slash, to the right path.  The status of that redirect was 301 and
  became 307 in recent Go releases: which one is a parameter, as is the rendering of the target URL,
  which carries the raw query along, and of the body.  Patterns are compared with the decoded segments of the path.\<close>

record mux_lib =
  mux_Permanent :: bool
  mux_URL :: "request \<Rightarrow> string \<Rightarrow> string"
  mux_Body :: "request \<Rightarrow> string \<Rightarrow> string"

definition cleanPath :: "string \<Rightarrow> string" where
  "cleanPath p =
     (if p = [] then [slash]
      else let q = (if hd p = slash then p else slash # p); np = Clean q
           in if last q = slash \<and> np \<noteq> [slash] then np @ [slash] else np)"

definition path_segments :: "string \<Rightarrow> string list" where
  "path_segments p = map pathUnescape (tl (split_on slash p))"

definition mux_redirect :: "mux_lib \<Rightarrow> string \<Rightarrow> request \<Rightarrow> response \<Rightarrow> response" where
  "mux_redirect L p rq rs =
     (let rs1 = (set_header ''Location'' (mux_URL L rq p) rs)
                  \<lparr>rs_status := (if mux_Permanent L then 301 else 307)\<rparr>
      in if rq_Method rq = ''GET'' \<or> rq_Method rq = ''HEAD''
         then (set_header ''Content-Type'' ''text/html; charset=utf-8'' rs1)
                \<lparr>rs_body := (if rq_Method rq = ''GET'' then mux_Body L rq p else [])\<rparr>
         else rs1)"

section \<open>Facts\<close>

lemma cookies_Error [simp]: "rs_cookies (http_Error m c rs) = rs_cookies rs"
  by (simp add: http_Error_def set_header_def)

lemma status_Error [simp]: "rs_status (http_Error m c rs) = c"
  by (simp add: http_Error_def)

lemma cookies_page [simp]: "rs_cookies (write_page out rs) = rs_cookies rs"
  by (cases out) (simp_all add: write_page_def Let_def set_header_def)

lemma cookies_Redirect [simp]: "rs_cookies (http_Redirect rq url rs) = rs_cookies rs"
  by (simp add: http_Redirect_def Let_def set_header_def)

lemma status_Redirect [simp]: "rs_status (http_Redirect rq url rs) = 303"
  by (simp add: http_Redirect_def Let_def set_header_def)

lemma location_Redirect: "map_of (rs_headers (http_Redirect rq url rs)) ''Location'' = Some url"
  by (simp add: http_Redirect_def Let_def set_header_def map_of_al_put)

lemma page_length:
  assumes "rs_status (write_page out rs) \<noteq> 500" and "rs_status rs = 200"
  shows "4096 dvd length (rs_body (write_page out rs))"
proof (cases out)
  case None
  with assms show ?thesis by (simp add: write_page_def Let_def)
next
  case (Some page)
  obtain b where "pad_body page = Some b" "4096 dvd length b" using pad_body_total by blast
  with Some show ?thesis by (simp add: write_page_def Let_def)
qed

end
