(* ===== verification/Session.thy ===== *)
theory Session
  imports Http
begin

text \<open>
  \<open>internal/kakekomi/session.go\<close>: the in-memory sessions of the receiver's dashboard, the CSRF
  token bound to a session, the double-submit token of the public forms, and the cookies.

  The Go map from token to session is an association list behind the interface
  \<open>keyed_table\<close>; the mutex is not modelled, since every operation holds it throughout.
\<close>

section \<open>State\<close>

definition SessionCookie :: string where "SessionCookie = ''kakekomi_admin''"
definition CSRFFormField :: string where "CSRFFormField = ''_csrf''"
definition AnonCSRFCookie :: string where "AnonCSRFCookie = ''kakekomi_anon_csrf''"
definition idleTimeout :: int where "idleTimeout = 15 * 60 * second"

record session =
  se_Token :: string
  se_CreatedAt :: int
  se_LastSeen :: int

record session_store =
  ss_sessions :: "(string \<times> session) list"
  ss_csrfKey :: bytes

definition NewSessionStore :: "bytes \<Rightarrow> session_store" where
  "NewSessionStore csrfKey = \<lparr>ss_sessions = [], ss_csrfKey = csrfKey\<rparr>"

definition ss_get :: "session_store \<Rightarrow> string \<Rightarrow> session option" where
  "ss_get ss tok = map_of (ss_sessions ss) tok"

definition ss_put :: "string \<Rightarrow> session \<Rightarrow> session_store \<Rightarrow> session_store" where
  "ss_put tok se ss = ss\<lparr>ss_sessions := al_put tok se (ss_sessions ss)\<rparr>"

definition ss_delete :: "string \<Rightarrow> session_store \<Rightarrow> session_store" where
  "ss_delete tok ss = ss\<lparr>ss_sessions := al_del tok (ss_sessions ss)\<rparr>"

interpretation sst: keyed_table ss_get ss_delete ss_put
  by unfold_locales (simp_all add: ss_get_def ss_put_def ss_delete_def map_of_al_put map_of_al_del)

section \<open>Operations\<close>

definition session_New :: "session_store \<Rightarrow> 'a os_scheme
    \<Rightarrow> (error + session) \<times> session_store \<times> 'a os_scheme" where
  "session_New ss w =
     (case readRandom 32 w of
        (Inl e, w1) \<Rightarrow> (Inl e, ss, w1)
      | (Inr b, w1) \<Rightarrow>
          (let tok = hex_EncodeToString b; now = os_now w1;
               sess = \<lparr>se_Token = tok, se_CreatedAt = now, se_LastSeen = now\<rparr>
           in (Inr sess, ss_put tok sess ss, w1)))"

definition Touch :: "string \<Rightarrow> int \<Rightarrow> session_store \<Rightarrow> session option \<times> session_store" where
  "Touch token now ss =
     (if token = [] then (None, ss)
      else case ss_get ss token of
        None \<Rightarrow> (None, ss)
      | Some sess \<Rightarrow>
          (if idleTimeout < sat64 (now - se_LastSeen sess) then (None, ss_delete token ss)
           else let sess' = sess\<lparr>se_LastSeen := now\<rparr> in (Some sess', ss_put token sess' ss)))"

definition Destroy :: "string \<Rightarrow> session_store \<Rightarrow> session_store" where
  "Destroy token ss = ss_delete token ss"

definition CSRFToken :: "session_store \<Rightarrow> string \<Rightarrow> string" where
  "CSRFToken ss sessionToken =
     hex_EncodeToString (hmac_sha256 (ss_csrfKey ss) (bytes_of ''kakekomi/v1/csrf'' @ bytes_of sessionToken))"

definition VerifyCSRF :: "session_store \<Rightarrow> string \<Rightarrow> string \<Rightarrow> bool" where
  "VerifyCSRF ss sessionToken formToken =
     (let want = CSRFToken ss sessionToken
      in hmac_Equal (bytes_of want) (bytes_of (TrimSpace formToken)))"

definition NewAnonCSRFToken :: "'a os_scheme \<Rightarrow> (error + string) \<times> 'a os_scheme" where
  "NewAnonCSRFToken w =
     (case readRandom 32 w of
        (Inl e, w1) \<Rightarrow> (Inl e, w1)
      | (Inr b, w1) \<Rightarrow> (Inr (hex_EncodeToString b), w1))"

definition VerifyAnonCSRF :: "string \<Rightarrow> string \<Rightarrow> bool" where
  "VerifyAnonCSRF cookieValue formValue =
     (if cookieValue = [] \<or> formValue = [] then False
      else hmac_Equal (bytes_of (TrimSpace cookieValue)) (bytes_of (TrimSpace formValue)))"

section \<open>Cookies\<close>

fun indexOfColon_from :: "int \<Rightarrow> string \<Rightarrow> int" where
  "indexOfColon_from i [] = - 1"
| "indexOfColon_from i (c # s) = (if c = CHR '':'' then i else indexOfColon_from (i + 1) s)"

definition indexOfColon :: "string \<Rightarrow> int" where
  "indexOfColon s = indexOfColon_from 0 s"

definition endsWith :: "string \<Rightarrow> string \<Rightarrow> bool" where
  "endsWith s suf = (if length s < length suf then False else drop (length s - length suf) s = suf)"

definition secureContext :: "request \<Rightarrow> bool" where
  "secureContext rq =
     (if rq_TLS rq then True
      else let i = indexOfColon (rq_Host rq);
               host = (if 0 \<le> i then take (nat i) (rq_Host rq) else rq_Host rq)
           in endsWith host ''.onion'')"

definition setAnonCSRFCookieAt :: "request \<Rightarrow> string \<Rightarrow> string \<Rightarrow> response \<Rightarrow> response" where
  "setAnonCSRFCookieAt rq path val = http_SetCookie
     \<lparr>ck_Name = AnonCSRFCookie, ck_Value = val, ck_Path = path, ck_HttpOnly = True,
      ck_Secure = secureContext rq, ck_SameSite = ''Strict'', ck_MaxAge = 600\<rparr>"

definition setAnonCSRFCookie :: "request \<Rightarrow> string \<Rightarrow> response \<Rightarrow> response" where
  "setAnonCSRFCookie rq val = setAnonCSRFCookieAt rq ''/submit'' val"

definition readAnonCSRFCookie :: "request \<Rightarrow> string" where
  "readAnonCSRFCookie rq = (case rq_Cookie AnonCSRFCookie rq of None \<Rightarrow> [] | Some v \<Rightarrow> v)"

definition setSessionCookie :: "request \<Rightarrow> string \<Rightarrow> response \<Rightarrow> response" where
  "setSessionCookie rq token = http_SetCookie
     \<lparr>ck_Name = SessionCookie, ck_Value = token, ck_Path = ''/admin'', ck_HttpOnly = True,
      ck_Secure = secureContext rq, ck_SameSite = ''Strict'', ck_MaxAge = idleTimeout div second\<rparr>"

definition clearSessionCookie :: "request \<Rightarrow> response \<Rightarrow> response" where
  "clearSessionCookie rq = http_SetCookie
     \<lparr>ck_Name = SessionCookie, ck_Value = [], ck_Path = ''/admin'', ck_HttpOnly = True,
      ck_Secure = secureContext rq, ck_SameSite = ''Strict'', ck_MaxAge = - 1\<rparr>"

definition readSessionCookie :: "request \<Rightarrow> string" where
  "readSessionCookie rq = (case rq_Cookie SessionCookie rq of None \<Rightarrow> [] | Some v \<Rightarrow> v)"

section \<open>Sessions over time\<close>

text \<open>The events that change the session map: a login with the entropy it drew, a request that
  presents a token, a logout.  Each carries the time at which it happens.\<close>

datatype session_event = Login bytes int | Request string int | Logout string int

fun event_time :: "session_event \<Rightarrow> int" where
  "event_time (Login b t) = t"
| "event_time (Request tok t) = t"
| "event_time (Logout tok t) = t"

inductive session_run :: "bytes \<Rightarrow> session_event list \<Rightarrow> session_store \<Rightarrow> bool" for key where
  start: "session_run key [] (NewSessionStore key)"
| login: "session_run key es ss \<Longrightarrow> readRandom 32 (w :: os) = (Inr b, w1) \<Longrightarrow>
    session_New ss w = (Inr se, ss', w') \<Longrightarrow> session_run key (es @ [Login b (os_now w)]) ss'"
| request: "session_run key es ss \<Longrightarrow> Touch tok t ss = (r, ss') \<Longrightarrow>
    session_run key (es @ [Request tok t]) ss'"
| logout: "session_run key es ss \<Longrightarrow> session_run key (es @ [Logout tok t]) (Destroy tok ss)"

text \<open>The times at which the requests of a history present a token, and the histories in which
  the token is neither logged out nor issued again.\<close>

fun presented :: "string \<Rightarrow> session_event list \<Rightarrow> int list" where
  "presented tok [] = []"
| "presented tok (Request k t # es) = (if k = tok then t # presented tok es else presented tok es)"
| "presented tok (e # es) = presented tok es"

fun touches_token :: "string \<Rightarrow> session_event \<Rightarrow> bool" where
  "touches_token tok (Logout k t) = (k = tok)"
| "touches_token tok (Login b t) = (hex_EncodeToString b = tok)"
| "touches_token tok (Request k t) = False"

definition within_idle :: "int list \<Rightarrow> bool" where
  "within_idle ts \<longleftrightarrow> successively (\<lambda>a b. b - a \<le> idleTimeout) ts"

text \<open>\<open>access_times tok es ts\<close>: the latest issue of the token in the history and every request
  that presented it since, when it was not logged out in between.\<close>

definition access_times :: "string \<Rightarrow> session_event list \<Rightarrow> int list \<Rightarrow> bool" where
  "access_times tok es ts \<longleftrightarrow> (\<exists>es1 b t0 es2. es = es1 @ Login b t0 # es2
     \<and> hex_EncodeToString b = tok \<and> (\<forall>e \<in> set es2. \<not> touches_token tok e)
     \<and> ts = t0 # presented tok es2)"

lemma presented_append [simp]: "presented tok (es @ fs) = presented tok es @ presented tok fs"
  by (induction tok es rule: presented.induct) auto

lemma access_Nil [simp]: "\<not> access_times tok [] ts"
  by (simp add: access_times_def)

lemma access_nonempty: "access_times tok es ts \<Longrightarrow> ts \<noteq> []"
  by (auto simp: access_times_def)

lemma snoc_split:
  "es @ [e] = es1 @ x # es2 \<longleftrightarrow> (es2 = [] \<and> es1 = es \<and> x = e) \<or> (\<exists>es3. es2 = es3 @ [e] \<and> es = es1 @ x # es3)"
  by (cases es2 rule: rev_cases) auto

lemma access_snocD:
  assumes "access_times tok (es @ [e]) ts"
  shows "(\<exists>b t. e = Login b t \<and> hex_EncodeToString b = tok \<and> ts = [t])
     \<or> \<not> touches_token tok e \<and> (\<exists>us. access_times tok es us \<and> ts = us @ presented tok [e])"
proof -
  from assms obtain es1 b t0 es2 where d: "es @ [e] = es1 @ Login b t0 # es2" "hex_EncodeToString b = tok"
    "\<forall>e \<in> set es2. \<not> touches_token tok e" "ts = t0 # presented tok es2"
    unfolding access_times_def by blast
  from d(1) consider "es2 = []" "e = Login b t0" | es3 where "es2 = es3 @ [e]" "es = es1 @ Login b t0 # es3"
    by (auto simp: snoc_split)
  then show ?thesis
  proof cases
    case 1
    with d show ?thesis by auto
  next
    case 2
    with d have "access_times tok es (t0 # presented tok es3)" by (auto simp: access_times_def)
    with 2 d show ?thesis by (metis presented_append append_Cons in_set_conv_decomp)
  qed
qed

lemma access_snocI:
  assumes "access_times tok es us" and "\<not> touches_token tok e"
  shows "access_times tok (es @ [e]) (us @ presented tok [e])"
proof -
  from assms(1) obtain es1 b t0 es2 where "es = es1 @ Login b t0 # es2" "hex_EncodeToString b = tok"
    "\<forall>e \<in> set es2. \<not> touches_token tok e" "us = t0 # presented tok es2"
    unfolding access_times_def by blast
  with assms(2) show ?thesis
    unfolding access_times_def
    by (intro exI [of _ es1] exI [of _ b] exI [of _ t0] exI [of _ "es2 @ [e]"]) auto
qed

lemma access_Login:
  "access_times tok (es @ [Login b t]) ts \<longleftrightarrow>
     (if hex_EncodeToString b = tok then ts = [t] else access_times tok es ts)"
proof (cases "hex_EncodeToString b = tok")
  case True
  then have "access_times tok (es @ [Login b t]) [t]"
    unfolding access_times_def by (intro exI [of _ es] exI [of _ b] exI [of _ t] exI [of _ "[]"]) simp
  with True access_snocD [of tok es "Login b t" ts] show ?thesis by auto
next
  case False
  with access_snocD [of tok es "Login b t" ts] access_snocI [of tok es ts "Login b t"] show ?thesis
    by auto
qed

lemma access_Logout: "access_times tok (es @ [Logout k t]) ts \<longleftrightarrow> k \<noteq> tok \<and> access_times tok es ts"
  using access_snocD [of tok es "Logout k t" ts] access_snocI [of tok es ts "Logout k t"] by auto

lemma access_Request:
  "access_times tok (es @ [Request k t]) ts \<longleftrightarrow>
     (if k = tok then \<exists>us. access_times tok es us \<and> ts = us @ [t] else access_times tok es ts)"
  using access_snocD [of tok es "Request k t" ts] access_snocI [of tok es _ "Request k t"] by auto

definition alive :: "string \<Rightarrow> session_event list \<Rightarrow> int \<Rightarrow> bool" where
  "alive tok es u \<longleftrightarrow> (\<exists>ts. access_times tok es ts \<and> within_idle ts \<and> u = last ts)"

lemma within_idle_snoc: "ts \<noteq> [] \<Longrightarrow> within_idle (ts @ [t]) \<longleftrightarrow> within_idle ts \<and> t - last ts \<le> idleTimeout"
  unfolding within_idle_def successively_append_iff by auto

lemma alive_Nil [simp]: "\<not> alive tok [] u"
  by (simp add: alive_def)

lemma alive_Login:
  "alive tok (es @ [Login b t]) u \<longleftrightarrow> (if hex_EncodeToString b = tok then u = t else alive tok es u)"
  by (auto simp: alive_def access_Login within_idle_def)

lemma alive_Logout: "alive tok (es @ [Logout k t]) u \<longleftrightarrow> k \<noteq> tok \<and> alive tok es u"
  by (auto simp: alive_def access_Logout)

lemma alive_Request:
  "alive tok (es @ [Request k t]) u \<longleftrightarrow>
     (if k = tok then u = t \<and> (\<exists>v. alive tok es v \<and> t - v \<le> idleTimeout) else alive tok es u)"
proof (cases "k = tok")
  case True
  have "within_idle (ts @ [t]) \<longleftrightarrow> within_idle ts \<and> t - last ts \<le> idleTimeout"
    if "access_times tok es ts" for ts
    using within_idle_snoc access_nonempty [OF that] by blast
  with True show ?thesis by (auto simp: alive_def access_Request)
next
  case False
  then show ?thesis by (simp add: alive_def access_Request)
qed

lemma sat_idle: "idleTimeout < sat64 d \<longleftrightarrow> idleTimeout < d"
  by (auto simp: sat64_def idleTimeout_def second_def)

lemma session_state:
  "session_run key es ss \<Longrightarrow>
     (\<exists>se. ss_get ss tok = Some se \<and> se_LastSeen se = u) = alive tok es u \<and> ss_get ss [] = None"
proof (induction arbitrary: u tok rule: session_run.induct)
  case start
  then show ?case by (simp add: NewSessionStore_def ss_get_def)
next
  case (login es ss w b w1 se ss' w')
  then have ss': "ss' = ss_put (hex_EncodeToString b) se ss" "se_LastSeen se = os_now w"
    by (auto simp: session_New_def Let_def readRandom_def split: if_splits)
  have "length b = 32" using login(2) by (auto simp: readRandom_def split: if_splits)
  then have "hex_EncodeToString b \<noteq> []" by (cases b) auto
  with login ss' show ?case by (auto simp: alive_Login sst.get_put)
next
  case (request es ss k t r ss')
  have none: "ss_get ss [] = None" using request by blast
  have not: "\<not> alive [] es v" for v using request(3) [of "[]" v] none by auto
  show ?case
  proof (cases "k = []")
    case True
    then have "ss' = ss" using request(2) by (simp add: Touch_def)
    with request(3) [of tok u] True not show ?thesis by (auto simp: alive_Request)
  next
    case False
    have "(\<exists>se. ss_get ss' tok = Some se \<and> se_LastSeen se = u) = alive tok (es @ [Request k t]) u"
    proof (cases "tok = k")
      case True
      have "alive tok es v \<longleftrightarrow> (\<exists>se. ss_get ss tok = Some se \<and> se_LastSeen se = v)" for v
        using request(3) by blast
      with True False request(2) show ?thesis
        by (auto simp: Touch_def alive_Request Let_def sst.get_put sst.get_del sat_idle not_less
            split: option.splits if_splits)
    next
      case other: False
      with False request(2) request(3) [of tok u] show ?thesis
        by (auto simp: Touch_def alive_Request Let_def sst.get_put sst.get_del
            split: option.splits if_splits)
    qed
    moreover have "ss_get ss' [] = None"
      using none False request(2)
      by (auto simp: Touch_def Let_def sst.get_put sst.get_del split: option.splits if_splits)
    ultimately show ?thesis by blast
  qed
next
  case (logout es ss k t)
  then show ?case by (auto simp: Destroy_def alive_Logout sst.get_del)
qed

lemma ex_access:
  "(\<exists>ts. access_times tok es ts \<and> P ts) \<longleftrightarrow> (\<exists>es1 b t0 es2. es = es1 @ Login b t0 # es2
     \<and> hex_EncodeToString b = tok \<and> (\<forall>e \<in> set es2. \<not> touches_token tok e)
     \<and> P (t0 # presented tok es2))"
  unfolding access_times_def by blast

text \<open>C22: a token presented at some time is accepted exactly when the history holds a login that
  issued it, no logout and no later login of it since, and no two consecutive uses of it, the
  login and the present one included, are more than fifteen minutes apart.\<close>

theorem Touch_accepts_iff:
  assumes "session_run key es ss"
  shows "(\<exists>se. fst (Touch tok t ss) = Some se) \<longleftrightarrow>
     (\<exists>es1 b t0 es2. es = es1 @ Login b t0 # es2 \<and> hex_EncodeToString b = tok
        \<and> (\<forall>e \<in> set es2. \<not> touches_token tok e)
        \<and> successively (\<lambda>a b. b - a \<le> 900 * second) (t0 # presented tok es2 @ [t]))"
proof -
  have st: "(\<exists>se. ss_get ss tok = Some se \<and> se_LastSeen se = u) = alive tok es u" "ss_get ss [] = None" for u
    using session_state [OF assms] by blast+
  have "(\<exists>se. fst (Touch tok t ss) = Some se) \<longleftrightarrow> (\<exists>u. alive tok es u \<and> t - u \<le> idleTimeout)"
    using st by (auto simp: Touch_def Let_def sat_idle not_less st(1) [symmetric] split: option.splits if_splits)
  also have "\<dots> \<longleftrightarrow> (\<exists>ts. access_times tok es ts \<and> within_idle (ts @ [t]))"
    unfolding alive_def using within_idle_snoc access_nonempty by blast
  also have "\<dots> \<longleftrightarrow> (\<exists>es1 b t0 es2. es = es1 @ Login b t0 # es2 \<and> hex_EncodeToString b = tok
        \<and> (\<forall>e \<in> set es2. \<not> touches_token tok e) \<and> within_idle ((t0 # presented tok es2) @ [t]))"
    by (rule ex_access)
  finally show ?thesis by (simp add: within_idle_def idleTimeout_def)
qed

lemma indexOfColon_takeWhile:
  "indexOfColon_from i s = (if CHR '':'' \<in> set s then i + int (length (takeWhile (\<lambda>c. c \<noteq> CHR '':'') s)) else - 1)"
  by (induction i s rule: indexOfColon_from.induct) auto

lemma endsWith_iff: "endsWith s suf \<longleftrightarrow> (\<exists>p. s = p @ suf)"
proof
  assume "endsWith s suf"
  then have "s = take (length s - length suf) s @ suf"
    by (metis append_take_drop_id endsWith_def)
  then show "\<exists>p. s = p @ suf" by blast
next
  assume "\<exists>p. s = p @ suf"
  then show "endsWith s suf" by (auto simp: endsWith_def)
qed

lemma host_part:
  "(let i = indexOfColon s in if 0 \<le> i then take (nat i) s else s) = takeWhile (\<lambda>c. c \<noteq> CHR '':'') s"
  by (auto simp: indexOfColon_def indexOfColon_takeWhile takeWhile_eq_take [symmetric] Let_def
      intro!: takeWhile_all [symmetric])

text \<open>Cookies carry the \<open>Secure\<close> flag exactly for requests over TLS and for hosts that, up
  to the first colon, end in \<open>.onion\<close>.\<close>

lemma secureContext_iff:
  "secureContext rq \<longleftrightarrow> rq_TLS rq \<or> (\<exists>p. takeWhile (\<lambda>c. c \<noteq> CHR '':'') (rq_Host rq) = p @ ''.onion'')"
  using host_part [of "rq_Host rq"] by (auto simp: secureContext_def Let_def endsWith_iff)

lemma VerifyCSRF_iff: "VerifyCSRF ss tok formTok \<longleftrightarrow> TrimSpace formTok = CSRFToken ss tok"
  by (auto simp: VerifyCSRF_def Let_def)

lemma VerifyAnonCSRF_iff:
  "VerifyAnonCSRF c f \<longleftrightarrow> c \<noteq> [] \<and> f \<noteq> [] \<and> TrimSpace c = TrimSpace f"
  by (simp add: VerifyAnonCSRF_def)

lemma VerifyCSRF_own [simp]: "VerifyCSRF ss tok (CSRFToken ss tok)"
  by (simp add: VerifyCSRF_def Let_def CSRFToken_def)

theorem Touch_accepts_iff_witness:
  "\<exists>ss. session_run [1] [Login (replicate 32 7) (os_now demo_os)] ss
     \<and> (\<exists>se. fst (Touch (hex_EncodeToString (replicate 32 7)) (os_now demo_os + 900 * second) ss) = Some se)
     \<and> fst (Touch (hex_EncodeToString (replicate 32 7)) (os_now demo_os + 900 * second + 1) ss) = None"
proof -
  let ?b = "replicate 32 7 :: bytes" and ?t = "os_now demo_os"
  obtain w1 where r: "readRandom 32 demo_os = (Inr ?b, w1)"
    using take_replicate [of 32 400 "7 :: byte"] by (auto simp: readRandom_def demo_rng)
  obtain se ss w' where n: "session_New (NewSessionStore [1]) demo_os = (Inr se, ss, w')"
    using r by (auto simp: session_New_def Let_def)
  have run: "session_run [1] [Login ?b ?t] ss"
    using session_run.login [OF session_run.start r n] by simp
  note iff = Touch_accepts_iff [OF run, of "hex_EncodeToString ?b"]
  have "\<exists>se. fst (Touch (hex_EncodeToString ?b) (?t + 900 * second) ss) = Some se"
    unfolding iff by (intro exI [of _ "[]"] exI [of _ ?b] exI [of _ ?t]) simp
  moreover have "\<not> (\<exists>se. fst (Touch (hex_EncodeToString ?b) (?t + 900 * second + 1) ss) = Some se)"
    unfolding iff by (auto simp: Cons_eq_append_conv)
  ultimately show ?thesis using run by auto
qed

end
