(* ===== verification/Pages.thy ===== *)
theory Pages
  imports Store_Laws Session Secrets_File
begin

text \<open>
  The application of \<open>internal/kakekomi/handlers.go\<close>, its pages, and the templates of
  \<open>templates.go\<close>.

  A handler takes the request, the response under construction (the middleware has set headers on
  it already) and the state of the server; it returns the response and the new state.  The state
  is the store's world with the session map.  The HTML templates are executed by \<open>html/template\<close>:
  \<open>exec name data\<close> is what executing the layout of page \<open>name\<close> writes, or \<open>None\<close> when it fails.
\<close>

section \<open>View data\<close>

record submit_form =
  sf_Fields :: "field list"
  sf_Attachments :: attachments_config

record reply_view =
  rv_Status :: string
  rv_CaseID :: string
  rv_ReplyText :: string

record inbox_item =
  ii_ID :: string
  ii_CreatedAt :: int
  ii_Bucket :: string
  ii_Read :: bool
  ii_HasReply :: bool

record case_view =
  cv_ID :: string
  cv_Created :: int
  cv_Expires :: int
  cv_Bucket :: string
  cv_HasReply :: bool

record reply_admin_view =
  ra_ID :: string
  ra_Status :: string
  ra_HasReply :: bool

datatype view =
    VNone
  | VText string
  | VSubmit submit_form
  | VReply reply_view
  | VInbox "inbox_item list"
  | VCase case_view
  | VAdminReply reply_admin_view

record page_data =
  pd_SiteTitle :: string
  pd_SiteIntro :: string
  pd_CSRF :: string
  pd_PoWToken :: string
  pd_Honeypot :: bool
  pd_Data :: view

section \<open>Application and state\<close>

type_synonym page_template = "page_data \<Rightarrow> string option"

definition template_names :: "string list" where
  "template_names = [''index'', ''submit'', ''done'', ''reply'',
     ''admin_login'', ''admin_inbox'', ''admin_case'', ''admin_reply'']"

definition loadTemplates :: "(string \<Rightarrow> page_template) \<Rightarrow> (string \<times> page_template) list" where
  "loadTemplates exec = map (\<lambda>p. (p, exec p)) template_names"

record ('i, 'g) app =
  app_Prims :: prims
  app_Codecs :: "('i, 'g) image_codecs"
  app_Config :: config
  app_Secrets :: secrets
  app_Templates :: "(string \<times> page_template) list"
  app_CSS :: "string option"

record server = world +
  sv_sessions :: session_store

section \<open>Rendering\<close>

definition new_page :: "('i, 'g) app \<Rightarrow> view \<Rightarrow> page_data" where
  "new_page a d = \<lparr>pd_SiteTitle = site_Title (cfg_Site (app_Config a)),
     pd_SiteIntro = site_Intro (cfg_Site (app_Config a)), pd_CSRF = [], pd_PoWToken = [],
     pd_Honeypot = sec_Honeypot (cfg_Security (app_Config a)), pd_Data = d\<rparr>"

definition session_page :: "('i, 'g) app \<Rightarrow> session_store \<Rightarrow> request \<Rightarrow> view \<Rightarrow> page_data" where
  "session_page a ss rq d =
     (let tok = readSessionCookie rq in
      if tok \<noteq> [] then (new_page a d)\<lparr>pd_CSRF := CSRFToken ss tok\<rparr> else new_page a d)"

definition render :: "('i, 'g) app \<Rightarrow> session_store \<Rightarrow> request \<Rightarrow> string \<Rightarrow> view \<Rightarrow> response \<Rightarrow> response" where
  "render a ss rq name d rs =
     (case map_of (app_Templates a) name of
        None \<Rightarrow> http_Error (''template not found: '' @ name) 500 rs
      | Some t \<Rightarrow> write_page (t (session_page a ss rq d)) rs)"

definition public_page :: "('i, 'g) app \<Rightarrow> view \<Rightarrow> string \<Rightarrow> string \<Rightarrow> page_data" where
  "public_page a d powToken anonCSRF =
     (new_page a d)\<lparr>pd_PoWToken := powToken, pd_CSRF := anonCSRF\<rparr>"

definition renderPublic :: "('i, 'g) app \<Rightarrow> request \<Rightarrow> string \<Rightarrow> view \<Rightarrow> string \<Rightarrow> string
    \<Rightarrow> response \<Rightarrow> response" where
  "renderPublic a rq name d powToken anonCSRF rs =
     (case map_of (app_Templates a) name of
        None \<Rightarrow> http_Error (''template not found: '' @ name) 500 rs
      | Some t \<Rightarrow>
          (let rs1 = (if anonCSRF \<noteq> [] then setAnonCSRFCookie rq anonCSRF rs else rs)
           in write_page (t (public_page a d powToken anonCSRF)) rs1))"

text \<open>A deferred \<open>FixedWaitUntil\<close> runs after the handler on every path.\<close>

definition with_floor :: "int \<Rightarrow> (request \<Rightarrow> response \<Rightarrow> 'a server_scheme \<Rightarrow> response \<times> 'a server_scheme)
    \<Rightarrow> request \<Rightarrow> response \<Rightarrow> 'a server_scheme \<Rightarrow> response \<times> 'a server_scheme" where
  "with_floor d h rq rs sv =
     (let deadline = os_now sv + d in
      case h rq rs sv of (rs1, sv1) \<Rightarrow> (rs1, FixedWaitUntil deadline sv1))"

section \<open>Public pages\<close>

definition handleStaticCSS :: "('i, 'g) app \<Rightarrow> request \<Rightarrow> response \<Rightarrow> 'a server_scheme
    \<Rightarrow> response \<times> 'a server_scheme" where
  "handleStaticCSS a rq rs sv =
     (case app_CSS a of
        None \<Rightarrow> (http_NotFound rs, sv)
      | Some b \<Rightarrow> ((set_header ''Content-Type'' ''text/css; charset=utf-8'' rs)\<lparr>rs_body := b\<rparr>, sv))"

definition handleIndex :: "('i, 'g) app \<Rightarrow> request \<Rightarrow> response \<Rightarrow> 'a server_scheme
    \<Rightarrow> response \<times> 'a server_scheme" where
  "handleIndex a rq rs sv =
     (if URL_Path rq \<noteq> ''/'' then (http_NotFound rs, sv)
      else (renderPublic a rq ''index'' VNone [] [] rs, sv))"

end
