(* ===== verification/Submit.thy ===== *)
theory Submit
  imports Pages
begin

text \<open>
  The submission handler of \<open>internal/kakekomi/handlers.go\<close>: \<open>handleSubmit\<close> and
  \<open>processSubmit\<close>, from the parsed form to the stored case.

  A refusal is the message and the status code given to \<open>http.Error\<close>.
\<close>

type_synonym refusal = "string \<times> int"

section \<open>The form\<close>

definition max_body :: "attachments_config \<Rightarrow> int" where
  "max_body ac =
     (let m = i64 (i64 (i64 (ac_MaxTotalSizeMB ac * 1024) * 1024) + 2 ^ 20)
      in if m < 2 * 2 ^ 20 then 2 * 2 ^ 20 else m)"

fun collect_fields :: "form \<Rightarrow> field list \<Rightarrow> (string \<times> string) list
    \<Rightarrow> refusal + (string \<times> string) list" where
  "collect_fields fm [] vals = Inr vals"
| "collect_fields fm (f # fs) vals =
     (let v = TrimSpace (FormValue fm (fld_ID f)) in
      if fld_Required f \<and> v = [] then Inl (''required field missing: '' @ fld_ID f, 400)
      else if 0 < fld_MaxLength f \<and> fld_MaxLength f < int (length v)
      then Inl (''field too long: '' @ fld_ID f, 400)
      else collect_fields fm fs (if v \<noteq> [] then al_put (fld_ID f) v vals else vals))"

definition attachment_uploads :: "form \<Rightarrow> upload list" where
  "attachment_uploads fm = (case fm_Files fm of None \<Rightarrow> []
     | Some fs \<Rightarrow> map snd (filter (\<lambda>kf. fst kf = ''attachments'') fs))"

definition MB :: "int \<Rightarrow> int" where
  "MB n = i64 (i64 (n * 1024) * 1024)"

fun collect_attachments :: "('i, 'g) image_codecs \<Rightarrow> attachments_config \<Rightarrow> upload list \<Rightarrow> int
    \<Rightarrow> refusal + attachment list" where
  "collect_attachments C ac [] totalSize = Inr []"
| "collect_attachments C ac (fh # fs) totalSize =
     (if MB (ac_MaxSizeMBPerFile ac) < up_Size fh then Inl (''attachment too large'', 400)
      else let total = i64 (totalSize + up_Size fh) in
      if MB (ac_MaxTotalSizeMB ac) < total then Inl (''total attachment size exceeds limit'', 400)
      else case up_Open fh of
        OpenError \<Rightarrow> Inl (''open attachment'', 400)
      | ReadError \<Rightarrow> Inl (''read attachment'', 400)
      | Content data \<Rightarrow>
          (case VerifyAttachment data (ac_AllowedMIME ac) of
             (_, Some e) \<Rightarrow> Inl (''attachment rejected: '' @ err_Error e, 415)
           | (mt, None) \<Rightarrow>
               (case (if ac_StripMetadata ac \<and> HasPrefix mt ''image/''
                      then StripImageMetadata C data else Inr (data, mt)) of
                  Inl e \<Rightarrow> Inl (''image strip failed'', 400)
                | Inr (data', mt') \<Rightarrow>
                    (case collect_attachments C ac fs total of
                       Inl r \<Rightarrow> Inl r
                     | Inr atts \<Rightarrow>
                         Inr (\<lparr>att_OriginalName = up_Filename fh, att_MIME = mt', att_Data = data'\<rparr>
                              # atts)))))"

definition form_attachments :: "('i, 'g) app \<Rightarrow> form \<Rightarrow> refusal + attachment list" where
  "form_attachments a fm =
     (let ac = cfg_Attachments (app_Config a) in
      if ac_Enabled ac \<and> fm_Files fm \<noteq> None
      then (let files = attachment_uploads fm in
            if ac_MaxFiles ac < int (length files) then Inl (''too many attachments'', 400)
            else collect_attachments (app_Codecs a) ac files 0)
      else Inr [])"

section \<open>The case\<close>

definition case_ttl :: "config \<Rightarrow> int" where
  "case_ttl c =
     (let ttl = i64 (i64 (cfg_DefaultTTLDays c * 24) * hour)
      in if ttl \<le> 0 then 90 * 24 * hour else ttl)"

definition submit_case :: "('i, 'g) app \<Rightarrow> (string \<times> string) list \<Rightarrow> attachment list
    \<Rightarrow> 'a server_scheme \<Rightarrow> (refusal + string) \<times> 'a server_scheme" where
  "submit_case a vals atts sv =
     (case GenerateCode (app_Prims a) sv of
        (Inl e, sv1) \<Rightarrow> (Inl (''code error'', 500), sv1)
      | (Inr c, sv1) \<Rightarrow>
     (case NewSalt sv1 of
        (Inl e, sv2) \<Rightarrow> (Inl (''salt error'', 500), sv2)
      | (Inr salt, sv2) \<Rightarrow>
     (let h = HashCode (app_Prims a) c salt;
          lookup = CaseCodeLookup (sx_LookupKey (app_Secrets a)) c;
          env = \<lparr>env_Code = c, env_Fields = vals, env_Attachments = atts, env_ReceivedAt = os_now sv2\<rparr>
      in case PackSubmission env of
        Inl e \<Rightarrow> (Inl (''pack error'', 500), sv2)
      | Inr tarBlob \<Rightarrow>
     (case EncryptToReceiver (app_Prims a) (recv_PublicKey (cfg_Receiver (app_Config a))) tarBlob sv2 of
        (Inl e, sv3) \<Rightarrow> (Inl (''encrypt error'', 500), sv3)
      | (Inr ciphertext, sv3) \<Rightarrow>
     (case CreateCase lookup h salt (case_ttl (app_Config a)) ciphertext sv3 of
        (Inl e, sv4) \<Rightarrow> (Inl (''store error'', 500), sv4)
      | (Inr i, sv4) \<Rightarrow> (Inr c, sv4))))))"

section \<open>The handler\<close>

definition honeypot_hit :: "('i, 'g) app \<Rightarrow> form \<Rightarrow> bool" where
  "honeypot_hit a fm \<longleftrightarrow> sec_Honeypot (cfg_Security (app_Config a)) \<and> TrimSpace (FormValue fm ''hp_name'') \<noteq> []"

definition pow_refused :: "('i, 'g) app \<Rightarrow> form \<Rightarrow> 'a server_scheme \<Rightarrow> bool" where
  "pow_refused a fm sv \<longleftrightarrow> pow_Enabled (sec_PoW (cfg_Security (app_Config a)))
     \<and> VerifyPoWToken (sx_SessionMACKey (app_Secrets a)) (FormValue fm ''_pow'') sv \<noteq> None"

text \<open>The result of \<open>PoWWork\<close> is discarded: it only costs time.\<close>

definition submit_form_case :: "('i, 'g) app \<Rightarrow> form \<Rightarrow> 'a server_scheme \<Rightarrow> (refusal + string) \<times> 'a server_scheme" where
  "submit_form_case a fm sv =
     (case collect_fields fm (cfg_Fields (app_Config a)) [] of
        Inl r \<Rightarrow> (Inl r, sv)
      | Inr vals \<Rightarrow>
          (case form_attachments a fm of
             Inl r \<Rightarrow> (Inl r, sv)
           | Inr atts \<Rightarrow> submit_case a vals atts sv))"

definition process_form :: "('i, 'g) app \<Rightarrow> request \<Rightarrow> form \<times> bool \<Rightarrow> response \<Rightarrow> 'a server_scheme
    \<Rightarrow> response \<times> 'a server_scheme" where
  "process_form a rq parsed rs sv =
     (case parsed of (fm, failed) \<Rightarrow>
      if failed \<and> ParseForm_again fm \<noteq> None then (http_Error ''invalid form'' 400 rs, sv)
      else if honeypot_hit a fm
      then (renderPublic a rq ''done'' (VText ''honeypot triggered'') [] [] rs, sv)
      else if \<not> VerifyAnonCSRF (readAnonCSRFCookie rq) (FormValue fm CSRFFormField)
      then (http_Error ''CSRF token invalid'' 403 rs, sv)
      else if pow_refused a fm sv then (http_Error ''PoW token invalid or expired'' 403 rs, sv)
      else case submit_form_case a fm sv of
        (Inl (msg, st), sv1) \<Rightarrow> (http_Error msg st rs, sv1)
      | (Inr c, sv1) \<Rightarrow> (renderPublic a rq ''done'' (VText c) [] [] rs, sv1))"

definition processSubmit :: "('i, 'g) app \<Rightarrow> request \<Rightarrow> response \<Rightarrow> 'a server_scheme
    \<Rightarrow> response \<times> 'a server_scheme" where
  "processSubmit a = with_floor (2 * second)
     (\<lambda>rq. process_form a rq (parse_form (Some (max_body (cfg_Attachments (app_Config a)))) rq))"

definition handleSubmit :: "('i, 'g) app \<Rightarrow> request \<Rightarrow> response \<Rightarrow> 'a server_scheme
    \<Rightarrow> response \<times> 'a server_scheme" where
  "handleSubmit a rq rs sv =
     (if rq_Method rq = ''GET'' then
        (case IssuePoWToken (sx_SessionMACKey (app_Secrets a)) sv of (tok, sv1) \<Rightarrow>
          (case NewAnonCSRFToken sv1 of
             (Inl e, sv2) \<Rightarrow> (http_Error ''csrf gen'' 500 rs, sv2)
           | (Inr csrf, sv2) \<Rightarrow>
               (renderPublic a rq ''submit''
                  (VSubmit \<lparr>sf_Fields = cfg_Fields (app_Config a),
                            sf_Attachments = cfg_Attachments (app_Config a)\<rparr>) tok csrf rs, sv2)))
      else if rq_Method rq = ''POST'' then processSubmit a rq rs sv
      else (http_Error ''method not allowed'' 405 rs, sv))"

end
