(* ===== verification/Visit.thy ===== *)
theory Visit
  imports Submit
begin

text \<open>
  The visitor's return to a case, \<open>handleReply\<close> of \<open>internal/kakekomi/handlers.go\<close>.

  The dummy key derivations and decryptions that the code runs to hide the missing work have no
  result and are left out.
\<close>

section \<open>Reading a reply\<close>

definition open_reply :: "prims \<Rightarrow> string \<Rightarrow> string \<Rightarrow> bytes \<Rightarrow> error + bytes" where
  "open_reply P c i rb =
     (case HKDFKey (bytes_of c) (bytes_of i) HKDFReplyKey 32 of
        Inl e \<Rightarrow> Inl e
      | Inr key \<Rightarrow> DecryptSymmetric P key rb)"

definition reply_status :: "('i, 'g) app \<Rightarrow> string \<Rightarrow> string \<Rightarrow> 'a server_scheme \<Rightarrow> reply_view" where
  "reply_status a c i sv =
     (let v = \<lparr>rv_Status = ''verified'', rv_CaseID = i, rv_ReplyText = []\<rparr> in
      case ReadReply i sv of
        Inl e \<Rightarrow> v
      | Inr rb \<Rightarrow>
          (case GetCase i sv of
             Inl e \<Rightarrow> v
           | Inr ci \<Rightarrow>
               (case open_reply (app_Prims a) c (case_ID ci) rb of
                  Inl e \<Rightarrow> v
                | Inr pt \<Rightarrow> v\<lparr>rv_ReplyText := str_of pt, rv_Status := ''has-reply''\<rparr>)))"

definition no_match :: reply_view where
  "no_match = \<lparr>rv_Status = ''no-match'', rv_CaseID = [], rv_ReplyText = []\<rparr>"

definition reply_lookup :: "('i, 'g) app \<Rightarrow> string \<Rightarrow> 'a server_scheme \<Rightarrow> reply_view" where
  "reply_lookup a c sv =
     (case FindCaseByCode (app_Prims a) c (CaseCodeLookup (sx_LookupKey (app_Secrets a)) c) sv of
        Inl e \<Rightarrow> no_match
      | Inr i \<Rightarrow> reply_status a c i sv)"

definition reply_post :: "('i, 'g) app \<Rightarrow> request \<Rightarrow> response \<Rightarrow> 'a server_scheme
    \<Rightarrow> response \<times> 'a server_scheme" where
  "reply_post a rq rs sv =
     (if \<not> VerifyAnonCSRF (readAnonCSRFCookie rq) (form_value rq CSRFFormField)
      then (http_Error ''CSRF token invalid'' 403 rs, sv)
      else let c = TrimSpace (form_value rq ''code'') in
      if c = [] then (http_Error ''code required'' 400 rs, sv)
      else (renderPublic a rq ''reply'' (VReply (reply_lookup a c sv)) [] [] rs, sv))"

definition handleReply :: "('i, 'g) app \<Rightarrow> request \<Rightarrow> response \<Rightarrow> 'a server_scheme
    \<Rightarrow> response \<times> 'a server_scheme" where
  "handleReply a rq rs sv =
     (if rq_Method rq = ''GET'' then
        (case NewAnonCSRFToken sv of
           (Inl e, sv1) \<Rightarrow> (http_Error ''csrf gen'' 500 rs, sv1)
         | (Inr csrf, sv1) \<Rightarrow>
             (renderPublic a rq ''reply'' VNone [] csrf (setAnonCSRFCookieAt rq ''/reply'' csrf rs), sv1))
      else if rq_Method rq = ''POST'' then with_floor (5 * second div 2) (reply_post a) rq rs sv
      else (http_Error ''method not allowed'' 405 rs, sv))"

end
