(* ===== verification/Admin.thy ===== *)
theory Admin
  imports Visit
begin

text \<open>
  The receiver's dashboard of \<open>internal/kakekomi/handlers.go\<close>: login, sessions, inbox, cases,
  downloads and replies.
\<close>

section \<open>Login and sessions\<close>

definition handleAdminRoot :: "('i, 'g) app \<Rightarrow> request \<Rightarrow> response \<Rightarrow> 'a server_scheme
    \<Rightarrow> response \<times> 'a server_scheme" where
  "handleAdminRoot a rq rs sv =
     (if URL_Path rq \<noteq> ''/admin'' then (http_NotFound rs, sv)
      else case Touch (readSessionCookie rq) (os_now sv) (sv_sessions sv) of
        (None, ss) \<Rightarrow> (http_Redirect rq ''/admin/login'' rs, sv\<lparr>sv_sessions := ss\<rparr>)
      | (Some sess, ss) \<Rightarrow> (http_Redirect rq ''/admin/inbox'' rs, sv\<lparr>sv_sessions := ss\<rparr>))"

definition msg_login_failed :: string where
  "msg_login_failed = utf8 [0xE8, 0xAA, 0x8D, 0xE8, 0xA8, 0xBC, 0xE3, 0x81, 0xAB, 0xE5, 0xA4, 0xB1,
     0xE6, 0x95, 0x97, 0xE3, 0x81, 0x97, 0xE3, 0x81, 0xBE, 0xE3, 0x81, 0x97, 0xE3, 0x81, 0x9F,
     0xE3, 0x80, 0x82]"

definition login_failed :: "('i, 'g) app \<Rightarrow> request \<Rightarrow> response \<Rightarrow> response" where
  "login_failed a rq rs = renderPublic a rq ''admin_login'' (VText msg_login_failed) [] [] rs"

definition login_post :: "('i, 'g) app \<Rightarrow> request \<Rightarrow> response \<Rightarrow> 'a server_scheme
    \<Rightarrow> response \<times> 'a server_scheme" where
  "login_post a rq rs sv =
     (if \<not> VerifyAnonCSRF (readAnonCSRFCookie rq) (form_value rq CSRFFormField)
      then (http_Error ''CSRF token invalid'' 403 rs, sv)
      else let pw = form_value rq ''password''; c = form_value rq ''totp'';
               P = app_Prims a; S = app_Secrets a in
      if pw = [] \<or> c = [] then (login_failed a rq rs, sv)
      else let passOK = CheckAdminPassword P S pw in
      if passOK \<and> sx_TOTPSecretDuress S \<noteq> [] \<and> totp_Validate P (os_now sv) c (sx_TOTPSecretDuress S)
      then (login_failed a rq rs, snd (Wipe sv))
      else if \<not> passOK \<or> \<not> totp_Validate P (os_now sv) c (sx_TOTPSecret S)
      then (login_failed a rq rs, sv)
      else case session_New (sv_sessions sv) sv of
        (Inl e, ss, sv1) \<Rightarrow> (http_Error ''session error'' 500 rs, sv1\<lparr>sv_sessions := ss\<rparr>)
      | (Inr sess, ss, sv1) \<Rightarrow>
          (http_Redirect rq ''/admin/inbox'' (setSessionCookie rq (se_Token sess) rs),
           sv1\<lparr>sv_sessions := ss\<rparr>))"

definition handleAdminLogin :: "('i, 'g) app \<Rightarrow> request \<Rightarrow> response \<Rightarrow> 'a server_scheme
    \<Rightarrow> response \<times> 'a server_scheme" where
  "handleAdminLogin a rq rs sv =
     (if rq_Method rq = ''GET'' then
        (case NewAnonCSRFToken sv of
           (Inl e, sv1) \<Rightarrow> (http_Error ''csrf gen'' 500 rs, sv1)
         | (Inr csrf, sv1) \<Rightarrow>
             (renderPublic a rq ''admin_login'' VNone [] csrf
                (setAnonCSRFCookieAt rq ''/admin/login'' csrf rs), sv1))
      else if rq_Method rq = ''POST'' then with_floor (2 * second) (login_post a) rq rs sv
      else (http_Error ''method not allowed'' 405 rs, sv))"

definition requireAuth :: "(request \<Rightarrow> response \<Rightarrow> 'a server_scheme \<Rightarrow> response \<times> 'a server_scheme)
    \<Rightarrow> request \<Rightarrow> response \<Rightarrow> 'a server_scheme \<Rightarrow> response \<times> 'a server_scheme" where
  "requireAuth handler rq rs sv =
     (case Touch (readSessionCookie rq) (os_now sv) (sv_sessions sv) of
        (None, ss) \<Rightarrow> (http_Redirect rq ''/admin/login'' rs, sv\<lparr>sv_sessions := ss\<rparr>)
      | (Some sess, ss) \<Rightarrow>
          (if (rq_Method rq = ''POST'' \<or> rq_Method rq = ''DELETE'')
              \<and> \<not> VerifyCSRF ss (se_Token sess) (form_value rq CSRFFormField)
           then (http_Error ''CSRF token invalid'' 403 rs, sv\<lparr>sv_sessions := ss\<rparr>)
           else handler rq rs (sv\<lparr>sv_sessions := ss\<rparr>)))"

definition handleAdminLogout :: "('i, 'g) app \<Rightarrow> request \<Rightarrow> response \<Rightarrow> 'a server_scheme
    \<Rightarrow> response \<times> 'a server_scheme" where
  "handleAdminLogout a rq rs sv =
     (let tok = readSessionCookie rq;
          sv1 = (if tok \<noteq> [] then sv\<lparr>sv_sessions := Destroy tok (sv_sessions sv)\<rparr> else sv)
      in (http_Redirect rq ''/admin/login'' (clearSessionCookie rq rs), sv1))"

section \<open>Cases\<close>

definition validCaseID :: "string \<Rightarrow> bool" where
  "validCaseID i =
     (if length i \<noteq> 16 then False
      else list_all (\<lambda>c. (ordc CHR ''0'' \<le> ordc c \<and> ordc c \<le> ordc CHR ''9'')
                       \<or> (ordc CHR ''a'' \<le> ordc c \<and> ordc c \<le> ordc CHR ''f'')) i)"

definition path_id :: "string \<Rightarrow> request \<Rightarrow> string" where
  "path_id pre rq = Base (TrimPrefix (URL_Path rq) pre)"

definition inbox_row :: "case_info \<Rightarrow> inbox_item" where
  "inbox_row c = \<lparr>ii_ID = case_ID c, ii_CreatedAt = case_CreatedAt c, ii_Bucket = SizeBucket (case_Size c),
     ii_Read = case_Read c, ii_HasReply = case_HasReply c\<rparr>"

definition handleAdminInbox :: "('i, 'g) app \<Rightarrow> request \<Rightarrow> response \<Rightarrow> 'a server_scheme
    \<Rightarrow> response \<times> 'a server_scheme" where
  "handleAdminInbox a rq rs sv =
     (case ListCases sv of
        Inl e \<Rightarrow> (http_Error ''list error'' 500 rs, sv)
      | Inr cases \<Rightarrow>
          (render a (sv_sessions sv) rq ''admin_inbox'' (VInbox (map inbox_row cases)) rs, sv))"

definition handleAdminCase :: "('i, 'g) app \<Rightarrow> request \<Rightarrow> response \<Rightarrow> 'a server_scheme
    \<Rightarrow> response \<times> 'a server_scheme" where
  "handleAdminCase a rq rs sv =
     (let i = path_id ''/admin/case/'' rq in
      if \<not> validCaseID i then (http_NotFound rs, sv)
      else case GetCase i sv of
        Inl e \<Rightarrow> (http_NotFound rs, sv)
      | Inr c \<Rightarrow>
          (render a (sv_sessions sv) rq ''admin_case''
             (VCase \<lparr>cv_ID = case_ID c, cv_Created = case_CreatedAt c, cv_Expires = case_ExpiresAt c,
                     cv_Bucket = SizeBucket (case_Size c), cv_HasReply = case_HasReply c\<rparr>) rs, sv))"

definition handleAdminDownload :: "('i, 'g) app \<Rightarrow> request \<Rightarrow> response \<Rightarrow> 'a server_scheme
    \<Rightarrow> response \<times> 'a server_scheme" where
  "handleAdminDownload a rq rs sv =
     (let i = path_id ''/admin/download/'' rq in
      if \<not> validCaseID i then (http_NotFound rs, sv)
      else case ReadBlob i sv of
        Inl e \<Rightarrow> (http_NotFound rs, sv)
      | Inr blob \<Rightarrow>
          (let sv1 = snd (MarkRead i sv) in
           ((set_header ''Content-Disposition''
               (''attachment; filename='' @ [CHR 0x22] @ i @ ''.tar.age.kkk'' @ [CHR 0x22])
               (set_header ''Content-Type'' ''application/octet-stream'' rs))\<lparr>rs_body := str_of blob\<rparr>,
            sv1)))"

section \<open>Replies\<close>

definition msg_required :: string where
  "msg_required = utf8 [0xE3, 0x82, 0xB3, 0xE3, 0x83, 0xBC, 0xE3, 0x83, 0x89, 0xE3, 0x81, 0xA8,
     0xE6, 0x9C, 0xAC, 0xE6, 0x96, 0x87, 0xE3, 0x81, 0xAF, 0xE5, 0xBF, 0x85, 0xE9, 0xA0, 0x88]"

definition msg_mismatch :: string where
  "msg_mismatch = utf8 [0xE3, 0x82, 0xB3, 0xE3, 0x83, 0xBC, 0xE3, 0x83, 0x89, 0xE3, 0x81, 0x8C,
     0xE4, 0xB8, 0x80, 0xE8, 0x87, 0xB4, 0xE3, 0x81, 0x97, 0xE3, 0x81, 0xBE, 0xE3, 0x81, 0x9B,
     0xE3, 0x82, 0x93]"

definition msg_saved :: string where
  "msg_saved = utf8 [0xE8, 0xBF, 0x94, 0xE4, 0xBF, 0xA1, 0xE3, 0x82, 0x92, 0xE4, 0xBF, 0x9D,
     0xE5, 0xAD, 0x98, 0xE3, 0x81, 0x97, 0xE3, 0x81, 0xBE, 0xE3, 0x81, 0x97, 0xE3, 0x81, 0x9F,
     0xE3, 0x80, 0x82]"

definition reply_page :: "('i, 'g) app \<Rightarrow> request \<Rightarrow> string \<Rightarrow> string \<Rightarrow> bool \<Rightarrow> response
    \<Rightarrow> 'a server_scheme \<Rightarrow> response" where
  "reply_page a rq i msg has rs sv = render a (sv_sessions sv) rq ''admin_reply''
     (VAdminReply \<lparr>ra_ID = i, ra_Status = msg, ra_HasReply = has\<rparr>) rs"

definition save_reply :: "prims \<Rightarrow> string \<Rightarrow> string \<Rightarrow> string \<Rightarrow> 'a server_scheme
    \<Rightarrow> refusal option \<times> 'a server_scheme" where
  "save_reply P c i txt sv =
     (case HKDFKey (bytes_of c) (bytes_of i) HKDFReplyKey 32 of
        Inl e \<Rightarrow> (Some (''kdf error'', 500), sv)
      | Inr key \<Rightarrow>
          (case EncryptSymmetric P key (bytes_of txt) sv of
             (Inl e, sv1) \<Rightarrow> (Some (''encrypt error'', 500), sv1)
           | (Inr blob, sv1) \<Rightarrow>
               (case WriteReply i blob sv1 of
                  (Some e, sv2) \<Rightarrow> (Some (''write reply error'', 500), sv2)
                | (None, sv2) \<Rightarrow> (None, sv2))))"

definition admin_reply_post :: "('i, 'g) app \<Rightarrow> request \<Rightarrow> case_info \<Rightarrow> response \<Rightarrow> 'a server_scheme
    \<Rightarrow> response \<times> 'a server_scheme" where
  "admin_reply_post a rq ci rs sv =
     (let c = TrimSpace (form_value rq ''case_code''); txt = TrimSpace (form_value rq ''reply_body'');
          i = case_ID ci; P = app_Prims a in
      if c = [] \<or> txt = [] then (reply_page a rq i msg_required (case_HasReply ci) rs sv, sv)
      else if FindCaseByCode P c (CaseCodeLookup (sx_LookupKey (app_Secrets a)) c) sv \<noteq> Inr i
      then (reply_page a rq i msg_mismatch (case_HasReply ci) rs sv, sv)
      else case save_reply P c i txt sv of
        (Some (msg, st), sv1) \<Rightarrow> (http_Error msg st rs, sv1)
      | (None, sv1) \<Rightarrow> (reply_page a rq i msg_saved True rs sv1, sv1))"

definition handleAdminReply :: "('i, 'g) app \<Rightarrow> request \<Rightarrow> response \<Rightarrow> 'a server_scheme
    \<Rightarrow> response \<times> 'a server_scheme" where
  "handleAdminReply a rq rs sv =
     (let i = path_id ''/admin/reply/'' rq in
      if \<not> validCaseID i then (http_NotFound rs, sv)
      else case GetCase i sv of
        Inl e \<Rightarrow> (http_NotFound rs, sv)
      | Inr ci \<Rightarrow>
          (if rq_Method rq = ''GET''
           then (reply_page a rq (case_ID ci) [] (case_HasReply ci) rs sv, sv)
           else if rq_Method rq = ''POST'' then admin_reply_post a rq ci rs sv
           else (http_Error ''method not allowed'' 405 rs, sv)))"

end
