(* ===== verification/Routes.thy ===== *)
theory Routes
  imports Admin
begin

text \<open>
  The route table of \<open>internal/kakekomi/handlers.go\<close> behind \<open>http.ServeMux\<close>, and the middleware
  of \<open>server.go\<close> that sets the security headers.
\<close>

definition trees :: "string list" where
  "trees = [''case'', ''reply'', ''download'']"

definition Routes :: "('i, 'g) app \<Rightarrow> string list \<Rightarrow> request \<Rightarrow> response \<Rightarrow> 'a server_scheme
    \<Rightarrow> response \<times> 'a server_scheme" where
  "Routes a segs =
     (if segs = [''static'', ''style.css''] then handleStaticCSS a
      else if segs = [''submit''] then handleSubmit a
      else if segs = [''reply''] then handleReply a
      else if segs = [''admin''] then handleAdminRoot a
      else if segs = [''admin'', ''login''] then handleAdminLogin a
      else if segs = [''admin'', ''logout''] then requireAuth (handleAdminLogout a)
      else if segs = [''admin'', ''inbox''] then requireAuth (handleAdminInbox a)
      else if 2 < length segs \<and> take 2 segs = [''admin'', ''case''] then requireAuth (handleAdminCase a)
      else if 2 < length segs \<and> take 2 segs = [''admin'', ''reply''] then requireAuth (handleAdminReply a)
      else if 2 < length segs \<and> take 2 segs = [''admin'', ''download'']
      then requireAuth (handleAdminDownload a)
      else handleIndex a)"

definition mux_moved :: "mux_lib \<Rightarrow> request \<Rightarrow> response \<Rightarrow> response option" where
  "mux_moved L rq rs =
     (let p = (if rq_Method rq = ''CONNECT'' then rq_EscapedPath rq else cleanPath (rq_EscapedPath rq))
      in if list_ex (\<lambda>t. path_segments p = [''admin'', t]) trees
         then Some (mux_redirect L (p @ [slash]) rq rs)
         else if p \<noteq> rq_EscapedPath rq then Some (mux_redirect L p rq rs)
         else None)"

definition mux_ServeHTTP :: "mux_lib \<Rightarrow> ('i, 'g) app \<Rightarrow> request \<Rightarrow> response \<Rightarrow> 'a server_scheme
    \<Rightarrow> response \<times> 'a server_scheme" where
  "mux_ServeHTTP L a rq rs sv =
     (case mux_moved L rq rs of
        Some rs1 \<Rightarrow> (rs1, sv)
      | None \<Rightarrow> Routes a (path_segments (rq_EscapedPath rq)) rq rs sv)"

definition csp :: string where
  "csp = ''default-src '' @ [CHR 0x27] @ ''none'' @ [CHR 0x27] @ ''; img-src '' @ [CHR 0x27] @ ''self''
     @ [CHR 0x27] @ ''; style-src '' @ [CHR 0x27] @ ''self'' @ [CHR 0x27] @ ''; form-action '' @ [CHR 0x27]
     @ ''self'' @ [CHR 0x27] @ ''; frame-ancestors '' @ [CHR 0x27] @ ''none'' @ [CHR 0x27]
     @ ''; base-uri '' @ [CHR 0x27] @ ''none'' @ [CHR 0x27] @ ''; require-trusted-types-for ''
     @ [CHR 0x27] @ ''script'' @ [CHR 0x27]"

definition security_headers :: "(string \<times> string) list" where
  "security_headers =
     [(''Cache-Control'', ''no-store, no-cache, must-revalidate, max-age=0''),
      (''Pragma'', ''no-cache''),
      (''Expires'', ''0''),
      (''Content-Security-Policy'', csp),
      (''X-Content-Type-Options'', ''nosniff''),
      (''X-Frame-Options'', ''DENY''),
      (''Referrer-Policy'', ''no-referrer''),
      (''Permissions-Policy'', ''interest-cohort=(), camera=(), microphone=(), geolocation=(), payment=(), usb=(), serial=(), bluetooth=()''),
      (''Cross-Origin-Opener-Policy'', ''same-origin''),
      (''Cross-Origin-Resource-Policy'', ''same-origin''),
      (''X-Robots-Tag'', ''noindex, nofollow, noarchive, nosnippet''),
      (''Connection'', ''close'')]"

definition withSecurityHeaders ::
    "(request \<Rightarrow> response \<Rightarrow> 'a server_scheme \<Rightarrow> response \<times> 'a server_scheme)
     \<Rightarrow> request \<Rightarrow> response \<Rightarrow> 'a server_scheme \<Rightarrow> response \<times> 'a server_scheme" where
  "withSecurityHeaders h rq rs sv =
     h rq (foldl (\<lambda>r (k, v). set_header k v r) rs security_headers) sv"

definition serve :: "mux_lib \<Rightarrow> ('i, 'g) app \<Rightarrow> request \<Rightarrow> 'a server_scheme
    \<Rightarrow> response \<times> 'a server_scheme" where
  "serve L a rq sv = withSecurityHeaders (mux_ServeHTTP L a) rq new_response sv"

end
