(* ===== verification/Submit_Laws.thy ===== *)
theory Submit_Laws
  imports Submit
begin

text \<open>
  What a submission does to the store: the generic lemmas on handlers and their effects, and the
  properties of \<open>processSubmit\<close>.
\<close>

section \<open>Drawing entropy\<close>

definition drew :: "'a os_scheme \<Rightarrow> 'a os_scheme \<Rightarrow> bool" where
  "drew w w' \<longleftrightarrow> (\<exists>xs. w' = w\<lparr>os_rng := xs\<rparr>)"

lemma drew_refl [simp]: "drew w w"
  unfolding drew_def by (rule exI [of _ "os_rng w"]) (cases w, simp)

lemma drew_trans: "drew w w1 \<Longrightarrow> drew w1 w2 \<Longrightarrow> drew w w2"
  by (auto simp: drew_def)

lemma drew_readRandom: "readRandom n w = (r, w') \<Longrightarrow> drew w w'"
  by (auto simp: readRandom_def drew_def split: if_splits intro: drew_refl [unfolded drew_def])

lemma drew_code_words: "code_words ws n w = (r, w') \<Longrightarrow> drew w w'"
  by (induction ws n w arbitrary: r w' rule: code_words.induct)
    (auto split: prod.splits sum.splits dest: drew_readRandom intro: drew_trans)

lemma drew_GenerateCode: "GenerateCode P w = (r, w') \<Longrightarrow> drew w w'"
  by (auto simp: GenerateCode_def split: if_splits prod.splits sum.splits dest: drew_code_words)

lemma drew_NewSalt: "NewSalt w = (r, w') \<Longrightarrow> drew w w'"
  by (auto simp: NewSalt_def dest: drew_readRandom)

lemma drew_EncryptToReceiver: "EncryptToReceiver P pub pt w = (r, w') \<Longrightarrow> drew w w'"
  by (auto simp: EncryptToReceiver_def split: if_splits prod.splits sum.splits dest: drew_readRandom)

lemma drew_EncryptSymmetric: "EncryptSymmetric P key pt w = (r, w') \<Longrightarrow> drew w w'"
  by (auto simp: EncryptSymmetric_def Let_def split: if_splits prod.splits sum.splits dest: drew_readRandom)

lemma drew_NewAnonCSRFToken: "NewAnonCSRFToken w = (r, w') \<Longrightarrow> drew w w'"
  by (auto simp: NewAnonCSRFToken_def split: prod.splits sum.splits dest: drew_readRandom)

lemma drew_IssuePoWToken: "IssuePoWToken key w = (r, w') \<Longrightarrow> drew w w'"
  by (auto simp: IssuePoWToken_def Let_def split: prod.splits sum.splits dest: drew_readRandom)

lemma drew_fields:
  fixes sv sv' :: "'a server_scheme"
  assumes "drew sv sv'"
  shows "db_rows sv' = db_rows sv" "db_fault sv' = db_fault sv" "data_dir sv' = data_dir sv"
    "os_root sv' = os_root sv" "os_now sv' = os_now sv" "os_fault sv' = os_fault sv"
    "sv_sessions sv' = sv_sessions sv"
  using assms by (auto simp: drew_def)

lemma drew_inv: "drew sv (sv' :: 'a server_scheme) \<Longrightarrow> store_inv sv' = store_inv sv"
  by (simp add: store_inv_def plain_dir_def drew_fields)

section \<open>The case of a submission\<close>

definition envelope_of :: "string \<Rightarrow> (string \<times> string) list \<Rightarrow> attachment list \<Rightarrow> int \<Rightarrow> submission_envelope" where
  "envelope_of c vals atts t =
     \<lparr>env_Code = c, env_Fields = vals, env_Attachments = atts, env_ReceivedAt = t\<rparr>"

lemma submit_case_stages:
  assumes "submit_case a vals atts sv = (res, sv')"
  shows "(\<exists>r. res = Inl r) \<and> drew sv sv'
    \<or> (\<exists>c salt tar ct sv1 sv2 cres.
         GenerateCode (app_Prims a) sv = (Inr c, sv1)
       \<and> PackSubmission (envelope_of c vals atts (os_now sv)) = Inr tar
       \<and> (\<exists>w. EncryptToReceiver (app_Prims a) (recv_PublicKey (cfg_Receiver (app_Config a))) tar w = (Inr ct, sv2))
       \<and> drew sv sv2
       \<and> CreateCase (CaseCodeLookup (sx_LookupKey (app_Secrets a)) c) (HashCode (app_Prims a) c salt) salt
           (case_ttl (app_Config a)) ct sv2 = (cres, sv')
       \<and> res = (case cres of Inl e \<Rightarrow> Inl (''store error'', 500) | Inr i \<Rightarrow> Inr c))"
proof -
  let ?P = "app_Prims a"
  obtain r1 sv1 where g: "GenerateCode ?P sv = (r1, sv1)" by fastforce
  note d1 = drew_GenerateCode [OF g]
  show ?thesis
  proof (cases r1)
    case (Inl e)
    with assms g d1 show ?thesis by (auto simp: submit_case_def)
  next
    case (Inr c)
    obtain r2 sv2 where s: "NewSalt sv1 = (r2, sv2)" by fastforce
    note d2 = drew_trans [OF d1 drew_NewSalt [OF s]]
    show ?thesis
    proof (cases r2)
      case (Inl e)
      with assms g s Inr d2 show ?thesis by (auto simp: submit_case_def)
    next
      case salt: (Inr salt)
      let ?pk = "PackSubmission (envelope_of c vals atts (os_now sv))"
      have now: "os_now sv2 = os_now sv" by (rule drew_fields [OF d2])
      show ?thesis
      proof (cases ?pk)
        case (Inl e)
        with assms g s Inr salt d2 now show ?thesis by (auto simp: submit_case_def envelope_of_def Let_def)
      next
        case tar: (Inr tar)
        let ?pub = "recv_PublicKey (cfg_Receiver (app_Config a))"
        obtain r3 sv3 where e: "EncryptToReceiver ?P ?pub tar sv2 = (r3, sv3)" by fastforce
        note d3 = drew_trans [OF d2 drew_EncryptToReceiver [OF e]]
        show ?thesis
        proof (cases r3)
          case (Inl x)
          with assms g s Inr salt tar e d3 now show ?thesis
            by (auto simp: submit_case_def envelope_of_def Let_def)
        next
          case ct: (Inr ct)
          obtain cres sv4 where c: "CreateCase (CaseCodeLookup (sx_LookupKey (app_Secrets a)) c)
            (HashCode ?P c salt) salt (case_ttl (app_Config a)) ct sv3 = (cres, sv4)" by fastforce
          with assms g s Inr salt tar e ct now have "sv' = sv4"
            "res = (case cres of Inl e \<Rightarrow> Inl (''store error'', 500) | Inr i \<Rightarrow> Inr c)"
            by (auto simp: submit_case_def envelope_of_def Let_def split: sum.splits)
          with g tar e ct d3 c Inr show ?thesis by blast
        qed
      qed
    qed
  qed
qed

section \<open>The handler\<close>

lemma wait_fields [simp]:
  fixes sv :: "'a server_scheme"
  shows "db_rows (FixedWaitUntil d sv) = db_rows sv" "db_fault (FixedWaitUntil d sv) = db_fault sv"
    "data_dir (FixedWaitUntil d sv) = data_dir sv" "os_root (FixedWaitUntil d sv) = os_root sv"
    "os_fault (FixedWaitUntil d sv) = os_fault sv" "sv_sessions (FixedWaitUntil d sv) = sv_sessions sv"
  by (simp_all add: FixedWaitUntil_def Let_def)

lemma floor_cases:
  "with_floor d h rq rs sv = (rs', sv') \<Longrightarrow>
     \<exists>sv1. h rq rs sv = (rs', sv1) \<and> sv' = FixedWaitUntil (os_now sv + d) sv1"
  by (auto simp: with_floor_def Let_def split: prod.splits)

definition sent_form :: "('i, 'g) app \<Rightarrow> request \<Rightarrow> form" where
  "sent_form a rq = fst (parse_form (Some (max_body (cfg_Attachments (app_Config a)))) rq)"

definition admitted :: "('i, 'g) app \<Rightarrow> request \<Rightarrow> 'a server_scheme \<Rightarrow> bool" where
  "admitted a rq sv \<longleftrightarrow> \<not> honeypot_hit a (sent_form a rq)
     \<and> VerifyAnonCSRF (readAnonCSRFCookie rq) (FormValue (sent_form a rq) CSRFFormField)
     \<and> \<not> pow_refused a (sent_form a rq) sv"

lemma process_form_cases:
  assumes "process_form a rq (parse_form (Some (max_body (cfg_Attachments (app_Config a)))) rq) rs sv = (rs', sv1)"
  shows "sv1 = sv \<or> admitted a rq sv \<and> (\<exists>vals atts res.
      collect_fields (sent_form a rq) (cfg_Fields (app_Config a)) [] = Inr vals
    \<and> form_attachments a (sent_form a rq) = Inr atts
    \<and> submit_case a vals atts sv = (res, sv1)
    \<and> rs' = (case res of Inl (msg, st) \<Rightarrow> http_Error msg st rs
           | Inr c \<Rightarrow> renderPublic a rq ''done'' (VText c) [] [] rs))"
proof -
  obtain fm failed where p: "parse_form (Some (max_body (cfg_Attachments (app_Config a)))) rq = (fm, failed)"
    by fastforce
  then have fm: "sent_form a rq = fm" by (simp add: sent_form_def)
  obtain res sv2 where r: "submit_form_case a fm sv = (res, sv2)" by fastforce
  show ?thesis
  proof (cases "admitted a rq sv")
    case False
    with assms p fm r show ?thesis
      by (auto simp: process_form_def admitted_def ParseForm_again_def split: if_splits)
  next
    case True
    with assms p fm r have sv1: "sv1 = sv2"
      "rs' = (case res of Inl (msg, st) \<Rightarrow> http_Error msg st rs
           | Inr c \<Rightarrow> renderPublic a rq ''done'' (VText c) [] [] rs)"
      by (auto simp: process_form_def admitted_def ParseForm_again_def split: if_splits sum.splits)
    show ?thesis
    proof (cases "collect_fields fm (cfg_Fields (app_Config a)) []")
      case (Inl x)
      with r sv1 show ?thesis by (simp add: submit_form_case_def)
    next
      case vals: (Inr vals)
      show ?thesis
      proof (cases "form_attachments a fm")
        case (Inl x)
        with vals r sv1 show ?thesis by (simp add: submit_form_case_def)
      next
        case (Inr atts)
        with vals r have "submit_case a vals atts sv = (res, sv2)" by (simp add: submit_form_case_def)
        with True vals Inr sv1 fm show ?thesis by blast
      qed
    qed
  qed
qed

lemma processSubmit_cases:
  assumes "processSubmit a rq rs sv = (rs', sv')"
  shows "sv' = FixedWaitUntil (os_now sv + 2 * second) sv \<or> admitted a rq sv \<and> (\<exists>vals atts res sv1.
      collect_fields (sent_form a rq) (cfg_Fields (app_Config a)) [] = Inr vals
    \<and> form_attachments a (sent_form a rq) = Inr atts
    \<and> submit_case a vals atts sv = (res, sv1) \<and> sv' = FixedWaitUntil (os_now sv + 2 * second) sv1
    \<and> rs' = (case res of Inl (msg, st) \<Rightarrow> http_Error msg st rs
           | Inr c \<Rightarrow> renderPublic a rq ''done'' (VText c) [] [] rs))"
  using floor_cases [OF assms [unfolded processSubmit_def]] process_form_cases by metis

lemma submit_case_stored:
  assumes "store_inv sv" and "age_correct (app_Prims a)" and "length seed = 32"
    and "age_Keypair (app_Prims a) seed = (recv_PublicKey (cfg_Receiver (app_Config a)), secretKey)"
    and run: "submit_case a vals atts sv = (res, sv1)"
  shows "db_rows sv1 = db_rows sv
    \<or> (\<exists>i r. db_rows sv1 = db_rows sv @ [(i, r)] \<and> map_of (db_rows sv) i = None
        \<and> db_fault sv (DbDelete i) \<noteq> None \<and> res = Inl (''store error'', 500))
    \<or> (\<exists>i r c blob tar. db_rows sv1 = db_rows sv @ [(i, r)] \<and> map_of (db_rows sv) i = None
        \<and> res = Inr c
        \<and> row_lookup r = CaseCodeLookup (sx_LookupKey (app_Secrets a)) c
        \<and> VerifyCode (app_Prims a) c (row_salt r) (row_hash r)
        \<and> rd (os_root sv1) (blobPath sv i) = Some blob
        \<and> DecryptFromReceiver (app_Prims a) secretKey blob = Inr tar
        \<and> PackSubmission (envelope_of c vals atts (os_now sv)) = Inr tar)"
  using submit_case_stages [OF run]
proof (elim disjE conjE exE)
  assume "drew sv sv1"
  then show ?thesis by (simp add: drew_fields)
next
  fix c salt tar ct sv1' sv2 cres w
  assume tar: "PackSubmission (envelope_of c vals atts (os_now sv)) = Inr tar"
    and ct: "EncryptToReceiver (app_Prims a) (recv_PublicKey (cfg_Receiver (app_Config a))) tar w = (Inr ct, sv2)"
    and d: "drew sv sv2"
    and cr: "CreateCase (CaseCodeLookup (sx_LookupKey (app_Secrets a)) c) (HashCode (app_Prims a) c salt) salt
         (case_ttl (app_Config a)) ct sv2 = (cres, sv1)"
    and res: "res = (case cres of Inl e \<Rightarrow> Inl (''store error'', 500) | Inr i \<Rightarrow> Inr c)"
  have inv: "store_inv sv2" using assms(1) drew_inv [OF d] by simp
  have bp: "blobPath sv2 = blobPath sv" using drew_fields(3) [OF d] by (rule paths_data_dir)
  note rows = drew_fields(1) [OF d]
  let ?r = "new_row (CaseCodeLookup (sx_LookupKey (app_Secrets a)) c) (HashCode (app_Prims a) c salt) salt
         (case_ttl (app_Config a)) (os_now sv2)"
  from create_loop_result [OF inv cr] show ?thesis
  proof (elim disjE conjE exE)
    assume "db_rows sv1 = db_rows sv2"
    with rows show ?thesis by simp
  next
    fix j
    assume j: "create_result ?r ct sv2 cres sv1 j"
    show ?thesis
    proof (cases cres)
      case (Inl e)
      with j rows res drew_fields(2) [OF d] show ?thesis by (auto simp: create_result_def rows_ins_def)
    next
      case (Inr i)
      have "db_rows sv1 = db_rows sv @ [(j, ?r)]" "map_of (db_rows sv) j = None"
        "rd (os_root sv1) (blobPath sv j) = Some ct"
        using j Inr rows bp by (simp_all add: create_result_def rows_ins_def)
      moreover have "DecryptFromReceiver (app_Prims a) secretKey ct = Inr tar"
        by (rule receiver_roundtrip [OF assms(2,3,4) ct])
      moreover have "row_lookup ?r = CaseCodeLookup (sx_LookupKey (app_Secrets a)) c"
        "VerifyCode (app_Prims a) c (row_salt ?r) (row_hash ?r)"
        by (simp_all add: new_row_def Let_def VerifyCode_iff)
      ultimately show ?thesis using tar res Inr by auto
    qed
  qed
qed

text \<open>C2: a submission, under any faults of the disk and the database, does one of three things to
  the table.  It leaves it as it was.  Or it adds exactly one case: then the visitor is shown a
  fresh code, the row keeps only the keyed hash of that code and a salted argon2id hash that
  verifies it, and the blob of the case holds, encrypted to the configured receiver, the packed
  envelope with the code, the checked fields, the checked attachments and the time.  Or the
  visitor is told of a store error, and the row of the failed attempt stays in the table: this
  happens only if the database also refuses the \<open>DELETE\<close> that takes the row back, an error that
  \<open>CreateCase\<close> ignores.  What the blob holds assumes that age decrypts what it encrypted.\<close>

theorem submit_stores_case:
  assumes "store_inv sv" and "age_correct (app_Prims a)" and "length seed = 32"
    and "age_Keypair (app_Prims a) seed = (recv_PublicKey (cfg_Receiver (app_Config a)), secretKey)"
    and "processSubmit a rq rs sv = (rs', sv')"
  shows "db_rows sv' = db_rows sv
    \<or> (\<exists>i r. db_rows sv' = db_rows sv @ [(i, r)] \<and> map_of (db_rows sv) i = None
        \<and> db_fault sv (DbDelete i) \<noteq> None \<and> rs' = http_Error ''store error'' 500 rs)
    \<or> (\<exists>i r c vals atts blob tar. db_rows sv' = db_rows sv @ [(i, r)] \<and> map_of (db_rows sv) i = None
        \<and> rs' = renderPublic a rq ''done'' (VText c) [] [] rs
        \<and> row_lookup r = CaseCodeLookup (sx_LookupKey (app_Secrets a)) c
        \<and> VerifyCode (app_Prims a) c (row_salt r) (row_hash r)
        \<and> rd (os_root sv') (blobPath sv i) = Some blob
        \<and> DecryptFromReceiver (app_Prims a) secretKey blob = Inr tar
        \<and> PackSubmission \<lparr>env_Code = c, env_Fields = vals, env_Attachments = atts,
              env_ReceivedAt = os_now sv\<rparr> = Inr tar
        \<and> collect_fields (sent_form a rq) (cfg_Fields (app_Config a)) [] = Inr vals
        \<and> form_attachments a (sent_form a rq) = Inr atts)"
  using processSubmit_cases [OF assms(5)]
proof (elim disjE conjE exE)
  fix vals atts res sv1
  assume va: "collect_fields (sent_form a rq) (cfg_Fields (app_Config a)) [] = Inr vals"
        "form_attachments a (sent_form a rq) = Inr atts"
    and run: "submit_case a vals atts sv = (res, sv1)" "sv' = FixedWaitUntil (os_now sv + 2 * second) sv1"
    and rs': "rs' = (case res of Inl (msg, st) \<Rightarrow> http_Error msg st rs
           | Inr c \<Rightarrow> renderPublic a rq ''done'' (VText c) [] [] rs)"
  from submit_case_stored [OF assms(1-4) run(1)] show ?thesis
  proof (elim disjE conjE exE)
    fix i r c blob tar
    assume "res = Inr c"
    then have "rs' = renderPublic a rq ''done'' (VText c) [] [] rs" using rs' by simp
    moreover assume "db_rows sv1 = db_rows sv @ [(i, r)]" "map_of (db_rows sv) i = None"
      "row_lookup r = CaseCodeLookup (sx_LookupKey (app_Secrets a)) c"
      "VerifyCode (app_Prims a) c (row_salt r) (row_hash r)"
      "rd (os_root sv1) (blobPath sv i) = Some blob"
      "DecryptFromReceiver (app_Prims a) secretKey blob = Inr tar"
      "PackSubmission (envelope_of c vals atts (os_now sv)) = Inr tar"
    ultimately show ?thesis using va run(2) unfolding envelope_of_def by fastforce
  qed (use run(2) rs' in auto)
qed simp

text \<open>C11: a submission reaches the table only when the decoy field is empty, the form token equals
  the cookie and, where the proof of work is switched on, its token was issued with this server's
  key and has not expired; every other one changes nothing but the clock.\<close>

theorem submit_needs_tokens:
  assumes "processSubmit a rq rs sv = (rs', sv')"
  shows "sv' = FixedWaitUntil (os_now sv + 2 * second) sv
    \<or> (sec_Honeypot (cfg_Security (app_Config a)) \<longrightarrow> TrimSpace (FormValue (sent_form a rq) ''hp_name'') = [])
      \<and> readAnonCSRFCookie rq \<noteq> []
      \<and> TrimSpace (FormValue (sent_form a rq) CSRFFormField) = TrimSpace (readAnonCSRFCookie rq)
      \<and> (pow_Enabled (sec_PoW (cfg_Security (app_Config a))) \<longrightarrow>
          VerifyPoWToken (sx_SessionMACKey (app_Secrets a)) (FormValue (sent_form a rq) ''_pow'') sv = None)"
  using processSubmit_cases [OF assms]
  by (auto simp: admitted_def honeypot_hit_def pow_refused_def VerifyAnonCSRF_iff)

end
