(* ===== verification/Store_Steps.thy ===== *)
theory Store_Steps
  imports Store_Laws
begin

text \<open>
  The case store as a state machine.  A step is one operation of \<open>store.go\<close>, run to its end, or
  a change of the environment: time passes, entropy is replenished, and disk and database start
  or stop refusing operations.  The invariant of the store holds in every reachable state, and a
  case stays as it was created until its expiry or a wipe.
\<close>

datatype store_op =
    SCreate bytes bytes bytes int bytes
  | SMark string
  | SReply string bytes
  | SGC
  | SWipe
  | SEnv

inductive store_step :: "store_op \<Rightarrow> 'a world_scheme \<Rightarrow> 'a world_scheme \<Rightarrow> bool" where
  create: "CreateCase cl ch cs ttl blob w = (res, w') \<Longrightarrow> store_step (SCreate cl ch cs ttl blob) w w'"
| mark: "MarkRead i w = (e, w') \<Longrightarrow> store_step (SMark i) w w'"
| reply: "WriteReply i blob w = (e, w') \<Longrightarrow> store_step (SReply i blob) w w'"
| collect: "GC w = (ne, w') \<Longrightarrow> store_step SGC w w'"
| wipe: "Wipe w = (e, w') \<Longrightarrow> store_step SWipe w w'"
| env: "os_now w \<le> t \<Longrightarrow>
    store_step SEnv w (w\<lparr>os_now := t, os_rng := rng, os_fault := f, db_fault := g\<rparr>)"

inductive_cases createE [elim!]: "store_step (SCreate cl ch cs ttl blob) w w'"
inductive_cases markE [elim!]: "store_step (SMark i) w w'"
inductive_cases replyE [elim!]: "store_step (SReply i blob) w w'"
inductive_cases collectE [elim!]: "store_step SGC w w'"
inductive_cases wipeE [elim!]: "store_step SWipe w w'"
inductive_cases envE [elim!]: "store_step SEnv w w'"

abbreviation store_run :: "'a world_scheme \<Rightarrow> store_op list \<Rightarrow> 'a world_scheme \<Rightarrow> bool" where
  "store_run \<equiv> runs store_step"

section \<open>One lemma per operation\<close>

definition row_core :: "case_row \<Rightarrow> case_row" where
  "row_core r = r\<lparr>row_read := 0, row_reply := 0\<rparr>"

lemma map_of_rows_upd: "map_of (rows_upd j f rows) i = map_option (if i = j then f else id) (map_of rows i)"
  by (induction rows) (auto simp: rows_upd_def option.map_id0)

lemma keys_rows_upd [simp]: "map fst (rows_upd j f rows) = map fst rows"
  by (induction rows) (auto simp: rows_upd_def)

lemma keys_rows_ins [simp]: "map fst (rows_ins j r rows) = map fst rows @ [j]"
  by (simp add: rows_ins_def)

text \<open>\<open>keeps i w w'\<close>: case \<open>i\<close>, if present, keeps everything but its two flags, and its blob.\<close>

definition keeps :: "string \<Rightarrow> 'a world_scheme \<Rightarrow> 'a world_scheme \<Rightarrow> bool" where
  "keeps i w w' \<longleftrightarrow> (\<forall>r. map_of (db_rows w) i = Some r \<longrightarrow>
     (\<exists>r'. map_of (db_rows w') i = Some r' \<and> row_core r' = row_core r)
     \<and> rd (os_root w') (blobPath w i) = rd (os_root w) (blobPath w i))"

lemma blob_in_caseDir: "plain_dir w \<Longrightarrow> plain_comp i \<Longrightarrow> prefix (caseDir w i) (blobPath w i)"
  by (simp add: blobPath_plain)

lemma inv_upto:
  assumes "store_inv w" and "files_upto p w w'" and "map fst (db_rows w') = map fst (db_rows w)"
  shows "store_inv w'"
  using assms upto_dir [OF assms(2)] paths_data_dir [of w' w] upto_wf [OF assms(2)]
  by (simp add: store_inv_def)

lemma create_inv:
  assumes "store_inv w" and "CreateCase cl ch cs ttl blob w = (res, w')"
  shows "store_inv w' \<and> keeps i w w' \<and> os_now w' = os_now w \<and> data_dir w' = data_dir w"
proof -
  from create_loop_result [OF assms] show ?thesis
  proof
    assume no: "(\<exists>e. res = Inl e) \<and> db_rows w' = db_rows w \<and> (\<forall>p. files_upto p w w')"
    then have u: "files_upto (blobPath w i @ [[]]) w w'" by blast
    with no upto_rd [OF u, of "blobPath w i"] inv_upto [OF assms(1) u] upto_dir [OF u]
    show ?thesis by (auto simp: keeps_def)
  next
    assume "\<exists>j. create_result (new_row cl ch cs ttl (os_now w)) blob w res w' j"
    then obtain j where cr: "create_result (new_row cl ch cs ttl (os_now w)) blob w res w' j" by blast
    then have j: "case_id j" "map_of (db_rows w) j = None" "files_upto (caseDir w j) w w'"
      "db_rows w' = db_rows w \<or> db_rows w' = rows_ins j (new_row cl ch cs ttl (os_now w)) (db_rows w)"
      by (cases res; auto simp: create_result_def)+
    have blob: "rd (os_root w') (blobPath w i) = rd (os_root w) (blobPath w i)"
      if r: "map_of (db_rows w) i = Some r" for r
    proof -
      have "plain_dir w" "plain_comp i"
        using assms(1) store_inv_id [OF assms(1) r] by (simp_all add: store_inv_def)
      then have "prefix (caseDir w i) (blobPath w i)" by (rule blob_in_caseDir)
      from other_case_files [OF assms(1) _ j(1-3) this] r show ?thesis by simp
    qed
    have "map_of (db_rows w') i = Some r" if "map_of (db_rows w) i = Some r" for r
      using that j(2,4) rowt.ins_keeps by auto
    with blob have "keeps i w w'" by (auto simp: keeps_def)
    moreover have "store_inv w'"
      using assms(1) j upto_dir [OF j(3)] paths_data_dir [of w' w] upto_wf [OF j(3)]
      by (auto simp: store_inv_def map_of_eq_None_iff)
    ultimately show ?thesis using upto_dir [OF j(3)] by simp
  qed
qed

lemma exec_upd_keeps:
  assumes "store_inv w" and "db_exec st (rows_upd j f) w = (e, w')" and "\<And>r. row_core (f r) = row_core r"
  shows "store_inv w' \<and> keeps i w w' \<and> os_now w' = os_now w \<and> data_dir w' = data_dir w"
proof -
  note u = exec_upto [OF assms(2)]
  have "map fst (db_rows w') = map fst (db_rows w)" using u by simp
  with inv_upto [OF assms(1), of "[]" w'] u have "store_inv w'" by blast
  moreover have "keeps i w w'"
    using u assms(3) by (auto simp: keeps_def map_of_rows_upd)
  ultimately show ?thesis using u upto_dir [of "[]" w w'] by auto
qed

lemma keeps_refl [simp]: "keeps i w w"
  by (simp add: keeps_def)

lemma keeps_trans:
  assumes "data_dir w1 = data_dir w" and "keeps i w w1" and "keeps i w1 w2"
  shows "keeps i w w2"
  unfolding keeps_def
proof (intro allI impI)
  fix r
  assume "map_of (db_rows w) i = Some r"
  with assms(2) obtain r1 where r1: "map_of (db_rows w1) i = Some r1" "row_core r1 = row_core r"
    "rd (os_root w1) (blobPath w i) = rd (os_root w) (blobPath w i)"
    unfolding keeps_def by blast
  with assms(3) obtain r2 where "map_of (db_rows w2) i = Some r2" "row_core r2 = row_core r1"
    "rd (os_root w2) (blobPath w1 i) = rd (os_root w1) (blobPath w1 i)"
    unfolding keeps_def by blast
  with r1 paths_data_dir(2) [OF assms(1)]
  show "(\<exists>r'. map_of (db_rows w2) i = Some r' \<and> row_core r' = row_core r)
      \<and> rd (os_root w2) (blobPath w i) = rd (os_root w) (blobPath w i)"
    by simp
qed

lemma reply_keeps:
  assumes "store_inv w" and "WriteReply j blob w = (e, w')"
  shows "store_inv w' \<and> keeps i w w' \<and> os_now w' = os_now w \<and> data_dir w' = data_dir w"
proof (cases "GetCase j w")
  case (Inl x)
  with assms show ?thesis by (auto simp: WriteReply_def)
next
  case (Inr ci)
  then obtain r where "map_of (db_rows w) j = Some r"
    by (auto simp: GetCase_def split: option.splits)
  with assms(1) have pj: "plain_comp j" "plain_dir w" by (auto simp: store_inv_id store_inv_def)
  obtain we w1 where wr: "os_WriteFile (replyPath w j) blob w = (we, w1)" by fastforce
  then have u: "files_upto (replyPath w j) w w1" "db_rows w1 = db_rows w"
    using write_upto [of "replyPath w j" "[]" blob w we w1] by simp_all
  have inv: "store_inv w1" using inv_upto [OF assms(1) u(1)] u(2) by simp
  have "\<not> prefix (replyPath w j) (blobPath w i)" if "plain_comp i"
    using that pj by (simp add: replyPath_plain blobPath_plain caseDir_plain)
  then have k: "keeps i w w1"
    using u upto_rd [OF u(1)] store_inv_id [OF assms(1)] by (auto simp: keeps_def)
  show ?thesis
  proof (cases we)
    case (Some x)
    with assms(2) Inr wr inv k upto_dir [OF u(1)] show ?thesis by (auto simp: WriteReply_def)
  next
    case None
    with assms(2) Inr wr have ex: "db_exec (DbSetReply j) (rows_upd j (\<lambda>r. r\<lparr>row_reply := 1\<rparr>)) w1 = (e, w')"
      by (auto simp: WriteReply_def)
    from exec_upd_keeps [OF inv ex, of i] k upto_dir [OF u(1)] keeps_trans [of w1 w i w']
    show ?thesis by (simp add: row_core_def)
  qed
qed

lemma gc_keeps:
  assumes "store_inv w" and "GC w = (ne, w')"
  shows "store_inv w' \<and> os_now w' = os_now w \<and> data_dir w' = data_dir w
    \<and> (\<forall>r. map_of (db_rows w) i = Some r \<longrightarrow> unix_seconds (os_now w) \<le> row_expires r \<longrightarrow> keeps i w w')"
proof -
  obtain n e where ne: "GC w = ((n, e), w')" using assms(2) by (cases ne) auto
  note spec = GC_spec [OF assms(1) ne]
  have "store_inv w'"
    using assms(1) spec paths_data_dir [of w' w]
    by (auto simp: store_inv_def list_all_set distinct_map_filter)
  moreover have "keeps i w w'"
    if r: "map_of (db_rows w) i = Some r" "unix_seconds (os_now w) \<le> row_expires r" for r
  proof -
    have "i \<notin> set (expired_ids w)"
      using expired_iff [OF _ r(1)] r(2) assms(1) by (simp add: store_inv_def)
    then have m: "map_of (db_rows w') i = Some r"
      using spec r by (auto simp: map_of_filter_keys dest: in_set_takeD)
    have p: "plain_comp i" "plain_dir w" using store_inv_id [OF assms(1) r(1)] assms(1)
      by (simp_all add: store_inv_def)
    have "\<not> prefix (caseDir w j) (blobPath w i)" if "j \<in> set (expired_ids w)" for j
    proof -
      have "plain_comp j" "j \<noteq> i"
        using that expired_plain [OF assms(1)] \<open>i \<notin> _\<close> by (auto simp: list_all_set)
      with p show ?thesis by (simp add: blobPath_plain caseDir_plain)
    qed
    with spec have "rd (os_root w') (blobPath w i) = rd (os_root w) (blobPath w i)" by blast
    with m r show ?thesis by (simp add: keeps_def)
  qed
  ultimately show ?thesis using spec by blast
qed

lemma shred_all_any: "below [] w (shred_all dir cs w)"
proof (induction dir cs w rule: shred_all.induct)
  case (2 dir c cs w)
  have "below [] w (snd (shredDir (join_comps dir [c]) w))"
    by (rule below_mono [where p = "[]" and q = "join_comps dir [c]"]) (simp add: below_shredDir)
  with 2 show ?case by (auto intro: below_trans)
qed simp

lemma wipe_any:
  assumes "Wipe w = (e, w')"
  shows "\<exists>v. files_upto [] w v \<and> w' = spend_wipe v
    \<and> db_rows w' = (if db_fault w DbDeleteAll = None then [] else db_rows w)"
proof -
  let ?dir = "join_comps (data_dir w) [''blob'']"
  let ?w1 = "case os_ReadDir ?dir w of Inl e \<Rightarrow> w | Inr es \<Rightarrow> shred_all ?dir (map fst es) w"
  have "below [] w ?w1" by (simp add: shred_all_any split: sum.splits)
  then have u: "files_upto [] w ?w1" "db_rows ?w1 = db_rows w" by (auto dest: below_upto)
  obtain de w2 where dl: "db_exec DbDeleteAll (\<lambda>_. []) ?w1 = (de, w2)" by fastforce
  from exec_upto [OF this, of "[]"] u upto_dir [OF u(1)] have w2: "files_upto [] w w2"
    "db_rows w2 = (if db_fault w DbDeleteAll = None then [] else db_rows w)"
    by (auto intro: upto_trans)
  let ?v = "if de = None then snd (db_vacuum w2) else w2"
  have "files_upto [] w ?v" "db_rows ?v = db_rows w2"
    using w2(1) vacuum_upto [of "[]" w2] by (auto intro: upto_trans)
  moreover have "w' = spend_wipe ?v" using assms dl by (cases de) (auto simp: Wipe_def Let_def)
  ultimately show ?thesis using w2(2) by (intro exI [of _ ?v]) simp
qed

lemma wipe_inv:
  assumes "store_inv w" and "Wipe w = (e, w')"
  shows "store_inv w' \<and> os_now w' = os_now w + int (wipe_time w) \<and> data_dir w' = data_dir w"
proof -
  from wipe_any [OF assms(2)] obtain v where v: "files_upto [] w v" "w' = spend_wipe v"
    "db_rows w' = (if db_fault w DbDeleteAll = None then [] else db_rows w)" by blast
  from assms(1) v upto_dir [OF v(1)] paths_data_dir [of w' w] upto_wf [OF v(1)]
  show ?thesis by (auto simp: store_inv_def)
qed


section \<open>Reachable states\<close>

lemma step_inv: "store_step opn w w' \<Longrightarrow> store_inv w \<Longrightarrow> store_inv w'"
proof (induction rule: store_step.induct)
  case (env w t rng f g)
  then show ?case by (simp add: store_inv_def plain_dir_def)
qed (auto dest: create_inv exec_upd_keeps reply_keeps gc_keeps wipe_inv
    simp: MarkRead_def row_core_def)

lemma step_time:
  "store_step opn w w' \<Longrightarrow> store_inv w \<Longrightarrow> os_now w \<le> os_now w' \<and> data_dir w' = data_dir w"
proof (induction rule: store_step.induct)
  case (mark i w e w')
  then show ?case using exec_upd_keeps [of w] by (force simp: MarkRead_def row_core_def)
qed (auto dest: create_inv reply_keeps gc_keeps wipe_inv)

lemma step_keeps:
  assumes "store_step opn w w'" and "store_inv w" and "opn \<noteq> SWipe" and "map_of (db_rows w) i = Some r"
    and "unix_seconds (os_now w') \<le> row_expires r"
  shows "keeps i w w'"
  using assms
proof (induction rule: store_step.induct)
  case (collect w ne w')
  then show ?case using gc_keeps [of w ne w' i] by auto
next
  case (mark j w e w')
  then show ?case using exec_upd_keeps [of w _ j] by (force simp: MarkRead_def row_core_def)
next
  case (env w t rng f g)
  then show ?case by (simp add: keeps_def)
qed (auto dest: create_inv reply_keeps)

lemma unix_seconds_mono: "s \<le> t \<Longrightarrow> unix_seconds s \<le> unix_seconds t"
  by (simp add: unix_seconds_def second_def zdiv_mono1)

lemma core_expires: "row_core r' = row_core r \<Longrightarrow> row_expires r' = row_expires r"
  by (cases r; cases r') (simp add: row_core_def)

lemma core_flags: "row_core r' = row_core r \<Longrightarrow> r' = r\<lparr>row_read := row_read r', row_reply := row_reply r'\<rparr>"
  by (cases r; cases r') (simp add: row_core_def)

text \<open>The contract of a machine that works on the store: every step that is not a wipe keeps the
  invariant, does not turn the clock back, and keeps every case that has not expired.  Runs keep
  the cases then, which is proved here for the store and for the whole server at once.\<close>

locale case_machine =
  fixes step :: "'e \<Rightarrow> 'a world_scheme \<Rightarrow> 'a world_scheme \<Rightarrow> bool" and spares :: "'e \<Rightarrow> bool"
  assumes step_law: "step e w w' \<Longrightarrow> spares e \<Longrightarrow> store_inv w \<Longrightarrow>
      store_inv w' \<and> data_dir w' = data_dir w \<and> os_now w \<le> os_now w'"
    and step_case: "step e w w' \<Longrightarrow> spares e \<Longrightarrow> store_inv w \<Longrightarrow> map_of (db_rows w) i = Some r \<Longrightarrow>
      unix_seconds (os_now w') \<le> row_expires r \<Longrightarrow> keeps i w w'"
begin

lemma run_law: "runs step w es w' \<Longrightarrow> list_all spares es \<Longrightarrow> store_inv w \<Longrightarrow>
    store_inv w' \<and> data_dir w' = data_dir w \<and> os_now w \<le> os_now w'"
  by (induction rule: runs.induct) (fastforce dest: step_law)+

lemma run_case:
  assumes "runs step w es w'" and "list_all spares es" and "store_inv w"
    and "map_of (db_rows w) i = Some r" and "unix_seconds (os_now w') \<le> row_expires r"
  shows "keeps i w w'"
  using assms
proof (induction rule: runs.induct)
  case (nil w)
  then show ?case by simp
next
  case (snoc w es w1 e w2)
  then have sp: "list_all spares es" "spares e" by simp_all
  note inv1 = run_law [OF snoc(1) sp(1) snoc(5)]
  then have t: "os_now w1 \<le> os_now w2" using step_law [OF snoc(2) sp(2)] by blast
  from snoc(7) unix_seconds_mono [OF t] have "unix_seconds (os_now w1) \<le> row_expires r" by simp
  with snoc sp have k1: "keeps i w w1" by simp
  with snoc(6) obtain r1 where r1: "map_of (db_rows w1) i = Some r1" "row_core r1 = row_core r"
    by (auto simp: keeps_def)
  have "keeps i w1 w2"
    using step_case [OF snoc(2) sp(2) _ r1(1)] inv1 snoc(7) core_expires [OF r1(2)] by simp
  with k1 inv1 show ?case using keeps_trans by blast
qed

end

interpretation store_m: case_machine store_step "\<lambda>e. e \<noteq> SWipe"
  by unfold_locales (blast dest: step_inv step_time, blast intro: step_keeps)

text \<open>C19: a case stays in the table, with its code verifiers, creation time and expiry as it was
  created, and its encrypted blob stays on disk byte for byte, through any sequence of
  operations under any faults of disk and database, for as long as the clock has not passed its
  expiry and no wipe was run.\<close>

theorem case_durable:
  assumes "store_run w ops w'" and "store_inv w" and "SWipe \<notin> set ops"
    and "map_of (db_rows w) i = Some r" and "unix_seconds (os_now w') \<le> row_expires r"
  shows "\<exists>r'. map_of (db_rows w') i = Some r'
      \<and> r' = r\<lparr>row_read := row_read r', row_reply := row_reply r'\<rparr>
      \<and> rd (os_root w') (blobPath w' i) = rd (os_root w) (blobPath w i)"
proof -
  have sp: "list_all (\<lambda>e. e \<noteq> SWipe) ops" using assms(3) by (auto simp: list_all_iff)
  note inv = store_m.run_law [OF assms(1) sp assms(2)]
  have "keeps i w w'" by (rule store_m.run_case [OF assms(1) sp assms(2,4,5)])
  then obtain r' where "map_of (db_rows w') i = Some r'" "row_core r' = row_core r"
    "rd (os_root w') (blobPath w i) = rd (os_root w) (blobPath w i)"
    using assms(4) by (auto simp: keeps_def)
  then show ?thesis using inv paths_data_dir(2) [of w' w] core_flags [of r' r] by auto
qed

end
