(* ===== verification/Visit_Laws.thy ===== *)
theory Visit_Laws
  imports Submit_Laws Admin Store_Steps
begin

text \<open>
  A reply from the dashboard to the visitor: what \<open>handleAdminReply\<close> stores is what
  \<open>handleReply\<close> shows to whoever has the code of the case, and to nobody else.
\<close>

definition healthy :: "'a world_scheme \<Rightarrow> bool" where
  "healthy w \<longleftrightarrow> no_faults w \<and> (\<forall>st. db_fault w st = None)"

lemma upd_flag_find:
  "find (\<lambda>ir. row_lookup (snd ir) = cl) (rows_upd i (\<lambda>r. r\<lparr>row_reply := x\<rparr>) rows)
   = map_option (\<lambda>(k, r). if k = i then (k, r\<lparr>row_reply := x\<rparr>) else (k, r))
       (find (\<lambda>ir. row_lookup (snd ir) = cl) rows)"
  by (induction rows) (auto simp: rows_upd_def)

lemma FindCase_row:
  assumes "FindCaseByCode P c cl w = Inr i"
  shows "\<exists>r. find (\<lambda>ir. row_lookup (snd ir) = cl) (db_rows w) = Some (i, r)
     \<and> VerifyCode P c (row_salt r) (row_hash r) \<and> db_fault w DbFind = None"
  using assms by (auto simp: FindCaseByCode_def split: option.splits if_splits)

lemma FindCase_upd:
  assumes "FindCaseByCode P c cl w = Inr i"
    and "db_rows w' = rows_upd j (\<lambda>r. r\<lparr>row_reply := x\<rparr>) (db_rows w)" and "db_fault w' DbFind = None"
  shows "FindCaseByCode P c cl w' = Inr i"
  using FindCase_row [OF assms(1)] assms(2,3)
  by (auto simp: FindCaseByCode_def upd_flag_find split: if_splits)

lemma find_row_mem: "find Q rows = Some (i, r) \<Longrightarrow> (i, r) \<in> set rows"
  by (induction rows) (auto split: if_splits)

lemma FindCase_id: "store_inv w \<Longrightarrow> FindCaseByCode P c cl w = Inr i \<Longrightarrow> case_id i \<and> map_of (db_rows w) i \<noteq> None"
  by (force simp: store_inv_def list_all_set map_of_eq_None_iff image_iff dest!: FindCase_row find_row_mem)

lemma open_saved:
  assumes "aead_correct P" and "HKDFKey (bytes_of c) (bytes_of i) HKDFReplyKey 32 = Inr key"
    and "EncryptSymmetric P key (bytes_of t) w = (Inr blob, w')"
  shows "open_reply P c i blob = Inr (bytes_of t)"
  using symmetric_opens [OF assms(1,3)] assms(2) by (simp add: open_reply_def)

text \<open>Saving on a healthy store with entropy succeeds, and the reply can be read back.\<close>

lemma HKDF_reply_key: "\<exists>key. HKDFKey c i HKDFReplyKey 32 = Inr key \<and> length key = 32"
proof -
  have "\<exists>key. HKDFKey c i HKDFReplyKey 32 = Inr key"
    by (simp add: HKDFKey_def hkdf_read_def)
  then show ?thesis using hkdf_read_length by (auto simp: HKDFKey_def)
qed

lemma WriteReply_ok:
  assumes "healthy w" and "plain_dir w" and "case_id i" and "map_of (db_rows w) i = Some r"
    and "is_dir (os_root w) (caseDir w i)" and "\<not> is_dir (os_root w) (replyPath w i)"
  shows "\<exists>n. WriteReply i blob w = (None, w\<lparr>os_root := n, db_rows :=
      rows_upd i (\<lambda>r. r\<lparr>row_reply := 1\<rparr>) (db_rows w)\<rparr>) \<and> rd n (replyPath w i) = Some blob"
proof -
  have p: "replyPath w i = caseDir w i @ [''reply.bin'']"
    by (rule replyPath_plain [OF assms(2) case_id_plain [OF assms(3)]])
  obtain n where n: "wr (replyPath w i) blob (os_root w) = Some n"
    using wr_in_dir [OF assms(5), of "''reply.bin''" blob] assms(6) p by auto
  have "os_fault w OpWrite (replyPath w i) = NoFault" "\<And>st. db_fault w st = None"
    using assms(1) by (simp_all add: healthy_def no_faults_def)
  with n assms(4) have "WriteReply i blob w = (None, w\<lparr>os_root := n, db_rows :=
      rows_upd i (\<lambda>r. r\<lparr>row_reply := 1\<rparr>) (db_rows w)\<rparr>)"
    by (simp add: WriteReply_def GetCase_def os_WriteFile_def db_exec_def)
  with rd_wr_same [OF n] show ?thesis by blast
qed

lemma save_reply_ok:
  fixes sv :: "'a server_scheme"
  assumes "aead_correct P" and "healthy sv" and "plain_dir sv" and "case_id i"
    and "map_of (db_rows sv) i = Some r" and "is_dir (os_root sv) (caseDir sv i)"
    and "\<not> is_dir (os_root sv) (replyPath sv i)" and "24 \<le> length (os_rng sv)"
  shows "\<exists>sv1 blob. save_reply P c i t sv = (None, sv1)
      \<and> db_rows sv1 = rows_upd i (\<lambda>r. r\<lparr>row_reply := 1\<rparr>) (db_rows sv)
      \<and> rd (os_root sv1) (replyPath sv i) = Some blob \<and> open_reply P c i blob = Inr (bytes_of t)
      \<and> healthy sv1 \<and> data_dir sv1 = data_dir sv \<and> sv_sessions sv1 = sv_sessions sv"
proof -
  obtain key where key: "HKDFKey (bytes_of c) (bytes_of i) HKDFReplyKey 32 = Inr key" "length key = 32"
    using HKDF_reply_key by blast
  have "readRandom 24 sv = (Inr (take 24 (os_rng sv)), sv\<lparr>os_rng := drop 24 (os_rng sv)\<rparr>)"
    using assms(8) by (simp add: readRandom_ok)
  with key obtain blob where e: "EncryptSymmetric P key (bytes_of t) sv = (Inr blob, sv\<lparr>os_rng := drop 24 (os_rng sv)\<rparr>)"
    by (simp add: EncryptSymmetric_def)
  let ?w = "sv\<lparr>os_rng := drop 24 (os_rng sv)\<rparr>"
  have paths: "caseDir ?w = caseDir sv" "replyPath ?w = replyPath sv"
    by (simp_all add: paths_data_dir [of ?w sv])
  have hw: "healthy ?w" "plain_dir ?w" "map_of (db_rows ?w) i = Some r"
    using assms(2,3,5) by (simp_all add: healthy_def no_faults_def plain_dir_def)
  obtain n where n: "WriteReply i blob ?w = (None, ?w\<lparr>os_root := n, db_rows :=
      rows_upd i (\<lambda>r. r\<lparr>row_reply := 1\<rparr>) (db_rows sv)\<rparr>)" "rd n (replyPath sv i) = Some blob"
    using WriteReply_ok [OF hw(1,2) assms(4) hw(3), of blob] assms(6,7) paths by auto
  have "save_reply P c i t sv = (None, ?w\<lparr>os_root := n, db_rows :=
      rows_upd i (\<lambda>r. r\<lparr>row_reply := 1\<rparr>) (db_rows sv)\<rparr>)"
    using key e n by (simp add: save_reply_def)
  with n(2) open_saved [OF assms(1) key(1) e] assms(2) show ?thesis
    by (simp add: healthy_def no_faults_def)
qed

lemma reply_shown:
  assumes "healthy sv" and "plain_dir sv" and "map_of (db_rows sv) i \<noteq> None"
    and "rd (os_root sv) (replyPath sv i) = Some blob" and "open_reply (app_Prims a) c i blob = Inr (bytes_of t)"
  shows "reply_status a c i sv = \<lparr>rv_Status = ''has-reply'', rv_CaseID = i, rv_ReplyText = t\<rparr>"
proof -
  have "ReadReply i sv = Inr blob"
    using assms(1,4) by (auto simp: ReadReply_def os_ReadFile_def healthy_def no_faults_def rd_def
        split: option.splits node.splits)
  moreover obtain ci where "GetCase i sv = Inr ci" "case_ID ci = i"
    using assms(1,3) by (auto simp: GetCase_def healthy_def scan_case_def)
  ultimately show ?thesis using assms(5) by (simp add: reply_status_def Let_def)
qed

lemma validCaseID_case_id: "validCaseID i = case_id i"
  by (simp add: validCaseID_def case_id_def lower_hex_char_def [abs_def] ordc_def)

text \<open>C6: a reply saved in the dashboard under the code of a case reaches the visitor who comes back
  with that code, exactly as written up to surrounding white space: on a healthy store the page
  shows it, through encryption under a key that only the code yields.\<close>

theorem reply_reaches_visitor:
  assumes "aead_correct (app_Prims a)" and "store_inv sv" and "healthy sv" and "24 \<le> length (os_rng sv)"
    and "FindCaseByCode (app_Prims a) c (CaseCodeLookup (sx_LookupKey (app_Secrets a)) c) sv = Inr i"
    and "is_dir (os_root sv) (caseDir sv i)" and "\<not> is_dir (os_root sv) (replyPath sv i)"
    and "rq_Method rq = ''POST''" and "path_id ''/admin/reply/'' rq = i"
    and "TrimSpace (form_value rq ''case_code'') = c" and "TrimSpace (form_value rq ''reply_body'') = t"
    and "c \<noteq> []" and "t \<noteq> []"
    and "handleAdminReply a rq rs sv = (rs1, sv1)"
    and "rq_Method rq2 = ''POST''" and "TrimSpace (form_value rq2 ''code'') = c"
    and "VerifyAnonCSRF (readAnonCSRFCookie rq2) (form_value rq2 CSRFFormField)"
  shows "fst (handleReply a rq2 rs2 sv1) = renderPublic a rq2 ''reply''
           (VReply \<lparr>rv_Status = ''has-reply'', rv_CaseID = i, rv_ReplyText = t\<rparr>) [] [] rs2"
proof -
  from FindCase_id [OF assms(2,5)] obtain r where i: "case_id i" "map_of (db_rows sv) i = Some r" by auto
  then have valid: "validCaseID i" by (simp add: validCaseID_case_id)
  have pd: "plain_dir sv" using assms(2) by (simp add: store_inv_def)
  obtain sv2 blob where s: "save_reply (app_Prims a) c i t sv = (None, sv2)"
    and rows: "db_rows sv2 = rows_upd i (\<lambda>r. r\<lparr>row_reply := 1\<rparr>) (db_rows sv)"
    and blob: "rd (os_root sv2) (replyPath sv i) = Some blob" "open_reply (app_Prims a) c i blob = Inr (bytes_of t)"
    and h: "healthy sv2" "data_dir sv2 = data_dir sv"
    using save_reply_ok [OF assms(1,3) pd i assms(6,7,4)] by blast
  obtain ci where ci: "GetCase i sv = Inr ci" "case_ID ci = i"
    using assms(3) i by (auto simp: GetCase_def healthy_def scan_case_def)
  have "sv1 = sv2"
    using assms(5,8,9,10,11,12,13,14) valid s ci
    by (simp add: handleAdminReply_def admin_reply_post_def Let_def)
  moreover have "FindCaseByCode (app_Prims a) c (CaseCodeLookup (sx_LookupKey (app_Secrets a)) c) sv2 = Inr i"
    using FindCase_upd [OF assms(5) rows] h by (simp add: healthy_def)
  moreover have "reply_status a c i sv2 = \<lparr>rv_Status = ''has-reply'', rv_CaseID = i, rv_ReplyText = t\<rparr>"
    by (rule reply_shown [OF h(1) _ _ _ blob(2)])
      (use pd i rows blob paths_data_dir [OF h(2)] in \<open>simp_all add: map_of_rows_upd\<close>)
  ultimately show ?thesis
    using assms(12,15,16,17)
    by (simp add: handleReply_def with_floor_def reply_post_def reply_lookup_def Let_def split: prod.splits)
qed

end
