(* ===== verification/Serve_Laws.thy ===== *)
theory Serve_Laws
  imports Routes Visit_Laws
begin

text \<open>
  Properties of every request: what the server answers, what it changes, and who may ask for it.
\<close>

section \<open>Responses\<close>

text \<open>\<open>open_response\<close> holds of a response the middleware hands to a handler, \<open>sent_response\<close> of
  one the handler returns.\<close>

definition html_type :: string where "html_type = ''text/html; charset=utf-8''"

definition keeps_security :: "response \<Rightarrow> bool" where
  "keeps_security rs \<longleftrightarrow> list_all (\<lambda>(k, v). map_of (rs_headers rs) k = Some v) security_headers"

definition open_response :: "response \<Rightarrow> bool" where
  "open_response rs \<longleftrightarrow> rs_status rs = 200 \<and> keeps_security rs"

definition padded_page :: "response \<Rightarrow> bool" where
  "padded_page rs \<longleftrightarrow> (rs_status rs = 200 \<and> map_of (rs_headers rs) ''Content-Type'' = Some html_type
     \<longrightarrow> 4096 dvd length (rs_body rs))"

definition sent_response :: "response \<Rightarrow> bool" where
  "sent_response rs \<longleftrightarrow> keeps_security rs \<and> padded_page rs"

lemma keeps_security_iff:
  "keeps_security rs \<longleftrightarrow> (\<forall>k v. (k, v) \<in> set security_headers \<longrightarrow> map_of (rs_headers rs) k = Some v)"
  by (auto simp: keeps_security_def list_all_iff)

lemma status_set_header [simp]: "rs_status (set_header k v rs) = rs_status rs"
  by (simp add: set_header_def)

lemma set_header_other:
  "k \<notin> fst ` set security_headers \<Longrightarrow> keeps_security (set_header k v rs) = keeps_security rs"
  unfolding keeps_security_iff set_header_def by (simp add: map_of_al_put) (metis fst_conv image_eqI)

lemma security_keys:
  "''Content-Type'' \<notin> fst ` set security_headers" "''Location'' \<notin> fst ` set security_headers"
  "''Content-Disposition'' \<notin> fst ` set security_headers"
  "distinct (map fst security_headers)" "(''X-Content-Type-Options'', ''nosniff'') \<in> set security_headers"
  by (simp_all add: security_headers_def)

lemma set_header_same:
  "(k, v) \<in> set security_headers \<Longrightarrow> keeps_security rs \<Longrightarrow> keeps_security (set_header k v rs)"
proof -
  assume kv: "(k, v) \<in> set security_headers" and rs: "keeps_security rs"
  have "v' = v" if "(k, v') \<in> set security_headers" for v'
    using kv that security_keys(4) by (metis eq_key_imp_eq_value)
  with rs show ?thesis by (auto simp: keeps_security_iff set_header_def map_of_al_put)
qed

lemma keeps_fields [simp]:
  "keeps_security (rs\<lparr>rs_status := x\<rparr>) = keeps_security rs"
  "keeps_security (rs\<lparr>rs_body := b\<rparr>) = keeps_security rs"
  "keeps_security (rs\<lparr>rs_cookies := c\<rparr>) = keeps_security rs"
  by (simp_all add: keeps_security_def)

lemma keeps_SetCookie [simp]: "keeps_security (http_SetCookie c rs) = keeps_security rs"
  by (simp add: http_SetCookie_def)

lemmas keeps_headers [simp] = security_keys(1-3) [THEN set_header_other]

lemma open_cookie [simp]: "open_response (http_SetCookie c rs) = open_response rs"
  by (simp add: open_response_def http_SetCookie_def)

lemma sent_Error: "open_response rs \<Longrightarrow> sent_response (http_Error m c rs)"
  by (simp add: open_response_def sent_response_def http_Error_def padded_page_def html_type_def
      set_header_same [OF security_keys(5)]) (simp add: set_header_def map_of_al_put)

lemma sent_NotFound: "open_response rs \<Longrightarrow> sent_response (http_NotFound rs)"
  by (simp add: http_NotFound_def sent_Error)

lemma sent_Redirect: "open_response rs \<Longrightarrow> sent_response (http_Redirect rq url rs)"
  by (simp add: open_response_def sent_response_def http_Redirect_def Let_def padded_page_def)

lemma sent_mux: "open_response rs \<Longrightarrow> sent_response (mux_redirect L p rq rs)"
  by (simp add: open_response_def sent_response_def mux_redirect_def Let_def padded_page_def)

lemma sent_page: "open_response rs \<Longrightarrow> sent_response (write_page out rs)"
proof (cases out)
  case None
  assume "open_response rs"
  then show ?thesis using None sent_Error [of "set_header ''Content-Type'' ''text/html; charset=utf-8'' rs"]
    by (simp add: write_page_def Let_def open_response_def)
next
  case (Some page)
  assume "open_response rs"
  moreover obtain b where "pad_body page = Some b" "4096 dvd length b" using pad_body_total by blast
  ultimately show ?thesis
    using Some by (simp add: write_page_def Let_def sent_response_def open_response_def padded_page_def)
qed

lemma sent_render: "open_response rs \<Longrightarrow> sent_response (render a ss rq name d rs)"
  by (simp add: render_def sent_Error sent_page split: option.splits)

lemma sent_renderPublic: "open_response rs \<Longrightarrow> sent_response (renderPublic a rq name d pw cs rs)"
  by (simp add: renderPublic_def sent_Error sent_page Let_def setAnonCSRFCookie_def setAnonCSRFCookieAt_def
      split: option.splits)

lemma sent_plain:
  "open_response rs \<Longrightarrow> ct \<noteq> html_type \<Longrightarrow> sent_response ((set_header ''Content-Type'' ct rs)\<lparr>rs_body := b\<rparr>)"
  by (simp add: sent_response_def open_response_def padded_page_def)
    (simp add: set_header_def map_of_al_put)

lemma sent_download:
  "open_response rs \<Longrightarrow> sent_response ((set_header ''Content-Disposition'' v
     (set_header ''Content-Type'' ''application/octet-stream'' rs))\<lparr>rs_body := b\<rparr>)"
  by (simp add: sent_response_def open_response_def padded_page_def)
    (simp add: set_header_def map_of_al_put html_type_def)

lemmas sent_rules = sent_Error sent_NotFound sent_Redirect sent_mux sent_render sent_renderPublic

lemmas handler_splits = prod.splits sum.splits option.splits if_splits

text \<open>\<open>answers h\<close>: every response of handler \<open>h\<close> is one that may be sent.\<close>

definition answers :: "(request \<Rightarrow> response \<Rightarrow> 'a server_scheme \<Rightarrow> response \<times> 'a server_scheme) \<Rightarrow> bool" where
  "answers h \<longleftrightarrow> (\<forall>rq rs sv. open_response rs \<longrightarrow> sent_response (fst (h rq rs sv)))"

lemma answersI: "(\<And>rq rs sv rs' sv'. open_response rs \<Longrightarrow> h rq rs sv = (rs', sv') \<Longrightarrow> sent_response rs') \<Longrightarrow> answers h"
  by (auto simp: answers_def) (metis surjective_pairing)

lemma answersD: "answers h \<Longrightarrow> open_response rs \<Longrightarrow> h rq rs sv = (rs', sv') \<Longrightarrow> sent_response rs'"
  by (auto simp: answers_def) (metis fst_conv)

lemma answers_floor: "answers h \<Longrightarrow> answers (with_floor d h)"
  by (rule answersI) (auto dest!: floor_cases dest: answersD)

lemma answers_Auth: "answers h \<Longrightarrow> answers (requireAuth h)"
  by (rule answersI) (auto simp: requireAuth_def sent_rules split: handler_splits dest: answersD)

lemma answers_CSS: "answers (handleStaticCSS a)"
  by (rule answersI) (auto simp: handleStaticCSS_def sent_rules html_type_def intro!: sent_plain split: handler_splits)

lemma answers_Index: "answers (handleIndex a)"
  by (rule answersI) (auto simp: handleIndex_def sent_rules split: handler_splits)

lemma answers_process_form: "answers (\<lambda>rq. process_form a rq (p rq))"
  by (rule answersI) (auto simp: process_form_def sent_rules split: handler_splits)

lemma answers_Submit: "answers (handleSubmit a)"
  by (rule answersI)
    (auto simp: handleSubmit_def processSubmit_def sent_rules split: handler_splits
      dest: answersD [OF answers_floor [OF answers_process_form]])

lemma answers_reply_post: "answers (reply_post a)"
  by (rule answersI) (auto simp: reply_post_def Let_def sent_rules split: handler_splits)

lemma answers_Reply: "answers (handleReply a)"
  by (rule answersI)
    (auto simp: handleReply_def sent_rules setAnonCSRFCookieAt_def split: handler_splits
      dest: answersD [OF answers_floor [OF answers_reply_post]])

lemma answers_AdminRoot: "answers (handleAdminRoot a)"
  by (rule answersI) (auto simp: handleAdminRoot_def sent_rules split: handler_splits)

lemma answers_login_post: "answers (login_post a)"
  by (rule answersI)
    (auto simp: login_post_def login_failed_def Let_def sent_rules setSessionCookie_def split: handler_splits)

lemma answers_AdminLogin: "answers (handleAdminLogin a)"
  by (rule answersI)
    (auto simp: handleAdminLogin_def sent_rules setAnonCSRFCookieAt_def split: handler_splits
      dest: answersD [OF answers_floor [OF answers_login_post]])

lemma answers_Logout: "answers (handleAdminLogout a)"
  by (rule answersI) (auto simp: handleAdminLogout_def Let_def sent_rules clearSessionCookie_def)

lemma answers_Inbox: "answers (handleAdminInbox a)"
  by (rule answersI) (auto simp: handleAdminInbox_def sent_rules split: handler_splits)

lemma answers_Case: "answers (handleAdminCase a)"
  by (rule answersI) (auto simp: handleAdminCase_def Let_def sent_rules split: handler_splits)

lemma answers_Download: "answers (handleAdminDownload a)"
  by (rule answersI)
    (auto simp: handleAdminDownload_def Let_def sent_rules sent_download split: handler_splits)

lemma answers_AdminReply: "answers (handleAdminReply a)"
  by (rule answersI)
    (auto simp: handleAdminReply_def admin_reply_post_def reply_page_def Let_def sent_rules
      split: handler_splits)

lemmas answers_handlers = answers_CSS answers_Index answers_Submit answers_Reply answers_AdminRoot
  answers_AdminLogin answers_Auth [OF answers_Logout] answers_Auth [OF answers_Inbox]
  answers_Auth [OF answers_Case] answers_Auth [OF answers_AdminReply] answers_Auth [OF answers_Download]

lemma answers_Routes: "answers (Routes a segs)"
  by (simp add: Routes_def answers_handlers)

lemma sent_moved: "open_response rs \<Longrightarrow> mux_moved L rq rs = Some rs' \<Longrightarrow> sent_response rs'"
  by (auto simp: mux_moved_def Let_def sent_mux split: if_splits)

lemma answers_mux: "answers (mux_ServeHTTP L a)"
  by (rule answersI)
    (auto simp: mux_ServeHTTP_def split: option.splits dest: sent_moved answersD [OF answers_Routes])

lemma foldl_headers:
  "rs_status (foldl (\<lambda>r (k, v). set_header k v r) rs hs) = rs_status rs"
  by (induction hs arbitrary: rs) auto

lemma foldl_header_get:
  "distinct (map fst hs) \<Longrightarrow> (k, v) \<in> set hs \<Longrightarrow>
     map_of (rs_headers (foldl (\<lambda>r (k, v). set_header k v r) rs hs)) k = Some v"
proof (induction hs rule: rev_induct)
  case (snoc h hs)
  obtain k' v' where h: "h = (k', v')" by fastforce
  show ?case
  proof (cases "(k, v) = h")
    case True
    with h show ?thesis by (simp add: set_header_def map_of_al_put)
  next
    case False
    with snoc.prems have kv: "(k, v) \<in> set hs" by simp
    with snoc.prems h have "k \<noteq> k'" by force
    with snoc kv h show ?thesis by (simp add: set_header_def map_of_al_put)
  qed
qed simp

lemma open_with_headers: "open_response (foldl (\<lambda>r (k, v). set_header k v r) new_response security_headers)"
  unfolding open_response_def keeps_security_iff
  using foldl_header_get [OF security_keys(4)] by (simp add: foldl_headers) (simp add: new_response_def)

lemma serve_sent: "sent_response (fst (serve L a rq sv))"
  unfolding serve_def withSecurityHeaders_def
  by (rule answers_mux [unfolded answers_def, rule_format, OF open_with_headers])

text \<open>Every response of the server, error pages and redirects included, carries every header of
  the hardening list with exactly the value set by the middleware.\<close>

lemma security_headers_always:
  "list_all (\<lambda>(k, v). map_of (rs_headers (fst (serve L a rq sv))) k = Some v) security_headers"
  using serve_sent [of L a rq sv] by (simp add: sent_response_def keeps_security_def)

text \<open>C40: every HTML page the server delivers is a multiple of 4096 bytes long, whatever it shows and
  whoever asked for it.\<close>

theorem pages_padded:
  assumes "serve L a rq sv = (rs, sv')" and "rs_status rs = 200"
    and "map_of (rs_headers rs) ''Content-Type'' = Some ''text/html; charset=utf-8''"
  shows "4096 dvd length (rs_body rs)"
  using serve_sent [of L a rq sv] assms by (simp add: sent_response_def padded_page_def html_type_def)

end
