(* ===== verification/Serve_Effects.thy ===== *)
theory Serve_Effects
  imports Serve_Laws
begin

text \<open>
  What a request changes in the store.  One lemma per handler says that it keeps the invariant and
  every case; the one exception, the duress login, is named.  The dashboard is closed to requests
  without a live session.
\<close>

section \<open>Keeping the store\<close>

text \<open>\<open>calm\<close> relates states with the same store and files, \<open>safe\<close> states where case \<open>i\<close> is kept.\<close>

definition calm :: "'a server_scheme \<Rightarrow> 'a server_scheme \<Rightarrow> bool" where
  "calm sv sv' \<longleftrightarrow> os_root sv' = os_root sv \<and> db_rows sv' = db_rows sv \<and> data_dir sv' = data_dir sv
     \<and> os_now sv \<le> os_now sv'"

definition safe :: "string \<Rightarrow> 'a server_scheme \<Rightarrow> 'a server_scheme \<Rightarrow> bool" where
  "safe i sv sv' \<longleftrightarrow> (store_inv sv \<longrightarrow> store_inv sv' \<and> keeps i sv sv' \<and> data_dir sv' = data_dir sv
     \<and> os_now sv \<le> os_now sv')"

lemma calm_refl [simp]: "calm sv sv"
  by (simp add: calm_def)

lemma calm_drew: "drew sv sv' \<Longrightarrow> calm sv sv'"
  by (simp add: calm_def drew_fields)

lemma calm_wait [simp, intro]: "calm sv sv' \<Longrightarrow> calm sv (FixedWaitUntil d sv')"
  by (simp add: calm_def le_max_iff_disj)

lemma calm_sessions [simp]: "calm sv (sv'\<lparr>sv_sessions := ss\<rparr>) = calm sv sv'"
  by (simp add: calm_def)

lemma calm_safe: "calm sv sv' \<Longrightarrow> safe i sv sv'"
  by (simp add: calm_def safe_def store_inv_def plain_dir_def keeps_def)

lemma safe_trans: "safe i sv sv1 \<Longrightarrow> safe i sv1 sv2 \<Longrightarrow> safe i sv sv2"
  by (auto simp: safe_def intro: keeps_trans)

lemma safe_calm_trans: "safe i sv sv1 \<Longrightarrow> calm sv1 sv2 \<Longrightarrow> safe i sv sv2"
  by (meson calm_safe safe_trans)

lemma safe_wait [simp, intro]: "safe i sv sv' \<Longrightarrow> safe i sv (FixedWaitUntil d sv')"
  by (erule safe_calm_trans) (simp add: calm_wait)

lemma safe_create: "CreateCase cl ch cs ttl blob sv = (res, sv') \<Longrightarrow> safe i sv sv'"
  by (auto simp: safe_def dest: create_inv)

lemma safe_reply: "WriteReply j blob sv = (e, sv') \<Longrightarrow> safe i sv sv'"
  by (auto simp: safe_def dest: reply_keeps)

lemma safe_mark: "safe i sv (snd (MarkRead j sv))"
  using exec_upd_keeps [of sv "DbMarkRead j" j "\<lambda>r. r\<lparr>row_read := 1\<rparr>"]
  by (cases "MarkRead j sv") (auto simp: safe_def MarkRead_def row_core_def)

text \<open>\<open>guards i h\<close>: handler \<open>h\<close> keeps case \<open>i\<close>.\<close>

definition guards :: "string \<Rightarrow> (request \<Rightarrow> response \<Rightarrow> 'a server_scheme \<Rightarrow> response \<times> 'a server_scheme) \<Rightarrow> bool" where
  "guards i h \<longleftrightarrow> (\<forall>rq rs sv. safe i sv (snd (h rq rs sv)))"

lemma guardsI: "(\<And>rq rs sv rs' sv'. h rq rs sv = (rs', sv') \<Longrightarrow> safe i sv sv') \<Longrightarrow> guards i h"
  by (auto simp: guards_def) (metis surjective_pairing)

lemma guardsD: "guards i h \<Longrightarrow> h rq rs sv = (rs', sv') \<Longrightarrow> safe i sv sv'"
  by (auto simp: guards_def) (metis snd_conv)

lemma guards_calm: "(\<And>rq rs sv rs' sv'. h rq rs sv = (rs', sv') \<Longrightarrow> calm sv sv') \<Longrightarrow> guards i h"
  by (rule guardsI) (simp add: calm_safe)

lemma guards_floor: "guards i h \<Longrightarrow> guards i (with_floor d h)"
  by (rule guardsI) (auto dest!: floor_cases dest: guardsD)

lemma guards_Auth: "guards i h \<Longrightarrow> guards i (requireAuth h)"
proof (rule guardsI)
  fix rq rs sv rs' sv'
  assume h: "guards i h" and r: "requireAuth h rq rs sv = (rs', sv')"
  have c: "safe i sv (sv\<lparr>sv_sessions := ss\<rparr>)" for ss by (simp add: calm_safe)
  show "safe i sv sv'"
    using r by (auto simp: requireAuth_def c split: handler_splits
        dest: guardsD [OF h] intro: safe_trans [OF c])
qed

lemma submit_case_safe: "submit_case a vals atts sv = (res, sv') \<Longrightarrow> safe i sv sv'"
  using submit_case_stages [of a vals atts sv res sv']
  by (auto intro: safe_trans [OF calm_safe [OF calm_drew] safe_create] calm_safe [OF calm_drew])

lemma guards_Submit: "guards i (handleSubmit a)"
proof (rule guardsI)
  fix rq rs sv rs' sv'
  assume r: "handleSubmit a rq rs sv = (rs', sv')"
  consider "rq_Method rq = ''GET''" | "processSubmit a rq rs sv = (rs', sv')" | "sv' = sv"
    using r by (auto simp: handleSubmit_def split: if_splits)
  then show "safe i sv sv'"
  proof cases
    case 1
    with r show ?thesis
      by (auto simp: handleSubmit_def split: handler_splits dest!: drew_IssuePoWToken drew_NewAnonCSRFToken
          intro!: calm_safe calm_drew intro: drew_trans)
  next
    case 2
    from processSubmit_cases [OF this] show ?thesis
      by (auto dest: submit_case_safe simp: calm_safe)
  next
    case 3
    then show ?thesis by (simp add: calm_safe)
  qed
qed

lemma guards_Reply: "guards i (handleReply a)"
  by (rule guards_calm)
    (auto simp: handleReply_def reply_post_def Let_def split: handler_splits
      dest!: floor_cases drew_NewAnonCSRFToken intro: calm_drew)

lemma guards_login_get:
  "rq_Method rq \<noteq> ''POST'' \<Longrightarrow> handleAdminLogin a rq rs sv = (rs', sv') \<Longrightarrow> safe i sv sv'"
  by (rule calm_safe)
    (auto simp: handleAdminLogin_def split: handler_splits dest!: drew_NewAnonCSRFToken intro: calm_drew)

lemma session_New_drew: "session_New ss w = (r, ss', w') \<Longrightarrow> drew w w'"
  by (auto simp: session_New_def Let_def split: prod.splits sum.splits dest: drew_readRandom)

text \<open>The login that wipes the store: the right password with the duress code.\<close>

definition duress_login :: "('i, 'g) app \<Rightarrow> request \<Rightarrow> 'a server_scheme \<Rightarrow> bool" where
  "duress_login a rq sv \<longleftrightarrow> rq_Method rq = ''POST''
     \<and> VerifyAnonCSRF (readAnonCSRFCookie rq) (form_value rq CSRFFormField)
     \<and> form_value rq ''password'' \<noteq> [] \<and> form_value rq ''totp'' \<noteq> []
     \<and> CheckAdminPassword (app_Prims a) (app_Secrets a) (form_value rq ''password'')
     \<and> sx_TOTPSecretDuress (app_Secrets a) \<noteq> []
     \<and> totp_Validate (app_Prims a) (os_now sv) (form_value rq ''totp'') (sx_TOTPSecretDuress (app_Secrets a))"

lemma login_post_calm:
  "\<not> duress_login a rq sv \<Longrightarrow> rq_Method rq = ''POST'' \<Longrightarrow> login_post a rq rs sv = (rs', sv') \<Longrightarrow> calm sv sv'"
  by (auto simp: login_post_def duress_login_def Let_def split: handler_splits
      dest!: session_New_drew intro: calm_drew)

lemma login_safe:
  assumes "\<not> duress_login a rq sv" and "handleAdminLogin a rq rs sv = (rs', sv')"
  shows "safe i sv sv'"
proof (cases "rq_Method rq = ''POST''")
  case True
  with assms(2) have "with_floor (2 * second) (login_post a) rq rs sv = (rs', sv')"
    by (simp add: handleAdminLogin_def)
  with login_post_calm [OF assms(1) True] show ?thesis by (auto dest!: floor_cases intro!: calm_safe)
qed (rule guards_login_get [OF _ assms(2)])

lemma guards_Logout: "guards i (handleAdminLogout a)"
  by (rule guards_calm) (auto simp: handleAdminLogout_def Let_def)

lemma guards_Inbox: "guards i (handleAdminInbox a)"
  by (rule guards_calm) (auto simp: handleAdminInbox_def split: handler_splits)

lemma guards_Case: "guards i (handleAdminCase a)"
  by (rule guards_calm) (auto simp: handleAdminCase_def Let_def split: handler_splits)

lemma guards_Download: "guards i (handleAdminDownload a)"
  by (rule guardsI)
    (auto simp: handleAdminDownload_def Let_def calm_safe safe_mark split: handler_splits)

lemma save_reply_safe: "save_reply P c j t sv = (e, sv') \<Longrightarrow> safe i sv sv'"
  by (auto simp: save_reply_def split: handler_splits dest!: drew_EncryptSymmetric
      intro: calm_safe [OF calm_drew] safe_trans [OF calm_safe [OF calm_drew] safe_reply] calm_safe)

lemma guards_AdminReply: "guards i (handleAdminReply a)"
  by (rule guardsI)
    (auto simp: handleAdminReply_def admin_reply_post_def Let_def calm_safe split: handler_splits
      dest: save_reply_safe)

lemma guards_AdminRoot: "guards i (handleAdminRoot a)"
  by (rule guards_calm) (auto simp: handleAdminRoot_def split: handler_splits)

lemma guards_pages: "guards i (handleStaticCSS a)" "guards i (handleIndex a)"
  by (rule guards_calm, auto simp: handleStaticCSS_def handleIndex_def split: handler_splits)+

lemmas guards_handlers = guards_pages guards_Submit guards_Reply guards_AdminRoot
  guards_Auth [OF guards_Logout] guards_Auth [OF guards_Inbox]
  guards_Auth [OF guards_Case] guards_Auth [OF guards_AdminReply] guards_Auth [OF guards_Download]

lemma guards_Routes:
  assumes "segs = [''admin'', ''login''] \<Longrightarrow> \<not> duress_login a rq sv"
    and "Routes a segs rq rs sv = (rs', sv')"
  shows "safe i sv sv'"
proof (cases "segs = [''admin'', ''login'']")
  case True
  with assms show ?thesis by (auto simp: Routes_def intro: login_safe)
next
  case False
  then have "guards i (Routes a segs)" by (simp add: Routes_def guards_handlers)
  with assms(2) show ?thesis by (auto dest: guardsD)
qed

section \<open>Requests\<close>

text \<open>The decoded segments under which a request is dispatched.\<close>

definition target :: "request \<Rightarrow> string list" where
  "target rq = path_segments (rq_EscapedPath rq)"

lemma serve_cases:
  assumes "serve L a rq sv = (rs, sv')"
  shows "sv' = sv \<or> (\<exists>rs0. Routes a (target rq) rq rs0 sv = (rs, sv'))"
  using assms
  by (auto simp: serve_def withSecurityHeaders_def mux_ServeHTTP_def target_def split: option.splits)

lemma serve_safe:
  assumes "\<not> (target rq = [''admin'', ''login''] \<and> duress_login a rq sv)" and "serve L a rq sv = (rs, sv')"
  shows "safe i sv sv'"
  using serve_cases [OF assms(2)]
proof (elim disjE exE)
  fix rs0
  assume r: "Routes a (target rq) rq rs0 sv = (rs, sv')"
  show ?thesis by (rule guards_Routes [OF _ r]) (use assms(1) in blast)
qed (simp add: calm_safe)

text \<open>C4: no request takes a case away.  Whatever is sent to the server, by whomever, and whatever
  the disk and the database refuse, every case keeps its code verifiers, its dates and its
  encrypted blob, and the store stays well formed; the only exception is a login with the right
  password and the duress code.\<close>

theorem requests_keep_cases:
  assumes "store_inv sv" and "\<not> (target rq = [''admin'', ''login''] \<and> duress_login a rq sv)"
    and "serve L a rq sv = (rs, sv')"
  shows "store_inv sv' \<and> (\<forall>i r. map_of (db_rows sv) i = Some r \<longrightarrow>
     (\<exists>r'. map_of (db_rows sv') i = Some r' \<and> r' = r\<lparr>row_read := row_read r', row_reply := row_reply r'\<rparr>)
     \<and> rd (os_root sv') (blobPath sv' i) = rd (os_root sv) (blobPath sv i))"
proof -
  note s = serve_safe [OF assms(2,3)]
  have "store_inv sv'" "data_dir sv' = data_dir sv" "keeps i sv sv'" for i
    using s assms(1) by (simp_all add: safe_def)
  with core_flags paths_data_dir [of sv' sv] show ?thesis by (metis keeps_def)
qed

end
