(* ===== verification/Server.thy ===== *)
theory Server
  imports Tor_Setup Serve_Effects
begin

text \<open>
  \<open>Run\<close> of \<open>internal/kakekomi/server.go\<close>: the start of the server and the life of a running one.

  The start reads the configuration, the passphrase and the secrets, opens the store, sweeps it
  once, and registers the onion service when it is enabled; then the server takes requests, its
  sweeper runs, and time, entropy and the moods of disk and database change.  Requests run one
  after the other here; theory \<open>Store_Threads\<close> interleaves the operations of the store.  The
  settings of the HTTP server and the wait for its end are in \<open>Server_Life\<close>.
\<close>

section \<open>Start\<close>

definition readPassphrase :: "string \<Rightarrow> (error + string) \<times> string" where
  "readPassphrase inp =
     (case ReadString inp of
        ((line, Some e), rest) \<Rightarrow>
          (if e \<noteq> ErrEOF then Inl e else Inr (TrimRight line [CHR 0x0D, CHR 0x0A]), rest)
      | ((line, None), rest) \<Rightarrow> (Inr (TrimRight line [CHR 0x0D, CHR 0x0A]), rest))"

record ('i, 'g) run_env =
  re_Prims :: prims
  re_Codecs :: "('i, 'g) image_codecs"
  re_Yaml :: yaml_codec
  re_Exec :: "string \<Rightarrow> page_template"
  re_CSS :: "string option"
  re_Dial :: "string \<Rightarrow> string \<Rightarrow> error + tor_conn"

record ('i, 'g) running =
  rn_App :: "('i, 'g) app"
  rn_State :: server
  rn_Tor :: "(string \<times> tor_conn) option"

definition new_server :: "world \<Rightarrow> bytes \<Rightarrow> server" where
  "new_server w csrfKey = world.extend w (server.fields (NewSessionStore csrfKey))"

definition start_tor :: "(string \<Rightarrow> string \<Rightarrow> error + tor_conn) \<Rightarrow> config \<Rightarrow> path \<Rightarrow> string \<Rightarrow> bool
    \<Rightarrow> 'a os_scheme \<Rightarrow> config \<times> (string \<times> tor_conn) option \<times> 'a os_scheme" where
  "start_tor dial cfg dataDir addr noTor w =
     (if tor_Enabled (cfg_Tor cfg) \<and> \<not> noTor then
        (case setupTor dial cfg dataDir addr w of
           (Inl e, _, w1) \<Rightarrow> (cfg, None, w1)
         | (Inr (cfg1, serviceID), t, w1) \<Rightarrow> (cfg1, map_option (Pair serviceID) t, w1))
      else (cfg, None, w))"

definition Run :: "('i, 'g) run_env \<Rightarrow> path \<Rightarrow> string \<Rightarrow> bool \<Rightarrow> string \<Rightarrow> world
    \<Rightarrow> (error \<times> world) + ('i, 'g) running" where
  "Run E dataDir addr noTor inp w =
     (case LoadConfig (re_Yaml E) dataDir w of
        Inl e \<Rightarrow> Inl (e, w)
      | Inr cfg \<Rightarrow>
     (case fst (readPassphrase inp) of
        Inl e \<Rightarrow> Inl (e, w)
      | Inr passphrase \<Rightarrow>
     (case LoadSecrets (re_Prims E) dataDir passphrase w of
        Inl e \<Rightarrow> Inl (e, w)
      | Inr sx \<Rightarrow>
     (case OpenStore dataDir w of
        (Some e, w1) \<Rightarrow> Inl (e, w1)
      | (None, w1) \<Rightarrow>
          (case start_tor (re_Dial E) cfg dataDir addr noTor (new_server (snd (GC w1)) (sx_CSRFKey sx)) of
             (cfg1, tor, sv) \<Rightarrow>
               Inr \<lparr>rn_App = \<lparr>app_Prims = re_Prims E, app_Codecs = re_Codecs E, app_Config = cfg1,
                      app_Secrets = sx, app_Templates = loadTemplates (re_Exec E), app_CSS = re_CSS E\<rparr>,
                    rn_State = sv, rn_Tor = tor\<rparr>)))))"

definition shut_down :: "('i, 'g) running \<Rightarrow> tor_conn option" where
  "shut_down rn = (case rn_Tor rn of None \<Rightarrow> None | Some (serviceID, t) \<Rightarrow> Some (tear_down serviceID t))"

section \<open>A running server\<close>

text \<open>A login with the duress code is an event of its own.\<close>

definition wipes :: "('i, 'g) app \<Rightarrow> request \<Rightarrow> 'a server_scheme \<Rightarrow> bool" where
  "wipes a rq sv \<longleftrightarrow> target rq = [''admin'', ''login''] \<and> duress_login a rq sv"

datatype server_event = EvRequest request | EvDuress request | EvSweep | EvEnv

inductive server_step :: "mux_lib \<Rightarrow> ('i, 'g) app \<Rightarrow> server_event \<Rightarrow> server \<Rightarrow> server \<Rightarrow> bool"
  for L a where
  request: "\<not> wipes a rq sv \<Longrightarrow> serve L a rq sv = (rs, sv') \<Longrightarrow> server_step L a (EvRequest rq) sv sv'"
| duress: "wipes a rq sv \<Longrightarrow> serve L a rq sv = (rs, sv') \<Longrightarrow> server_step L a (EvDuress rq) sv sv'"
| sweep: "GC sv = (ne, sv') \<Longrightarrow> server_step L a EvSweep sv sv'"
| env: "os_now sv \<le> t \<Longrightarrow>
    server_step L a EvEnv sv (sv\<lparr>os_now := t, os_rng := rng, os_fault := f, db_fault := g\<rparr>)"

inductive_cases server_requestE [elim!]: "server_step L a (EvRequest rq) sv sv'"
inductive_cases server_duressE [elim!]: "server_step L a (EvDuress rq) sv sv'"
inductive_cases server_sweepE [elim!]: "server_step L a EvSweep sv sv'"
inductive_cases server_envE [elim!]: "server_step L a EvEnv sv sv'"

abbreviation server_run :: "mux_lib \<Rightarrow> ('i, 'g) app \<Rightarrow> server \<Rightarrow> server_event list \<Rightarrow> server \<Rightarrow> bool" where
  "server_run L a \<equiv> runs (server_step L a)"

section \<open>Laws\<close>

lemma new_server_fields [simp]:
  "os_now (new_server w k) = os_now w" "os_root (new_server w k) = os_root w"
  "os_fault (new_server w k) = os_fault w" "db_rows (new_server w k) = db_rows w"
  "db_fault (new_server w k) = db_fault w" "data_dir (new_server w k) = data_dir w"
  "sv_sessions (new_server w k) = NewSessionStore k"
  by (simp_all add: new_server_def world.defs server.defs)

lemma new_server_paths [simp]: "blobPath (new_server w k) = blobPath w" "store_inv (new_server w k) = store_inv w"
  by (simp_all add: fun_eq_iff blobPath_def caseDir_def store_inv_def plain_dir_def)

text \<open>The start of the onion service touches only the files below its directory.\<close>

lemma persist_upto:
  fixes w :: "'a world_scheme"
  assumes "addressesPath d = p @ q"
  shows "files_upto p w (snd (persistOnionAddrs d cfg w)) \<and> db_rows (snd (persistOnionAddrs d cfg w)) = db_rows w"
  unfolding persistOnionAddrs_def Let_def assms by (rule write_upto [OF surjective_pairing, where w = w])

lemma register_upto:
  fixes w :: "'a world_scheme"
  assumes "register_onion (p @ q) addr priv t w = (r, t', w')"
  shows "files_upto p w w' \<and> db_rows w' = db_rows w"
  using assms write_upto [of p q _ w]
  by (auto simp: register_onion_def split: if_splits prod.splits sum.splits option.splits)

lemma setupTor_upto:
  fixes w :: "'a world_scheme"
  assumes k: "ingressKeyPath d = p @ q" and a: "addressesPath d = p @ q'"
    and "setupTor dial cfg d addr w = (r, t, w')"
  shows "files_upto p w w' \<and> db_rows w' = db_rows w"
proof -
  let ?k = "ingressKeyPath d"
  let ?w1 = "snd (os_MkdirAll (butlast ?k) w)"
  have m: "files_upto p w ?w1 \<and> db_rows ?w1 = db_rows w"
    by (rule mkdir_upto [OF surjective_pairing])
  have reg: "files_upto p w w2 \<and> db_rows w2 = db_rows w"
    if "register_onion ?k addr pr t1 ?w1 = (r2, t2, w2)" for pr t1 r2 t2 w2
    using register_upto [of p q, folded k, OF that] m by (auto intro: upto_trans)
  have per: "files_upto p w (snd (persistOnionAddrs d c w2)) \<and> db_rows (snd (persistOnionAddrs d c w2)) = db_rows w"
    if "register_onion ?k addr pr t1 ?w1 = (r2, t2, w2)" for pr t1 r2 t2 c w2
    using reg [OF that] persist_upto [OF a, of w2 c] by (auto intro: upto_trans)
  show ?thesis
    using assms(3) reg per by (auto simp: setupTor_def Let_def split: prod.splits option.splits sum.splits)
qed

lemma start_tor_upto:
  fixes w :: "'a world_scheme"
  assumes "start_tor dial cfg d addr noTor w = (cfg1, tor, w')"
  shows "files_upto [] w w' \<and> db_rows w' = db_rows w"
    and "list_all plain_comp d \<Longrightarrow> files_upto (d @ [''tor'']) w w'"
proof -
  obtain r t where "w' = w \<or> setupTor dial cfg d addr w = (r, t, w')"
    using assms by (auto simp: start_tor_def split: if_splits prod.splits sum.splits)
  with setupTor_upto [where p = "[]" and d = d and w = w, unfolded append_Nil, OF refl refl]
    setupTor_upto [where p = "d @ [''tor'']" and d = d and w = w] tor_paths [of d]
  show "files_upto [] w w' \<and> db_rows w' = db_rows w"
    and "list_all plain_comp d \<Longrightarrow> files_upto (d @ [''tor'']) w w'" by auto
qed

text \<open>\<open>kept\<close> is \<open>keeps\<close> between the state on disk at the start and that of the server.\<close>

definition kept :: "string \<Rightarrow> 'a world_scheme \<Rightarrow> 'b world_scheme \<Rightarrow> bool" where
  "kept i w sv \<longleftrightarrow> (\<forall>r. map_of (db_rows w) i = Some r \<longrightarrow>
     (\<exists>r'. map_of (db_rows sv) i = Some r' \<and> row_core r' = row_core r)
     \<and> rd (os_root sv) (blobPath w i) = rd (os_root w) (blobPath w i))"

lemma upto_keeps:
  assumes "store_inv w" and "files_upto (data_dir w @ [x]) w w'" and "db_rows w' = db_rows w" and "x \<noteq> ''blob''"
  shows "store_inv w' \<and> keeps i w w' \<and> data_dir w' = data_dir w \<and> os_now w' = os_now w"
proof -
  have "\<not> prefix (data_dir w @ [x]) (blobPath w i)" if "plain_comp i"
    using that assms(1,4) by (auto simp: blobPath_plain caseDir_plain store_inv_def)
  then have "keeps i w w'"
    using upto_rd [OF assms(2)] store_inv_id [OF assms(1)] assms(3) by (auto simp: keeps_def)
  then show ?thesis using inv_upto [OF assms(1,2)] upto_dir [OF assms(2)] assms(3) by simp
qed

lemma OpenStore_keeps:
  assumes "OpenStore d w = (None, w1)" and "data_dir w = d" and "store_inv w"
  shows "store_inv w1 \<and> keeps i w w1 \<and> data_dir w1 = d \<and> os_now w1 = os_now w \<and> db_rows w1 = db_rows w"
proof -
  obtain wa wb where a: "os_MkdirAll (join_comps d [''blob'']) w = (None, wa)"
    and b: "db_exec DbSchema id wa = (None, wb)" and w1: "w1 = wb\<lparr>data_dir := d\<rparr>"
    using assms(1) by (auto simp: OpenStore_def split: prod.splits option.splits)
  have "files_upto (data_dir w @ [''x'']) w wb" "db_rows wb = db_rows w"
    using mkdir_upto [OF a] exec_upto [OF b] by (auto intro: upto_trans)
  from upto_keeps [OF assms(3) this, of i] this(2) show ?thesis
    unfolding w1 using assms(2) by (auto simp: store_inv_def plain_dir_def keeps_def)
qed

section \<open>When the server starts\<close>

definition startable :: "('i, 'g) run_env \<Rightarrow> path \<Rightarrow> string \<Rightarrow> world \<Rightarrow> config \<Rightarrow> secrets \<Rightarrow> bool" where
  "startable E d inp w cfg sx \<longleftrightarrow> LoadConfig (re_Yaml E) d w = Inr cfg
     \<and> (\<exists>pw. fst (readPassphrase inp) = Inr pw \<and> LoadSecrets (re_Prims E) d pw w = Inr sx)
     \<and> fst (OpenStore d w) = None"

lemma RunE:
  assumes "Run E d addr noTor inp w = Inr rn"
  obtains cfg sx w1 where "startable E d inp w cfg sx" "OpenStore d w = (None, w1)"
    "app_Secrets (rn_App rn) = sx" "app_Prims (rn_App rn) = re_Prims E"
    "start_tor (re_Dial E) cfg d addr noTor (new_server (snd (GC w1)) (sx_CSRFKey sx))
       = (app_Config (rn_App rn), rn_Tor rn, rn_State rn)"
  using assms by (auto simp: Run_def startable_def split: sum.splits prod.splits option.splits)

lemma OpenStore_files:
  "OpenStore d w = (r, w1) \<Longrightarrow> rd (os_root w1) q = rd (os_root w) q \<and> db_rows w1 = db_rows w"
proof -
  assume o: "OpenStore d w = (r, w1)"
  obtain e wa where a: "os_MkdirAll (join_comps d [''blob'']) w = (e, wa)" by fastforce
  obtain e2 wb where b: "db_exec DbSchema id wa = (e2, wb)" by fastforce
  have "files_upto (q @ [[]]) w wa \<and> db_rows wa = db_rows w" by (rule mkdir_upto [OF a])
  moreover have "files_upto (q @ [[]]) wa wb \<and> db_rows wb = db_rows wa"
    using exec_upto [OF b] by simp
  moreover have "\<not> prefix (q @ [[]]) q" using prefix_length_le [of "q @ [[]]" q] by auto
  ultimately have "rd (os_root wb) q = rd (os_root w) q" "rd (os_root wa) q = rd (os_root w) q"
    "db_rows wb = db_rows w" "db_rows wa = db_rows w"
    using upto_rd by metis+
  then show ?thesis using o a b by (auto simp: OpenStore_def split: option.splits)
qed

lemma start_tor_config:
  "start_tor dial cfg d addr noTor w = (cfg1, tor, w') \<Longrightarrow> cfg1 = cfg \<or> (\<exists>a. cfg1 = set_ingress a cfg)"
  by (auto simp: start_tor_def setupTor_def Let_def split: if_splits prod.splits sum.splits option.splits)

lemma more_sessions: "world.more sv' = world.more (sv :: server) \<Longrightarrow> sv_sessions sv' = sv_sessions sv"
  by (cases sv; cases sv') simp

text \<open>C24: the server starts exactly when the configuration loads, the line given as passphrase opens
  the secrets, and the store opens; nothing about Tor can stop it.  It then runs with that
  configuration, up to the onion address, with those secrets, and with no session of a
  previous run.  When it does not start, no file and no row has changed.\<close>

theorem Run_starts_iff:
  "case Run E d addr noTor inp w of
     Inr rn \<Rightarrow> (\<exists>cfg a. startable E d inp w cfg (app_Secrets (rn_App rn))
         \<and> app_Config (rn_App rn) \<in> {cfg, set_ingress a cfg})
       \<and> sv_sessions (rn_State rn) = NewSessionStore (sx_CSRFKey (app_Secrets (rn_App rn)))
   | Inl (e, w') \<Rightarrow> (\<nexists>cfg sx. startable E d inp w cfg sx)
       \<and> (\<forall>q. rd (os_root w') q = rd (os_root w) q) \<and> db_rows w' = db_rows w"
proof (cases "Run E d addr noTor inp w")
  case (Inr rn)
  then obtain cfg w1 where s: "startable E d inp w cfg (app_Secrets (rn_App rn))"
    and t: "start_tor (re_Dial E) cfg d addr noTor (new_server (snd (GC w1)) (sx_CSRFKey (app_Secrets (rn_App rn))))
       = (app_Config (rn_App rn), rn_Tor rn, rn_State rn)" by (metis RunE)
  from start_tor_upto(1) [OF t] have
    "world.more (rn_State rn) = world.more (new_server (snd (GC w1)) (sx_CSRFKey (app_Secrets (rn_App rn))))"
    by (simp add: files_upto_def)
  from more_sessions [OF this] s start_tor_config [OF t] Inr show ?thesis by auto
next
  case (Inl ew)
  obtain e w' where ew: "ew = (e, w')" by fastforce
  have "(\<nexists>cfg sx. startable E d inp w cfg sx)"
    using Inl by (auto simp: Run_def startable_def split: sum.splits prod.splits option.splits)
  moreover have "rd (os_root w') q = rd (os_root w) q \<and> db_rows w' = db_rows w" for q
    using Inl ew OpenStore_files [of d w] by (auto simp: Run_def split: sum.splits prod.splits option.splits)
  ultimately show ?thesis using Inl ew by simp
qed

section \<open>Cases outlive restarts\<close>

lemma Run_keeps:
  assumes "Run E (data_dir w) addr noTor inp w = Inr rn" and "store_inv w"
  shows "store_inv (rn_State rn) \<and> data_dir (rn_State rn) = data_dir w \<and> os_now (rn_State rn) = os_now w
    \<and> (\<forall>r. map_of (db_rows w) i = Some r \<longrightarrow> unix_seconds (os_now w) \<le> row_expires r \<longrightarrow> kept i w (rn_State rn))"
proof -
  obtain cfg sx w1 where "startable E (data_dir w) inp w cfg sx" and o: "OpenStore (data_dir w) w = (None, w1)"
    and "app_Secrets (rn_App rn) = sx" "app_Prims (rn_App rn) = re_Prims E"
    and t: "start_tor (re_Dial E) cfg (data_dir w) addr noTor (new_server (snd (GC w1)) (sx_CSRFKey sx))
       = (app_Config (rn_App rn), rn_Tor rn, rn_State rn)"
    by (rule RunE [OF assms(1)])
  let ?w2 = "snd (GC w1)" and ?n = "new_server (snd (GC w1)) (sx_CSRFKey sx)"
  note k1 = OpenStore_keeps [OF o refl assms(2)]
  note k2 = gc_keeps [where w = w1 and w' = ?w2, OF _ surjective_pairing, of i]
  have inv: "store_inv ?n" "data_dir ?n = data_dir w" "os_now ?n = os_now w" using k1 k2 by simp_all
  have pl: "list_all plain_comp (data_dir w)" using assms(2) by (simp add: store_inv_def plain_dir_def)
  have u: "files_upto (data_dir ?n @ [''tor'']) ?n (rn_State rn)" "db_rows (rn_State rn) = db_rows ?n"
    using start_tor_upto [OF t] pl inv(2) by simp_all
  note k3 = upto_keeps [OF inv(1) u, of i]
  have "kept i w (rn_State rn)"
    if r: "map_of (db_rows w) i = Some r" "unix_seconds (os_now w) \<le> row_expires r" for r
  proof -
    have "keeps i w1 ?w2" using k1 k2 r by simp
    then have "keeps i w ?w2" using k1 keeps_trans by metis
    then have "kept i w ?n" by (simp add: kept_def keeps_def)
    moreover have "keeps i ?n (rn_State rn)" using k3 by simp
    moreover have "blobPath ?n = blobPath w"
      using inv(2) by (simp add: fun_eq_iff blobPath_def caseDir_def)
    ultimately show ?thesis unfolding kept_def keeps_def by metis
  qed
  then show ?thesis using k3 inv by simp
qed

definition spares :: "server_event \<Rightarrow> bool" where
  "spares ev = (case ev of EvDuress _ \<Rightarrow> False | _ \<Rightarrow> True)"

lemma server_step_keeps:
  assumes "server_step L a ev sv sv'" and "spares ev" and "store_inv sv"
  shows "store_inv sv' \<and> data_dir sv' = data_dir sv \<and> os_now sv \<le> os_now sv'
    \<and> (\<forall>r. map_of (db_rows sv) i = Some r \<longrightarrow> unix_seconds (os_now sv') \<le> row_expires r \<longrightarrow> keeps i sv sv')"
  using assms
proof (induction rule: server_step.induct)
  case (request rq sv rs sv')
  then have "safe i sv sv'" by (intro serve_safe) (simp_all add: wipes_def)
  with request show ?case by (simp add: safe_def)
next
  case (sweep sv ne sv')
  with gc_keeps [of sv ne sv' i] show ?case by simp
next
  case (env sv t rng f g)
  then show ?case by (simp add: store_inv_def plain_dir_def keeps_def)
qed (simp add: spares_def)

interpretation server_m: case_machine "server_step L a" spares for L :: mux_lib and a :: "('i, 'g) app"
  by unfold_locales (blast dest: server_step_keeps)+

text \<open>C1: no case is lost: every case that is in the table when the server is started is there, with
  its code verifiers, its dates and its encrypted blob, after the start-up sweep, the set-up of
  the onion service and any sequence of requests by visitors, administrators and strangers, of
  sweeps, of moments at which disk or database refuse to work, and of time passing, until it
  expires; only a duress login can take it away.\<close>

theorem case_outlives_restart:
  assumes "Run E (data_dir w) addr noTor inp w = Inr rn" and "store_inv w"
    and "server_run L (rn_App rn) (rn_State rn) evs sv" and "list_all spares evs"
    and "map_of (db_rows w) i = Some r" and "unix_seconds (os_now sv) \<le> row_expires r"
  shows "\<exists>r'. map_of (db_rows sv) i = Some r'
      \<and> r' = r\<lparr>row_read := row_read r', row_reply := row_reply r'\<rparr>
      \<and> rd (os_root sv) (blobPath sv i) = rd (os_root w) (blobPath w i)"
proof -
  note st = Run_keeps [OF assms(1,2), of i]
  then have inv: "store_inv (rn_State rn)" by simp
  note rn = server_m.run_law [OF assms(3,4) inv]
  have le: "os_now w \<le> os_now sv" using st rn by simp
  have "kept i w (rn_State rn)" using st assms(5,6) unix_seconds_mono [OF le] by auto
  then obtain r1 where r1: "map_of (db_rows (rn_State rn)) i = Some r1" "row_core r1 = row_core r"
    "rd (os_root (rn_State rn)) (blobPath w i) = rd (os_root w) (blobPath w i)"
    using assms(5) by (auto simp: kept_def)
  have "keeps i (rn_State rn) sv"
    by (rule server_m.run_case [OF assms(3,4) inv r1(1)]) (simp add: core_expires [OF r1(2)] assms(6))
  then obtain r' where r': "map_of (db_rows sv) i = Some r'" "row_core r' = row_core r1"
    "rd (os_root sv) (blobPath (rn_State rn) i) = rd (os_root (rn_State rn)) (blobPath (rn_State rn) i)"
    using r1(1) by (auto simp: keeps_def)
  have "blobPath (rn_State rn) = blobPath w" "blobPath sv = blobPath w"
    using st rn by (simp_all add: fun_eq_iff blobPath_def caseDir_def)
  moreover have "r' = r\<lparr>row_read := row_read r', row_reply := row_reply r'\<rparr>"
    by (rule core_flags) (simp add: r'(2) r1(2))
  ultimately show ?thesis using r' r1(3) by auto
qed

end
