(* ===== verification/Server_Life.thy ===== *)
theory Server_Life
  imports Server
begin

text \<open>
  The rest of \<open>Run\<close> of \<open>internal/kakekomi/server.go\<close> around the start that theory \<open>Server\<close>
  models: the hardening of the process (\<open>process_linux.go\<close>, \<open>process_other.go\<close>), the settings of
  the HTTP server, and the wait for a listening error or a signal, with what the deferred calls
  do on the way out.

  The process is the state that the hardening changes.  \<open>kern\<close> says which \<open>prctl\<close> call the
  kernel refuses.  What \<open>ListenAndServe\<close> and \<open>Shutdown\<close> return comes from outside, as events.
\<close>

section \<open>Process hardening\<close>

record process =
  pr_Dumpable :: bool
  pr_NoNewPrivs :: bool
  pr_Transport :: bool
  pr_Log :: "string list"

datatype prctl_op = PR_SET_DUMPABLE nat | PR_SET_NO_NEW_PRIVS nat

definition unix_Prctl :: "(prctl_op \<Rightarrow> error option) \<Rightarrow> prctl_op \<Rightarrow> process \<Rightarrow> error option \<times> process" where
  "unix_Prctl kern opn p =
     (case kern opn of
        Some e \<Rightarrow> (Some e, p)
      | None \<Rightarrow> (None, case opn of
          PR_SET_DUMPABLE v \<Rightarrow> p\<lparr>pr_Dumpable := (v \<noteq> 0)\<rparr>
        | PR_SET_NO_NEW_PRIVS v \<Rightarrow> p\<lparr>pr_NoNewPrivs := (v \<noteq> 0)\<rparr>))"

definition log_Printf :: "string \<Rightarrow> process \<Rightarrow> process" where
  "log_Printf m p = p\<lparr>pr_Log := pr_Log p @ [m]\<rparr>"

definition log_failure :: "string \<Rightarrow> error option \<times> process \<Rightarrow> process" where
  "log_failure m ep = (case ep of (None, p) \<Rightarrow> p | (Some e, p) \<Rightarrow> log_Printf (m @ '': '' @ err_Error e) p)"

definition hardenProcess_linux :: "(prctl_op \<Rightarrow> error option) \<Rightarrow> process \<Rightarrow> process" where
  "hardenProcess_linux kern p =
     (let p1 = log_failure ''prctl(PR_SET_DUMPABLE,0)'' (unix_Prctl kern (PR_SET_DUMPABLE 0) p)
      in log_failure ''prctl(PR_SET_NO_NEW_PRIVS,1)'' (unix_Prctl kern (PR_SET_NO_NEW_PRIVS 1) p1))"

definition hardenProcess_other :: "process \<Rightarrow> process" where
  "hardenProcess_other p = p"

definition hardenProcess :: "string \<Rightarrow> (prctl_op \<Rightarrow> error option) \<Rightarrow> process \<Rightarrow> process" where
  "hardenProcess goos kern p = (if goos = ''linux'' then hardenProcess_linux kern p else hardenProcess_other p)"

text \<open>\<open>Run\<close> goes on to take away the default HTTP client of the process.\<close>

definition prepare_process :: "string \<Rightarrow> (prctl_op \<Rightarrow> error option) \<Rightarrow> process \<Rightarrow> process" where
  "prepare_process goos kern p = (hardenProcess goos kern p)\<lparr>pr_Transport := False\<rparr>"

lemma log_Printf_fields [simp]:
  "pr_Dumpable (log_Printf m p) = pr_Dumpable p" "pr_NoNewPrivs (log_Printf m p) = pr_NoNewPrivs p"
  "pr_Transport (log_Printf m p) = pr_Transport p" "pr_Log (log_Printf m p) = pr_Log p @ [m]"
  by (simp_all add: log_Printf_def)

text \<open>On Linux each protection is in force unless the kernel refused its call, and every refusal is
  in the log; elsewhere nothing is done.\<close>

lemma hardened:
  "pr_Dumpable (hardenProcess ''linux'' kern p) = (kern (PR_SET_DUMPABLE 0) \<noteq> None \<and> pr_Dumpable p)"
  "pr_NoNewPrivs (hardenProcess ''linux'' kern p) = (kern (PR_SET_NO_NEW_PRIVS 1) = None \<or> pr_NoNewPrivs p)"
  "length (pr_Log (hardenProcess ''linux'' kern p)) =
     length (pr_Log p) + (if kern (PR_SET_DUMPABLE 0) = None then 0 else 1)
       + (if kern (PR_SET_NO_NEW_PRIVS 1) = None then 0 else 1)"
  by (auto simp: hardenProcess_def hardenProcess_linux_def log_failure_def unix_Prctl_def Let_def
      split: option.splits)

section \<open>The HTTP server\<close>

record http_server =
  srv_Addr :: string
  srv_ReadHeaderTimeout :: int
  srv_ReadTimeout :: int
  srv_WriteTimeout :: int
  srv_IdleTimeout :: int
  srv_MaxHeaderBytes :: nat
  srv_TLSNextProto :: "string list"
  srv_KeepAlives :: bool

definition new_http_server :: "string \<Rightarrow> http_server" where
  "new_http_server addr =
     \<lparr>srv_Addr = addr, srv_ReadHeaderTimeout = 5 * second, srv_ReadTimeout = 60 * second,
      srv_WriteTimeout = 60 * second, srv_IdleTimeout = 1 * second, srv_MaxHeaderBytes = 8 * 1024,
      srv_TLSNextProto = [], srv_KeepAlives = True\<rparr>\<lparr>srv_KeepAlives := False\<rparr>"

section \<open>The end\<close>

text \<open>\<open>ListenReturned\<close> is the return of \<open>ListenAndServe\<close>; \<open>Interrupted\<close> is the arrival of a signal,
  with the result of the \<open>Shutdown\<close> that it starts.\<close>

datatype life_event = ListenReturned "error option" | Interrupted "error option"

definition ErrServerClosed :: error where
  "ErrServerClosed = Err ''http: Server closed''"

fun await_end :: "life_event list \<Rightarrow> error option option" where
  "await_end [] = None"
| "await_end (ListenReturned (Some e) # es) = (if e \<noteq> ErrServerClosed then Some (Some e) else await_end es)"
| "await_end (ListenReturned None # es) = await_end es"
| "await_end (Interrupted r # es) = Some r"

text \<open>When the wait is over the deferred calls run: the onion service is deleted and its control
  connection closed, the sweeper is cancelled, and the store is closed.\<close>

definition run_returns :: "('i, 'g) running \<Rightarrow> life_event list \<Rightarrow> (error option \<times> tor_conn option) option" where
  "run_returns rn es = map_option (\<lambda>e. (e, shut_down rn)) (await_end es)"

definition quiet :: "life_event \<Rightarrow> bool" where
  "quiet ev \<longleftrightarrow> ev = ListenReturned None \<or> ev = ListenReturned (Some ErrServerClosed)"

fun verdict :: "life_event \<Rightarrow> error option" where
  "verdict (ListenReturned r) = r"
| "verdict (Interrupted r) = r"

text \<open>The wait ends with the first event that is not the close of a server that was shut down.\<close>

lemma await_end_first:
  "await_end es = (case dropWhile quiet es of [] \<Rightarrow> None | ev # _ \<Rightarrow> Some (verdict ev))"
  by (induction es rule: await_end.induct) (auto simp: quiet_def)

end
