(* ===== verification/Viewer.thy ===== *)
theory Viewer
  imports Tarpack Fs_Laws
begin

text \<open>
  The air-gap decryption tool, \<open>cmd/viewer/main.go\<close>.

  \<open>archive/tar\<close> reads more formats than the one the server writes, so the reader of archives is a
  parameter: the entries it yields, each with its header, its bytes and the error its body ends
  with, if any, and the error that ends the archive.  \<open>ustar_reader\<close> is its instance for the
  archives of the server.  The print of \<open>meta.json\<close> on the terminal is not modelled; messages show a name as it is
  where the source quotes it.
\<close>

type_synonym tar_reader = "bytes \<Rightarrow> (tar_hdr \<times> bytes \<times> error option) list \<times> error option"

definition ustar_reader :: tar_reader where
  "ustar_reader b = (case tar_read_all b of (es, e) \<Rightarrow> (map (\<lambda>(h, d). (h, d, None)) es, e))"

definition viewer_unwrap :: "bytes \<Rightarrow> error + 16 word \<times> bytes" where
  "viewer_unwrap blob =
     (if length blob < 8 \<or> str_of (take 4 blob) \<noteq> ''KKK1'' then Inl (Err ''bad envelope'')
      else Inr (of_nat (be_val (take 2 (drop 4 blob))), drop 8 blob))"

section \<open>Names\<close>

definition to_slash :: "char \<Rightarrow> char" where
  "to_slash c = (if c = CHR 0x5C then slash else c)"

definition safeTarName :: "string \<Rightarrow> bool" where
  "safeTarName name =
     (if name = [] then False
      else if list_ex (\<lambda>c. c = CHR 0x00 \<or> c = CHR 0x0D \<or> c = CHR 0x0A) name then False
      else if 2 \<le> length name \<and> name ! 1 = CHR '':'' then False
      else if HasPrefix name [CHR 0x5C, CHR 0x5C] \<or> HasPrefix name ''//'' then False
      else if HasPrefix name ''/'' then False
      else list_all (\<lambda>p. p \<noteq> ''..'') (split_on slash (map to_slash name)))"

definition path_str :: "path \<Rightarrow> string" where
  "path_str p = (if p = [] then [slash] else concat (map (\<lambda>c. slash # c) p))"

definition tar_target :: "path \<Rightarrow> string \<Rightarrow> path" where
  "tar_target dir name = join_comps dir [Clean name]"

section \<open>Extraction\<close>

definition write_entry :: "path \<Rightarrow> bytes \<Rightarrow> error option \<Rightarrow> 'a os_scheme \<Rightarrow> error option \<times> 'a os_scheme" where
  "write_entry target data bad w =
     (case os_MkdirAll (butlast target) w of
        (Some e, w1) \<Rightarrow> (Some e, w1)
      | (None, w1) \<Rightarrow>
          (case os_WriteFile target data w1 of
             (Some e, w2) \<Rightarrow> (Some e, w2)
           | (None, w2) \<Rightarrow> (bad, w2)))"

definition extract_entry :: "path \<Rightarrow> tar_hdr \<times> bytes \<times> error option \<Rightarrow> 'a os_scheme
    \<Rightarrow> error option \<times> 'a os_scheme" where
  "extract_entry dir ent w =
     (case ent of (h, data, bad) \<Rightarrow>
      let name = th_name h in
      if \<not> safeTarName name then (Some (Wrap ''refusing unsafe path'' (Err name)), w)
      else let target = tar_target dir name in
      if \<not> HasPrefix (path_str target @ [slash]) (path_str dir @ [slash]) \<and> target \<noteq> dir
      then (Some (Wrap ''path escapes output dir'' (Err name)), w)
      else if th_type h = 53 then os_MkdirAll target w
      else if th_type h = 48 \<or> th_type h = 0 then write_entry target data bad w
      else if th_type h = 50 \<or> th_type h = 49
      then (Some (Wrap ''refusing symlink/hardlink in archive'' (Err name)), w)
      else (Some (Wrap ''refusing unknown tar entry type'' (Err name)), w))"

fun extract_entries :: "path \<Rightarrow> (tar_hdr \<times> bytes \<times> error option) list \<Rightarrow> error option \<Rightarrow> 'a os_scheme
    \<Rightarrow> error option \<times> 'a os_scheme" where
  "extract_entries dir [] bad w = (bad, w)"
| "extract_entries dir (e # es) bad w =
     (case extract_entry dir e w of
        (Some err, w1) \<Rightarrow> (Some err, w1)
      | (None, w1) \<Rightarrow> extract_entries dir es bad w1)"

definition extractTar :: "tar_reader \<Rightarrow> bytes \<Rightarrow> path \<Rightarrow> 'a os_scheme \<Rightarrow> error option \<times> 'a os_scheme" where
  "extractTar rdr data dir w = (case rdr data of (es, bad) \<Rightarrow> extract_entries dir es bad w)"

definition decrypt :: "prims \<Rightarrow> tar_reader \<Rightarrow> string \<Rightarrow> string \<Rightarrow> string \<Rightarrow> 'a os_scheme
    \<Rightarrow> error option \<times> 'a os_scheme" where
  "decrypt P rdr idFile inPath outDir w =
     (if idFile = [] \<or> inPath = [] \<or> outDir = []
      then (Some (Err ''--identity, --in, --out required''), w)
      else case os_ReadFile (os_path idFile) w of
        Inl e \<Rightarrow> (Some (Wrap ''read identity'' e), w)
      | Inr idBytes \<Rightarrow>
     (let sec = TrimSpace (str_of idBytes) in
      if \<not> age_ParseIdentity P sec then (Some (Wrap ''parse identity'' (Err ''malformed secret key'')), w)
      else case os_ReadFile (os_path inPath) w of
        Inl e \<Rightarrow> (Some e, w)
      | Inr blob \<Rightarrow>
     (case viewer_unwrap blob of
        Inl e \<Rightarrow> (Some e, w)
      | Inr (version, payload) \<Rightarrow>
     (if version \<noteq> 1
      then (Some (Err (''unsupported envelope version '' @ dec_nat (unat version))), w)
      else case age_Decrypt P sec payload of
        Inl e \<Rightarrow> (Some (Wrap ''age decrypt'' e), w)
      | Inr tarBytes \<Rightarrow>
     (case os_MkdirAll (os_path outDir) w of
        (Some e, w1) \<Rightarrow> (Some e, w1)
      | (None, w1) \<Rightarrow> extractTar rdr tarBytes (os_path outDir) w1)))))"

section \<open>Confinement\<close>

lemma viewer_unwrap_agrees: "viewer_unwrap blob = Inr x \<longleftrightarrow> unwrapEnvelope blob = Inr x"
  by (auto simp: viewer_unwrap_def unwrapEnvelope_def envelopeMagic_def)

lemma split_on_map:
  assumes "\<And>c. f c = d \<or> f c = c" and "f d = d"
  shows "split_on d (map f s) = concat (map (\<lambda>x. split_on d (map f x)) (split_on d s))"
proof (induction s)
  case Nil
  then show ?case by simp
next
  case (Cons c s)
  obtain x xs where s: "split_on d s = x # xs" using split_on_nonempty by (cases "split_on d s") auto
  obtain y ys where y: "split_on d (map f x) = y # ys" using split_on_nonempty by (cases "split_on d (map f x)") auto
  show ?case
  proof (cases "c = d")
    case True
    then show ?thesis using Cons assms(2) by simp
  next
    case False
    with Cons s y assms(1) [of c] show ?thesis by auto
  qed
qed

lemma safe_no_dotdot: "safeTarName name \<Longrightarrow> ''..'' \<notin> set (split_on slash name)"
proof
  assume safe: "safeTarName name" and dd: "''..'' \<in> set (split_on slash name)"
  have m: "split_on slash (map to_slash ''..'') = [''..'']"
    by (simp add: to_slash_def slash_def)
  have "\<exists>x \<in> set (split_on slash name). ''..'' \<in> set (split_on slash (map to_slash x))"
    by (rule bexI [OF _ dd]) (simp only: m list.set, blast)
  then have "''..'' \<in> set (split_on slash (map to_slash name))"
    by (subst split_on_map) (auto simp: to_slash_def)
  with safe show False by (auto simp: safeTarName_def list_all_iff split: if_splits)
qed

definition name_comps :: "string \<Rightarrow> string list" where
  "name_comps name = filter (\<lambda>c. c \<noteq> [] \<and> c \<noteq> ''.'') (split_on slash name)"

lemma name_comps_plain: "safeTarName name \<Longrightarrow> list_all plain_comp (name_comps name)"
  using safe_no_dotdot split_on_no_sep
  by (fastforce simp: name_comps_def plain_comp_def list_all_iff)

lemma target_eq:
  assumes "list_all plain_comp dir" and "safeTarName name"
  shows "tar_target dir name = dir @ name_comps name"
proof -
  have ne: "name \<noteq> []" and rel: "hd name \<noteq> slash"
    using assms(2) by (auto simp: safeTarName_def slash_def neq_Nil_conv split: if_splits)
  let ?cs = "name_comps name"
  have cl: "clean_comps False (split_on slash name) = ?cs"
    by (simp add: name_comps_def clean_comps_no_dotdot [OF safe_no_dotdot [OF assms(2)]])
  have plain: "list_all plain_comp (dir @ ?cs)" using assms(1) name_comps_plain [OF assms(2)] by simp
  show ?thesis
  proof (cases "?cs = []")
    case True
    then have "Clean name = ''.''" using ne rel cl by (simp add: Clean_def Let_def)
    moreover have "clean_comps True (dir @ [''.'']) = dir"
      using assms(1) by (subst clean_comps_no_dotdot) (auto simp: list_all_iff plain_comp_def filter_id_conv)
    ultimately show ?thesis using True by (simp add: tar_target_def join_comps_def slash_def)
  next
    case False
    then have "Clean name = str_Join ?cs [slash]" using ne rel cl by (simp add: Clean_def Let_def)
    moreover have "split_on slash (str_Join ?cs [slash]) = ?cs"
      using False name_comps_plain [OF assms(2)]
      by (intro split_on_Join) (auto simp: list_all_iff plain_comp_def)
    moreover have "clean_comps True (dir @ ?cs) = dir @ ?cs"
      using plain by (intro clean_comps_plain) (auto simp: list_all_iff)
    ultimately show ?thesis by (simp add: tar_target_def join_comps_def)
  qed
qed

lemma write_entry_rd:
  "write_entry t data bad w = (r, w') \<Longrightarrow> q \<noteq> t \<Longrightarrow> rd (os_root w') q = rd (os_root w) q"
  by (auto simp: write_entry_def split: prod.splits option.splits
      dest!: MkdirAll_rd [where q = q] writes_WriteFile writes_rd [where q = q])

lemma extract_entry_rd:
  assumes "list_all plain_comp dir" and "extract_entry dir e w = (r, w')" and "\<not> prefix dir q"
  shows "rd (os_root w') q = rd (os_root w) q"
proof -
  obtain h data bad where e: "e = (h, data, bad)" by (cases e) auto
  have "q \<noteq> tar_target dir (th_name h)" if "safeTarName (th_name h)"
    using assms(3) target_eq [OF assms(1) that] by auto
  with assms(2) e show ?thesis
    by (auto simp: extract_entry_def Let_def split: if_splits dest: MkdirAll_rd write_entry_rd)
qed

lemma extract_entries_rd:
  assumes "list_all plain_comp dir" and "\<not> prefix dir q"
  shows "extract_entries dir es bad w = (r, w') \<Longrightarrow> rd (os_root w') q = rd (os_root w) q"
proof (induction es arbitrary: w)
  case (Cons e es)
  then show ?case
    by (auto split: prod.splits option.splits dest: extract_entry_rd [OF assms(1) _ assms(2)])
qed simp

text \<open>C14: whatever archive the viewer is given, with absolute names, dots, back slashes, links, broken
  bodies or a broken end, and however the extraction ends, no file outside the output directory
  is created, changed or emptied.\<close>

theorem extract_confined:
  assumes "list_all plain_comp dir" and "extractTar rdr data dir w = (r, w')" and "\<not> prefix dir q"
  shows "rd (os_root w') q = rd (os_root w) q"
  using assms extract_entries_rd [OF assms(1,3)] by (auto simp: extractTar_def split: prod.splits)

end
