(* ===== verification/Cli.thy ===== *)
theory Cli
  imports Flags Server_Life Init_Cmd Viewer
begin

text \<open>
  The two programs: \<open>main\<close> of \<open>cmd/kakekomi/main.go\<close> and of \<open>cmd/viewer/main.go\<close>, with the flags
  that each command defines.

  A program ends with an exit status and what it has shown, or it serves.  \<open>Line\<close> is a line of
  plain text; the fixed texts are \<open>Usage\<close>, and \<open>FlagUsage\<close> for the one package \<open>flag\<close> prints; the
  rest is what a command discloses.  Standard input is a string.
\<close>

section \<open>Results\<close>

datatype shown =
    Line string
  | Usage
  | FlagUsage
  | InitDisclosed init_output
  | Removed nat
  | KeyDisclosed string string
  | ConfigOK config

type_synonym exit = "nat \<times> shown list"

record ('i, 'g) serving =
  sg_Running :: "('i, 'g) running"
  sg_Http :: http_server
  sg_Process :: process

record machine =
  mc_GOOS :: string
  mc_Prctl :: "prctl_op \<Rightarrow> error option"
  mc_Process :: process

section \<open>Flags\<close>

definition dataDirFlag :: "string \<times> flag_value" where
  "dataDirFlag = (''data-dir'', StrFlag ''./data'')"

definition init_flags :: flag_set where
  "init_flags = [dataDirFlag, (''enable-tor'', BoolFlag False)]"

definition run_flags :: flag_set where
  "run_flags = [dataDirFlag, (''addr'', StrFlag ''127.0.0.1:8080''), (''no-tor'', BoolFlag False)]"

definition gc_flags :: flag_set where "gc_flags = [dataDirFlag]"

definition rotate_flags :: flag_set where "rotate_flags = [dataDirFlag]"

definition validate_flags :: flag_set where "validate_flags = [dataDirFlag]"

definition decrypt_flags :: flag_set where
  "decrypt_flags = [(''identity'', StrFlag []), (''in'', StrFlag []), (''out'', StrFlag [])]"

definition data_path :: "flag_set \<Rightarrow> path" where
  "data_path fs = os_path (get_string fs ''data-dir'')"

text \<open>\<open>flag.ExitOnError\<close>; arguments left over after the flags are dropped, as no command asks for
  them.\<close>

definition parse_or_exit :: "flag_set \<Rightarrow> string list \<Rightarrow> exit + flag_set" where
  "parse_or_exit fs args =
     (case flag_Parse fs args of
        Inl ErrHelp \<Rightarrow> Inl (0, [FlagUsage])
      | Inl (FlagErr m) \<Rightarrow> Inl (2, [Line m, FlagUsage])
      | Inr (fs', rest) \<Rightarrow> Inr fs')"

section \<open>Commands\<close>

text \<open>The end of \<open>main\<close>: an error is shown after the name of the command, with status 1.\<close>

definition finish :: "string \<Rightarrow> error + shown list \<Rightarrow> exit" where
  "finish cmd r = (case r of Inl e \<Rightarrow> (1, [Line (cmd @ '': '' @ err_Error e)]) | Inr out \<Rightarrow> (0, out))"

definition cmd_init :: "('i, 'g) run_env \<Rightarrow> string list \<Rightarrow> string \<Rightarrow> world \<Rightarrow> exit \<times> world" where
  "cmd_init E args inp w =
     (case parse_or_exit init_flags args of
        Inl x \<Rightarrow> (x, w)
      | Inr fs \<Rightarrow>
          (case Init (re_Prims E) (re_Yaml E) (data_path fs) (get_bool fs ''enable-tor'') inp w of (r, w1) \<Rightarrow>
             (finish ''init'' (map_sum id (\<lambda>out. [InitDisclosed out]) r), w1)))"

definition cmd_run :: "('i, 'g) run_env \<Rightarrow> machine \<Rightarrow> string list \<Rightarrow> string \<Rightarrow> world
    \<Rightarrow> exit \<times> world + ('i, 'g) serving" where
  "cmd_run E M args inp w =
     (case parse_or_exit run_flags args of
        Inl x \<Rightarrow> Inl (x, w)
      | Inr fs \<Rightarrow>
          (case Run E (data_path fs) (get_string fs ''addr'') (get_bool fs ''no-tor'') inp w of
             Inl (e, w1) \<Rightarrow> Inl (finish ''run'' (Inl e), w1)
           | Inr rn \<Rightarrow> Inr \<lparr>sg_Running = rn, sg_Http = new_http_server (get_string fs ''addr''),
               sg_Process = prepare_process (mc_GOOS M) (mc_Prctl M) (mc_Process M)\<rparr>))"

definition cmd_gc :: "string list \<Rightarrow> world \<Rightarrow> exit \<times> world" where
  "cmd_gc args w =
     (case parse_or_exit gc_flags args of
        Inl x \<Rightarrow> (x, w)
      | Inr fs \<Rightarrow> (case Gc (data_path fs) w of (r, w1) \<Rightarrow>
          (finish ''gc'' (map_sum id (\<lambda>n. [Removed n]) r), w1)))"

definition cmd_rotate :: "('i, 'g) run_env \<Rightarrow> string list \<Rightarrow> world \<Rightarrow> exit \<times> world" where
  "cmd_rotate E args w =
     (case parse_or_exit rotate_flags args of
        Inl x \<Rightarrow> (x, w)
      | Inr fs \<Rightarrow> (case RotateKey (re_Prims E) (re_Yaml E) (data_path fs) w of (r, w1) \<Rightarrow>
          (finish ''rotate-key'' (map_sum id (\<lambda>(newPub, newSec). [KeyDisclosed newPub newSec]) r), w1)))"

definition cmd_config :: "('i, 'g) run_env \<Rightarrow> string list \<Rightarrow> world \<Rightarrow> exit \<times> world" where
  "cmd_config E args w =
     (if args \<noteq> [] \<and> hd args = ''validate''
      then (case parse_or_exit validate_flags (tl args) of
          Inl x \<Rightarrow> (x, w)
        | Inr fs \<Rightarrow> (finish ''config'' (map_sum id (\<lambda>cfg. [ConfigOK cfg]) (LoadConfig (re_Yaml E) (data_path fs) w)), w))
      else ((2, [Line ''usage: kakekomi config validate'']), w))"

definition version :: string where "version = ''0.2.0''"

definition main :: "('i, 'g) run_env \<Rightarrow> machine \<Rightarrow> string list \<Rightarrow> string \<Rightarrow> world
    \<Rightarrow> exit \<times> world + ('i, 'g) serving" where
  "main E M os_Args inp w =
     (if length os_Args < 2 then Inl ((2, [Usage]), w)
      else let cmd = os_Args ! 1; args = drop 2 os_Args in
        if cmd = ''init'' then Inl (cmd_init E args inp w)
        else if cmd = ''run'' then cmd_run E M args inp w
        else if cmd = ''gc'' then Inl (cmd_gc args w)
        else if cmd = ''rotate-key'' then Inl (cmd_rotate E args w)
        else if cmd = ''config'' then Inl (cmd_config E args w)
        else if cmd \<in> {''version'', ''-v'', ''--version''} then Inl ((0, [Line (''kakekomi '' @ version)]), w)
        else if cmd \<in> {''help'', ''-h'', ''--help''} then Inl ((0, [Usage]), w)
        else Inl ((2, [Line (''unknown command: '' @ cmd), Usage]), w))"

text \<open>How a serving process ends, given the state its last request left.\<close>

definition stop :: "('i, 'g) serving \<Rightarrow> server \<Rightarrow> life_event list \<Rightarrow> (exit \<times> world \<times> tor_conn option) option" where
  "stop sg sv es = map_option (\<lambda>(e, tor). (finish ''run'' (case e of None \<Rightarrow> Inr [] | Some x \<Rightarrow> Inl x),
      world.truncate sv, tor)) (run_returns (sg_Running sg) es)"

section \<open>The viewer\<close>

definition cmd_decrypt :: "prims \<Rightarrow> tar_reader \<Rightarrow> string list \<Rightarrow> 'a os_scheme \<Rightarrow> exit \<times> 'a os_scheme" where
  "cmd_decrypt P rdr args w =
     (case parse_or_exit decrypt_flags args of
        Inl x \<Rightarrow> (x, w)
      | Inr fs \<Rightarrow>
          (case decrypt P rdr (get_string fs ''identity'') (get_string fs ''in'') (get_string fs ''out'') w of
             (Some e, w1) \<Rightarrow> (finish ''decrypt'' (Inl e), w1)
           | (None, w1) \<Rightarrow> (finish ''decrypt'' (Inr []), w1)))"

definition viewer_main :: "prims \<Rightarrow> tar_reader \<Rightarrow> string list \<Rightarrow> 'a os_scheme \<Rightarrow> exit \<times> 'a os_scheme" where
  "viewer_main P rdr os_Args w =
     (if length os_Args < 2 then ((2, [Usage]), w)
      else let cmd = os_Args ! 1; args = drop 2 os_Args in
        if cmd = ''decrypt'' then cmd_decrypt P rdr args w
        else if cmd \<in> {''version'', ''-v'', ''--version''} then ((0, [Line (''kakekomi-viewer '' @ version)]), w)
        else if cmd \<in> {''help'', ''-h'', ''--help''} then ((0, [Usage]), w)
        else ((2, [Line (''unknown command: '' @ cmd), Usage]), w))"

section \<open>What the command line can do\<close>

text \<open>The command lines that the usage text does not cover.\<close>

definition bad_flags :: "flag_set \<Rightarrow> string list \<Rightarrow> bool" where
  "bad_flags fs args \<longleftrightarrow> (\<exists>m. flag_Parse fs args = Inl (FlagErr m))"

fun usage_error :: "string list \<Rightarrow> bool" where
  "usage_error (prog # cmd # args) =
     (if cmd = ''init'' then bad_flags init_flags args
      else if cmd = ''run'' then bad_flags run_flags args
      else if cmd = ''gc'' then bad_flags gc_flags args
      else if cmd = ''rotate-key'' then bad_flags rotate_flags args
      else if cmd = ''config'' then \<not> (\<exists>rest. args = ''validate'' # rest \<and> \<not> bad_flags validate_flags rest)
      else cmd \<notin> {''version'', ''-v'', ''--version'', ''help'', ''-h'', ''--help''})"
| "usage_error _ = True"

lemma finish_status: "fst (finish cmd r) = (if is_ok r then 0 else 1)"
  by (cases r) (simp_all add: finish_def)

lemma parse_or_exit_status: "parse_or_exit fs args = Inl x \<Longrightarrow> fst x = (if bad_flags fs args then 2 else 0)"
  by (auto simp: parse_or_exit_def bad_flags_def split: sum.splits flag_error.splits)

lemma parse_or_exit_ok: "parse_or_exit fs args = Inr fs' \<Longrightarrow> \<not> bad_flags fs args"
  by (auto simp: parse_or_exit_def bad_flags_def split: sum.splits flag_error.splits)

lemma usage_flags: "\<forall>k \<in> set (map fst init_flags). flag_name k" "\<forall>k \<in> set (map fst run_flags). flag_name k"
  by (simp_all add: init_flags_def run_flags_def dataDirFlag_def flag_name_def dash_def)

lemma main_commands:
  "main E M (prog # ''init'' # args) inp w = Inl (cmd_init E args inp w)"
  "main E M (prog # ''run'' # args) inp w = cmd_run E M args inp w"
  by (simp_all add: main_def)

definition status_ok :: "exit \<times> 'w \<Rightarrow> 'w \<Rightarrow> bool \<Rightarrow> bool" where
  "status_ok x w bad \<longleftrightarrow> fst (fst x) \<le> 2 \<and> (fst (fst x) = 2) = bad \<and> (fst (fst x) \<noteq> 2 \<or> snd x = w)"

lemma status_parsed:
  assumes "\<And>fs'. fst (fst (k fs')) \<le> 1"
  shows "status_ok (case parse_or_exit fs args of Inl x \<Rightarrow> (x, w) | Inr fs' \<Rightarrow> k fs') w (bad_flags fs args)"
proof (cases "parse_or_exit fs args")
  case (Inl x)
  with parse_or_exit_status [OF Inl] show ?thesis by (simp add: status_ok_def)
next
  case (Inr fs')
  with parse_or_exit_ok [OF Inr] assms [of fs'] show ?thesis by (auto simp: status_ok_def)
qed

lemma status_finish: "fst (fst (case r of (x, w1) \<Rightarrow> (finish cmd (f x), w1))) \<le> 1"
  by (cases r) (simp add: finish_status)

lemma status_commands:
  "status_ok (cmd_init E args inp w) w (bad_flags init_flags args)"
  "status_ok (cmd_gc args w) w (bad_flags gc_flags args)"
  "status_ok (cmd_rotate E args w) w (bad_flags rotate_flags args)"
  "args = ''validate'' # rest \<Longrightarrow> status_ok (cmd_config E args w) w (bad_flags validate_flags rest)"
  unfolding cmd_init_def cmd_gc_def cmd_rotate_def cmd_config_def
  by (rule status_parsed status_finish)+ (simp, rule status_parsed, simp add: finish_status)

lemma status_run:
  "case cmd_run E M args inp w of Inl x \<Rightarrow> status_ok x w (bad_flags run_flags args) | Inr sg \<Rightarrow> \<not> bad_flags run_flags args"
proof (cases "parse_or_exit run_flags args")
  case (Inl x)
  with parse_or_exit_status [OF Inl] show ?thesis by (simp add: cmd_run_def status_ok_def)
next
  case (Inr fs)
  with parse_or_exit_ok [OF Inr] show ?thesis
    by (auto simp: cmd_run_def status_ok_def finish_def split: sum.splits)
qed

lemma status_config: "\<not> (args \<noteq> [] \<and> hd args = ''validate'') \<Longrightarrow> status_ok (cmd_config E args w) w True"
  by (auto simp: cmd_config_def status_ok_def)

text \<open>C25: the exit status of the program is 0, 1 or 2; it is 2 exactly for the command lines that are
  wrong, an unknown command or a bad flag, and then nothing in the world has changed; a wrong
  command line never serves.\<close>

theorem cli_usage_errors:
  "case main E M os_Args inp w of
     Inl ((n, out), w') \<Rightarrow> n \<le> 2 \<and> (n = 2) = usage_error os_Args \<and> (n \<noteq> 2 \<or> w' = w)
   | Inr sg \<Rightarrow> \<not> usage_error os_Args \<and> os_Args ! 1 = ''run''"
proof -
  have "case main E M os_Args inp w of Inl x \<Rightarrow> status_ok x w (usage_error os_Args)
     | Inr sg \<Rightarrow> \<not> usage_error os_Args \<and> os_Args ! 1 = ''run''"
  proof (cases os_Args rule: usage_error.cases)
    case (1 prog cmd args)
    consider "cmd = ''config''" "args \<noteq> [] \<and> hd args = ''validate''"
      | "cmd = ''config''" "\<not> (args \<noteq> [] \<and> hd args = ''validate'')"
      | "cmd = ''init''" | "cmd = ''run''" | "cmd = ''gc''" | "cmd = ''rotate-key''"
      | "cmd \<notin> {''init'', ''run'', ''gc'', ''rotate-key'', ''config''}" by blast
    then show ?thesis
    proof cases
      case 1
      then obtain rest where "args = ''validate'' # rest" by (cases args) auto
      with status_commands(4) [OF this, where E = E and w = w] \<open>os_Args = _\<close> 1 show ?thesis by (simp add: main_def)
    next
      case 2
      then have "\<nexists>rest. args = ''validate'' # rest \<and> \<not> bad_flags validate_flags rest" by auto
      with status_config [OF 2(2), where E = E and w = w] \<open>os_Args = _\<close> 2 show ?thesis by (simp add: main_def)
    next
      case 3
      with status_commands(1) [where w = w] \<open>os_Args = _\<close> show ?thesis by (simp add: main_def)
    next
      case 4
      with status_run [where E = E and M = M and args = args and inp = inp and w = w] \<open>os_Args = _\<close>
      show ?thesis by (auto simp: main_def split: sum.splits)
    next
      case 5
      with status_commands(2) [where w = w] \<open>os_Args = _\<close> show ?thesis by (simp add: main_def)
    next
      case 6
      with status_commands(3) [where w = w] \<open>os_Args = _\<close> show ?thesis by (simp add: main_def)
    next
      case 7
      with \<open>os_Args = _\<close> show ?thesis by (simp add: main_def Let_def status_ok_def)
    qed
  qed (simp_all add: main_def status_ok_def)
  then show ?thesis by (auto simp: status_ok_def split: sum.splits prod.splits)
qed

text \<open>The commands stop looking at flags at the first argument that is not one and never ask what
  is left over: whatever follows such an argument changes nothing, so that a flag written after
  it, \<open>--no-tor\<close> for example, is silently without effect.\<close>

lemma run_drops_arguments:
  assumes "apply_all run_flags ss = Some fs" and "flags_end rest"
  shows "main E M (prog # ''run'' # concat (map spell ss) @ rest) inp w
    = main E M (prog # ''run'' # concat (map spell ss)) inp w"
proof -
  have "flag_Parse run_flags (concat (map spell ss) @ rest) = Inr (fs, rest)"
    by (rule parse_spelled [OF assms(1) usage_flags(2) assms(2)])
  moreover have "flag_Parse run_flags (concat (map spell ss)) = Inr (fs, [])"
    using parse_spelled [OF assms(1) usage_flags(2), of "[]"] by (simp add: flags_end_def)
  ultimately show ?thesis by (simp add: main_commands cmd_run_def parse_or_exit_def)
qed

section \<open>From init to run\<close>

text \<open>The files and the rows that \<open>init\<close> leaves as they were decide whether the store opens.\<close>

lemma OpenStore_after_init:
  fixes w w' :: world
  assumes "writes (init_files d) w w'" and "rd (os_root w') (configPath d) \<noteq> None" and "config_dir_ok d"
    and "no_faults w" and "db_fault w DbSchema = None" and "rd (os_root w) (d @ [''blob'']) = None"
  shows "fst (OpenStore d w') = None"
proof -
  have more: "shred_os.more w' = shred_os.more w" "os_fault w' = os_fault w"
    using assms(1) by (cases w; cases w'; simp add: writes_def)+
  have j: "join_comps d [''blob''] = d @ [''blob'']"
    using assms(3) by (simp add: join_comps_plain config_dir_ok_def)
  have "rd (os_root w') q = None" if q: "prefix q (d @ [''blob''])" for q
  proof (cases "q = d @ [''blob'']")
    case True
    have "d @ [''blob''] \<notin> init_files d"
      by (auto simp: init_files_def config_paths [OF assms(3)] secrets_paths [OF assms(3)])
    with writes_rd [OF assms(1)] assms(6) True show ?thesis by simp
  next
    case False
    with q have "prefix q d" by simp
    with assms(2) file_above [of "os_root w'" d "[''config'', ''kakekomi.yaml'']"] show ?thesis
      by (auto simp: config_paths [OF assms(3)])
  qed
  from mkdirs_ok [OF this] obtain n where "mkdirs (d @ [''blob'']) (os_root w') = Some n" by blast
  with more assms(4,5) more_world(2) [of w' w] show ?thesis
    by (simp add: OpenStore_def j os_MkdirAll_def db_exec_def no_faults_def)
qed

lemma init_then_run_steps:
  assumes "aead_correct (re_Prims E)" and "age_correct (re_Prims E)" and "totp_plain (re_Prims E)"
    and "\<forall>pub t. yaml_keeps (re_Yaml E) (init_config pub t)"
    and "apply_all init_flags ss = Some fs" and "apply_all run_flags rs = Some gs"
    and "data_path gs = data_path fs" and "config_dir_ok (data_path fs)"
    and "no_faults w" and "db_fault w DbSchema = None" and "rd (os_root w) (data_path fs @ [''blob'']) = None"
    and "main E M (prog # ''init'' # concat (map spell ss)) inp w = Inl ((0, [InitDisclosed out]), w')"
    and "fst (promptPassphrase inp) = fst (readPassphrase inp2)"
  shows "\<exists>sg a. main E M (prog # ''run'' # concat (map spell rs)) inp2 w' = Inr sg
     \<and> app_Config (rn_App (sg_Running sg)) \<in>
         {init_config (io_Pub out) (get_bool fs ''enable-tor''),
          set_ingress a (init_config (io_Pub out) (get_bool fs ''enable-tor''))}
     \<and> sx_TOTPSecret (app_Secrets (rn_App (sg_Running sg))) = io_TOTP out
     \<and> sx_TOTPSecretDuress (app_Secrets (rn_App (sg_Running sg))) = io_TOTPDuress out
     \<and> srv_Addr (sg_Http sg) = get_string gs ''addr'' \<and> \<not> srv_KeepAlives (sg_Http sg)"
proof -
  let ?d = "data_path fs"
  have pf: "parse_or_exit init_flags (concat (map spell ss)) = Inr fs"
    using parse_spelled [OF assms(5) usage_flags(1), of "[]"] by (simp add: flags_end_def parse_or_exit_def)
  have pg: "parse_or_exit run_flags (concat (map spell rs)) = Inr gs"
    using parse_spelled [OF assms(6) usage_flags(2), of "[]"] by (simp add: flags_end_def parse_or_exit_def)
  obtain r w1 where i: "Init (re_Prims E) (re_Yaml E) ?d (get_bool fs ''enable-tor'') inp w = (r, w1)" by fastforce
  with assms(12) pf have "r = Inr out" "w1 = w'"
    by (cases r; auto simp: main_commands cmd_init_def finish_def simp del: get_bool.simps)+
  with i have init: "Init (re_Prims E) (re_Yaml E) ?d (get_bool fs ''enable-tor'') inp w = (Inr out, w')" by simp
  have reads: "\<forall>p. os_fault w OpRead p = NoFault" using assms(9) by (simp add: no_faults_def)
  note loads = Init_loads [OF assms(1-3,8,4) reads init]
  then obtain pass rest s where p: "promptPassphrase inp = (Inr pass, rest)"
    and s: "LoadSecrets (re_Prims E) ?d pass w' = Inr s" "sx_TOTPSecret s = io_TOTP out"
      "sx_TOTPSecretDuress s = io_TOTPDuress out" by blast
  have line: "fst (readPassphrase inp2) = Inr pass" using p assms(13) by simp
  have opens: "fst (OpenStore ?d w') = None"
    by (rule OpenStore_after_init [OF _ _ assms(8-11)]) (use loads in blast)+
  then obtain w2 where o: "OpenStore ?d w' = (None, w2)" by (metis prod.collapse)
  obtain cfg1 tor sv where t: "start_tor (re_Dial E) (init_config (io_Pub out) (get_bool fs ''enable-tor'')) ?d
      (get_string gs ''addr'') (get_bool gs ''no-tor'') (new_server (snd (GC w2)) (sx_CSRFKey s)) = (cfg1, tor, sv)"
    by (metis prod.exhaust)
  define rn where "rn = \<lparr>rn_App = \<lparr>app_Prims = re_Prims E, app_Codecs = re_Codecs E, app_Config = cfg1,
      app_Secrets = s, app_Templates = loadTemplates (re_Exec E), app_CSS = re_CSS E\<rparr>,
      rn_State = sv, rn_Tor = tor\<rparr>"
  have run: "Run E ?d (get_string gs ''addr'') (get_bool gs ''no-tor'') inp2 w' = Inr rn"
    using conjunct1 [OF loads] line s(1) o t by (simp add: Run_def rn_def del: get_bool.simps get_string.simps)
  obtain a where "cfg1 = init_config (io_Pub out) (get_bool fs ''enable-tor'')
      \<or> cfg1 = set_ingress a (init_config (io_Pub out) (get_bool fs ''enable-tor''))"
    using start_tor_config [OF t] by blast
  then show ?thesis
    using run pg s(2,3) assms(7)
    by (intro exI [of _ "\<lparr>sg_Running = rn, sg_Http = new_http_server (get_string gs ''addr''),
          sg_Process = prepare_process (mc_GOOS M) (mc_Prctl M) (mc_Process M)\<rparr>"] exI [of _ a])
      (simp add: main_commands cmd_run_def rn_def new_http_server_def del: get_bool.simps get_string.simps)
qed

text \<open>C12: what \<open>init\<close> prepares, \<open>run\<close> serves.  After an \<open>init\<close> that ended with status 0, a \<open>run\<close> on the
  same data directory, whose line of input is the passphrase that was entered at \<open>init\<close>, starts
  the server: with the configuration of the disclosed public key, up to the onion address, with
  secrets that hold the disclosed TOTP keys, on the address of the flags and without keep-alive,
  and whatever the flags are, their spelling, and the state of Tor.\<close>

theorem init_then_run:
  assumes "aead_correct (re_Prims E)" and "age_correct (re_Prims E)" and "totp_plain (re_Prims E)"
    and "\<forall>pub t. yaml_keeps (re_Yaml E) (init_config pub t)"
    and "apply_all init_flags ss = Some fs" and "apply_all run_flags rs = Some gs"
    and "data_path gs = data_path fs" and "config_dir_ok (data_path fs)"
    and "no_faults w" and "db_fault w DbSchema = None" and "rd (os_root w) (data_path fs @ [''blob'']) = None"
    and "main E M (prog # ''init'' # concat (map spell ss)) inp w = Inl ((0, [InitDisclosed out]), w')"
    and "fst (promptPassphrase inp) = fst (readPassphrase inp2)"
  shows "\<exists>sg a. main E M (prog # ''run'' # concat (map spell rs)) inp2 w' = Inr sg
     \<and> app_Config (rn_App (sg_Running sg)) \<in>
         {init_config (io_Pub out) (get_bool fs ''enable-tor''),
          set_ingress a (init_config (io_Pub out) (get_bool fs ''enable-tor''))}
     \<and> sx_TOTPSecret (app_Secrets (rn_App (sg_Running sg))) = io_TOTP out
     \<and> sx_TOTPSecretDuress (app_Secrets (rn_App (sg_Running sg))) = io_TOTPDuress out
     \<and> srv_Addr (sg_Http sg) = get_string gs ''addr'' \<and> \<not> srv_KeepAlives (sg_Http sg)"
  by (rule init_then_run_steps [OF assms])

section \<open>The pinned key\<close>

lemma Init_lock:
  fixes w :: "'a os_scheme"
  assumes "Init P Y d t inp w = (Inr out, w')" and "config_dir_ok d"
  shows "rd (os_root w') (pubkeyLockPath d) = Some (bytes_of (PubkeyFingerprint (io_Pub out) @ [CHR 0x0A]))"
proof -
  from Init_steps [OF assms(1)] obtain pass s and w5 :: "'a os_scheme" where
    "init_persist P Y d (init_config (io_Pub out) t) (io_Pub out) pass s w5 = (None, w')" by blast
  from init_persist_done [OF this assms(2)] show ?thesis by blast
qed

lemma main_init:
  assumes "apply_all init_flags ss = Some fs"
    and "main E M (prog # ''init'' # concat (map spell ss)) inp w = Inl ((0, [InitDisclosed out]), w')"
  shows "Init (re_Prims E) (re_Yaml E) (data_path fs) (get_bool fs ''enable-tor'') inp w = (Inr out, w')"
proof -
  have pf: "parse_or_exit init_flags (concat (map spell ss)) = Inr fs"
    using parse_spelled [OF assms(1) usage_flags(1), of "[]"] by (simp add: flags_end_def parse_or_exit_def)
  obtain r w1 where i: "Init (re_Prims E) (re_Yaml E) (data_path fs) (get_bool fs ''enable-tor'') inp w = (r, w1)"
    by fastforce
  with assms(2) pf have "r = Inr out" "w1 = w'"
    by (cases r; auto simp: main_commands cmd_init_def finish_def simp del: get_bool.simps)+
  with i show ?thesis by simp
qed

lemma main_run:
  assumes "apply_all run_flags rs = Some gs"
    and "main E M (prog # ''run'' # concat (map spell rs)) inp w = Inr sg"
  shows "Run E (data_path gs) (get_string gs ''addr'') (get_bool gs ''no-tor'') inp w = Inr (sg_Running sg)"
proof -
  have "parse_or_exit run_flags (concat (map spell rs)) = Inr gs"
    using parse_spelled [OF assms(1) usage_flags(2), of "[]"] by (simp add: flags_end_def parse_or_exit_def)
  with assms(2) show ?thesis
    by (auto simp: main_commands cmd_run_def simp del: get_bool.simps get_string.simps split: sum.splits prod.splits)
qed

lemma set_ingress_keeps [simp]:
  "cfg_Receiver (set_ingress a c) = cfg_Receiver c" "cfg_Security (set_ingress a c) = cfg_Security c"
  by (simp_all add: set_ingress_def)

lemma Run_lock:
  assumes "Run E d addr noTor inp w = Inr rn" and "c = app_Config (rn_App rn)"
  shows "\<exists>l. rd (os_root w) (lockPath c d) = Some l
     \<and> TrimSpace (str_of l) = PubkeyFingerprint (recv_PublicKey (cfg_Receiver c))"
proof -
  obtain cfg where l: "LoadConfig (re_Yaml E) d w = Inr cfg"
    and c: "\<exists>tor sv w1 sx. start_tor (re_Dial E) cfg d addr noTor (new_server w1 sx) = (c, tor, sv)"
    using assms by (auto simp: Run_def split: sum.splits prod.splits option.splits) blast
  from c have "cfg_Receiver c = cfg_Receiver cfg" "cfg_Security c = cfg_Security cfg"
    using start_tor_config by fastforce+
  moreover from this have "lockPath c d = lockPath cfg d" by (simp add: lockPath_def)
  ultimately show ?thesis using l by (auto simp: LoadConfig_ok ReadFile_iff)
qed

text \<open>C28: the receiver key is pinned.  After an \<open>init\<close> that ended with status 0, let anything happen to
  the disk, the configuration file included, except to the lock file that \<open>init\<close> wrote.  A later
  \<open>run\<close> on the data directory that starts a server serves a receiver key with the SHA-256
  fingerprint of the key that \<open>init\<close> disclosed, so that every submission is encrypted to that
  key; a configuration with another key is refused.  There is one exception, which the
  configuration itself opens: where its \<open>pubkey_lock\<close> names another lock file, the key is only
  compared with that file, and whoever can change the key can name a lock that fits it.\<close>

theorem receiver_key_pinned:
  assumes "apply_all init_flags ss = Some fs" and "apply_all run_flags rs = Some gs"
    and "data_path gs = data_path fs" and "config_dir_ok (data_path fs)"
    and "main E M (prog # ''init'' # concat (map spell ss)) inp w = Inl ((0, [InitDisclosed out]), w')"
    and "rd (os_root w2) (pubkeyLockPath (data_path fs)) = rd (os_root w') (pubkeyLockPath (data_path fs))"
    and "main E M (prog # ''run'' # concat (map spell rs)) inp2 w2 = Inr sg"
    and "c = app_Config (rn_App (sg_Running sg))"
  shows "if sec_PubkeyLock (cfg_Security c) = []
    then sha256 (bytes_of (recv_PublicKey (cfg_Receiver c))) = sha256 (bytes_of (io_Pub out))
    else \<exists>l. rd (os_root w2) (os_path (sec_PubkeyLock (cfg_Security c))) = Some l
       \<and> TrimSpace (str_of l) = hex_EncodeToString (sha256 (bytes_of (recv_PublicKey (cfg_Receiver c))))"
proof -
  have lock: "rd (os_root w2) (pubkeyLockPath (data_path gs)) = Some (bytes_of (PubkeyFingerprint (io_Pub out) @ [CHR 0x0A]))"
    using Init_lock [OF main_init [OF assms(1,5)] assms(4)] assms(3,6) by simp
  obtain l where l: "rd (os_root w2) (lockPath c (data_path gs)) = Some l"
    "TrimSpace (str_of l) = PubkeyFingerprint (recv_PublicKey (cfg_Receiver c))"
    using Run_lock [OF main_run [OF assms(2,7)] assms(8)] by blast
  show ?thesis
  proof (cases "sec_PubkeyLock (cfg_Security c) = []")
    case True
    with l lock have "PubkeyFingerprint (io_Pub out) = PubkeyFingerprint (recv_PublicKey (cfg_Receiver c))"
      by (auto simp: lockPath_def Trim_line)
    then have "sha256 (bytes_of (io_Pub out)) = sha256 (bytes_of (recv_PublicKey (cfg_Receiver c)))"
      by (metis PubkeyFingerprint_def hex_decode_encode option.inject)
    with True show ?thesis by simp
  next
    case False
    with l show ?thesis by (simp add: lockPath_def PubkeyFingerprint_def)
  qed
qed

end
