(* ===== verification/Accept.thy ===== *)
theory Accept
  imports Visit_Laws
begin

text \<open>
  On a healthy store a submission with the right tokens succeeds, and the code it shows opens
  the new case.
\<close>

lemma CreateCase_ok:
  fixes sv :: "'a server_scheme"
  assumes "healthy sv" and "store_inv sv" and "8 \<le> length (os_rng sv)"
    and i: "i = hex_EncodeToString (take 8 (os_rng sv))" and "map_of (db_rows sv) i = None"
    and "is_dir (os_root sv) (data_dir sv @ [''blob''])" and "node_at (caseDir sv i) (os_root sv) = None"
  shows "\<exists>sv'. CreateCase cl ch cs ttl blob sv = (Inr i, sv')
     \<and> db_rows sv' = db_rows sv @ [(i, new_row cl ch cs ttl (os_now sv))]
     \<and> healthy sv' \<and> data_dir sv' = data_dir sv \<and> rd (os_root sv') (replyPath sv i) = None"
proof -
  let ?r = "new_row cl ch cs ttl (os_now sv)"
  let ?w1 = "sv\<lparr>os_rng := drop 8 (os_rng sv)\<rparr>"
  let ?w2 = "?w1\<lparr>db_rows := db_rows sv @ [(i, ?r)]\<rparr>"
  have nid: "NewID sv = (Inr i, ?w1)" using assms(3) i by (simp add: NewID_def readRandom_def)
  have ci: "case_id i" by (rule NewID_case_id [OF nid])
  have pd: "plain_dir sv" using assms(2) by (simp add: store_inv_def)
  note pl = case_id_plain [OF ci]
  have paths: "caseDir w = caseDir sv" "blobPath w = blobPath sv" if "data_dir w = data_dir sv" for w :: "'a server_scheme"
    using paths_data_dir [OF that] by simp_all
  have nf: "os_fault sv x p = NoFault" "db_fault sv st = None" for x p st
    using assms(1) by (simp_all add: healthy_def no_faults_def)
  have ins: "db_insert i ?r ?w1 = (None, ?w2)"
    using assms(5) nf by (simp add: db_insert_def db_exec_def rows_ins_def)
  have cd: "caseDir sv i = (data_dir sv @ [''blob'']) @ [i]" by (simp add: caseDir_plain [OF pd pl])
  from mkdirs_fresh [OF assms(6), of i] assms(7) obtain n where
    n: "mkdirs (caseDir sv i) (os_root sv) = Some n" "node_at (caseDir sv i) n = Some (Dir [])"
    unfolding cd by auto
  have bp: "blobPath sv i = caseDir sv i @ [''case-data.tar.age'']"
    and rp: "replyPath sv i = caseDir sv i @ [''reply.bin'']"
    using blobPath_plain [OF pd pl] replyPath_plain [OF pd pl] by simp_all
  have at: "node_at (caseDir sv i @ q) n = node_at q (Dir [])" for q
    using n(2) by (simp add: node_at_append)
  have "is_dir n (caseDir sv i)" "\<not> is_dir n (caseDir sv i @ [''case-data.tar.age''])"
    using n(2) at [of "[''case-data.tar.age'']"] by (simp_all add: is_dir_def)
  from wr_in_dir [OF this] obtain n' where n': "wr (blobPath sv i) blob n = Some n'" unfolding bp by blast
  let ?w4 = "?w2\<lparr>os_root := n'\<rparr>"
  have e2: "caseDir ?w2 = caseDir sv" "blobPath (?w2\<lparr>os_root := n\<rparr>) = blobPath sv"
    by (rule paths; simp)+
  have five: "(5 :: nat) = Suc 4" by simp
  have "CreateCase cl ch cs ttl blob sv = (Inr i, ?w4)"
    unfolding CreateCase_def five create_loop.simps(2) nid prod.case sum.case ins option.case e2
    using n(1) n' nf by (simp add: os_MkdirAll_def os_WriteFile_def e2 [simplified])
  moreover have "rd n' (replyPath sv i) = None"
    using rd_wr_other [OF n', of "replyPath sv i"] at [of "[''reply.bin'']"] by (simp add: bp rp rd_def)
  ultimately show ?thesis using assms(1) by (simp add: healthy_def no_faults_def)
qed

lemma find_append_None: "find P xs = None \<Longrightarrow> find P (xs @ ys) = find P ys"
  by (induction xs) (auto split: if_splits)

lemma readRandom_enough:
  "n \<le> length (os_rng w) \<Longrightarrow> readRandom n w = (Inr (take n (os_rng w)), w\<lparr>os_rng := drop n (os_rng w)\<rparr>)"
  by (simp add: readRandom_ok)

text \<open>The environment in which a submission cannot be refused for reasons of the server: the disk
  and the database work, the blob directory is there, entropy is available, and the identifier
  drawn from it is not in use.\<close>

definition ready :: "'a server_scheme \<Rightarrow> string \<Rightarrow> bool" where
  "ready sv i \<longleftrightarrow> store_inv sv \<and> healthy sv \<and> 102 \<le> length (os_rng sv)
     \<and> i = hex_EncodeToString (take 8 (drop 94 (os_rng sv))) \<and> map_of (db_rows sv) i = None
     \<and> is_dir (os_root sv) (data_dir sv @ [''blob'']) \<and> node_at (caseDir sv i) (os_root sv) = None"

lemma submit_case_ok:
  fixes sv :: "'a server_scheme"
  assumes rdy: "ready sv i" and gen: "GenerateCode (app_Prims a) sv = (Inr c, sv\<lparr>os_rng := drop 14 (os_rng sv)\<rparr>)"
    and "age_ParseRecipient (app_Prims a) (recv_PublicKey (cfg_Receiver (app_Config a)))"
    and "packable (envelope_of c vals atts (os_now sv))"
  shows "\<exists>sv' r. submit_case a vals atts sv = (Inr c, sv') \<and> db_rows sv' = db_rows sv @ [(i, r)]
     \<and> row_lookup r = CaseCodeLookup (sx_LookupKey (app_Secrets a)) c
     \<and> VerifyCode (app_Prims a) c (row_salt r) (row_hash r)
     \<and> healthy sv' \<and> data_dir sv' = data_dir sv \<and> rd (os_root sv') (replyPath sv i) = None"
proof -
  let ?w1 = "sv\<lparr>os_rng := drop 14 (os_rng sv)\<rparr>" and ?w2 = "sv\<lparr>os_rng := drop 30 (os_rng sv)\<rparr>"
    and ?w3 = "sv\<lparr>os_rng := drop 94 (os_rng sv)\<rparr>"
  have len: "102 \<le> length (os_rng sv)" using rdy by (simp add: ready_def)
  have s: "NewSalt ?w1 = (Inr (take 16 (drop 14 (os_rng sv))), ?w2)"
    using len by (simp add: NewSalt_def readRandom_enough)
  let ?salt = "take 16 (drop 14 (os_rng sv))"
  obtain tar where tar: "PackSubmission (envelope_of c vals atts (os_now sv)) = Inr tar"
    using submission_files_ok [OF assms(4)] tar_archive_total by (fastforce simp: PackSubmission_def)
  obtain ct where ct: "EncryptToReceiver (app_Prims a) (recv_PublicKey (cfg_Receiver (app_Config a))) tar ?w2 = (Inr ct, ?w3)"
    using assms(3) len by (simp add: EncryptToReceiver_def readRandom_enough)
  have w3: "healthy ?w3" "store_inv ?w3" "8 \<le> length (os_rng ?w3)" "i = hex_EncodeToString (take 8 (os_rng ?w3))"
    "map_of (db_rows ?w3) i = None" "is_dir (os_root ?w3) (data_dir ?w3 @ [''blob''])"
    "node_at (caseDir ?w3 i) (os_root ?w3) = None"
    using rdy paths_data_dir(1) [of ?w3 sv]
    by (auto simp: ready_def healthy_def no_faults_def store_inv_def plain_dir_def)
  let ?cl = "CaseCodeLookup (sx_LookupKey (app_Secrets a)) c" and ?ch = "HashCode (app_Prims a) c ?salt"
    and ?ttl = "case_ttl (app_Config a)"
  obtain sv' where sv': "CreateCase ?cl ?ch ?salt ?ttl ct ?w3 = (Inr i, sv')"
    "db_rows sv' = db_rows sv @ [(i, new_row ?cl ?ch ?salt ?ttl (os_now sv))]"
    "healthy sv'" "data_dir sv' = data_dir sv" "rd (os_root sv') (replyPath sv i) = None"
    using CreateCase_ok [OF w3, of ?cl ?ch ?salt ?ttl ct] paths_data_dir(3) [of ?w3 sv] by auto
  have "submit_case a vals atts sv = (Inr c, sv')"
    using gen s tar ct sv'(1) unfolding envelope_of_def by (simp add: submit_case_def Let_def)
  with sv' show ?thesis by (auto simp: new_row_def Let_def VerifyCode_iff)
qed

text \<open>C10: a submission with valid tokens, accepted fields and accepted attachments succeeds on a
  healthy server, and the code it shows brings the visitor back to the new case, verified and
  without a reply yet, unless an older case has the same keyed hash.\<close>

theorem submission_accepted:
  assumes "ready sv i"
    and "GenerateCode (app_Prims a) sv = (Inr c, sv\<lparr>os_rng := drop 14 (os_rng sv)\<rparr>)"
    and "age_ParseRecipient (app_Prims a) (recv_PublicKey (cfg_Receiver (app_Config a)))"
    and "admitted a rq sv"
    and "collect_fields (sent_form a rq) (cfg_Fields (app_Config a)) [] = Inr vals"
    and "form_attachments a (sent_form a rq) = Inr atts"
    and "packable \<lparr>env_Code = c, env_Fields = vals, env_Attachments = atts, env_ReceivedAt = os_now sv\<rparr>"
    and "\<forall>jr \<in> set (db_rows sv). row_lookup (snd jr) \<noteq> CaseCodeLookup (sx_LookupKey (app_Secrets a)) c"
    and "processSubmit a rq rs sv = (rs', sv')"
  shows "rs' = renderPublic a rq ''done'' (VText c) [] [] rs
     \<and> reply_lookup a c sv' = \<lparr>rv_Status = ''verified'', rv_CaseID = i, rv_ReplyText = []\<rparr>"
proof -
  obtain sv1 r where sc: "submit_case a vals atts sv = (Inr c, sv1)" "db_rows sv1 = db_rows sv @ [(i, r)]"
     "row_lookup r = CaseCodeLookup (sx_LookupKey (app_Secrets a)) c"
     "VerifyCode (app_Prims a) c (row_salt r) (row_hash r)"
     "healthy sv1" "data_dir sv1 = data_dir sv" "rd (os_root sv1) (replyPath sv i) = None"
    using submit_case_ok [OF assms(1-3)] assms(7) unfolding envelope_of_def by blast
  have "rs' = renderPublic a rq ''done'' (VText c) [] [] rs \<and> sv' = FixedWaitUntil (os_now sv + 2 * second) sv1"
    using assms(4,5,6,9) sc(1)
    by (auto simp: processSubmit_def with_floor_def process_form_def submit_form_case_def admitted_def
        sent_form_def ParseForm_again_def Let_def split: prod.splits)
  moreover from this have sv': "db_rows sv' = db_rows sv @ [(i, r)]" "healthy sv'"
    "rd (os_root sv') (replyPath sv' i) = None"
    using sc paths_data_dir(3) [of sv' sv] by (simp_all add: healthy_def no_faults_def)
  have none: "find (\<lambda>ir. row_lookup (snd ir) = CaseCodeLookup (sx_LookupKey (app_Secrets a)) c) (db_rows sv) = None"
    using assms(8) by (auto simp: find_None_iff)
  have "find (\<lambda>ir. row_lookup (snd ir) = CaseCodeLookup (sx_LookupKey (app_Secrets a)) c) (db_rows sv') = Some (i, r)"
    using sv'(1) sc(3) find_append_None [OF none, of "[(i, r)]"] by simp
  then have "FindCaseByCode (app_Prims a) c (CaseCodeLookup (sx_LookupKey (app_Secrets a)) c) sv' = Inr i"
    using sv'(2) sc(4) by (simp add: FindCaseByCode_def healthy_def)
  moreover have "\<exists>e. ReadReply i sv' = Inl e"
    using sv'(2,3) by (auto simp: ReadReply_def os_ReadFile_def rd_def split: option.splits node.splits)
  ultimately show ?thesis by (auto simp: reply_lookup_def reply_status_def Let_def)
qed

end
