(* ===== verification/Access.thy ===== *)
theory Access
  imports Serve_Effects
begin

text \<open>
  Who may do what: the dashboard behind its session and CSRF checks, the login with its duress
  branch, the identifiers a URL can name, and the time a reply takes.
\<close>

section \<open>The dashboard\<close>

definition dashboard :: "string list \<Rightarrow> bool" where
  "dashboard segs \<longleftrightarrow> segs = [''admin'', ''logout''] \<or> segs = [''admin'', ''inbox'']
     \<or> 2 < length segs \<and> (\<exists>t \<in> set trees. take 2 segs = [''admin'', t])"

definition entitled :: "request \<Rightarrow> 'a server_scheme \<Rightarrow> bool" where
  "entitled rq sv = (case Touch (readSessionCookie rq) (os_now sv) (sv_sessions sv) of
       (None, _) \<Rightarrow> False
     | (Some sess, ss) \<Rightarrow> (rq_Method rq = ''POST'' \<or> rq_Method rq = ''DELETE'')
         \<longrightarrow> TrimSpace (form_value rq CSRFFormField) = CSRFToken ss (se_Token sess))"

text \<open>The answer of \<open>requireAuth\<close> to a request it refuses.\<close>

definition refused_response :: "request \<Rightarrow> session_store \<Rightarrow> int \<Rightarrow> response \<Rightarrow> response" where
  "refused_response rq ss now rs = (case Touch (readSessionCookie rq) now ss of
       (None, _) \<Rightarrow> http_Redirect rq ''/admin/login'' rs
     | _ \<Rightarrow> http_Error ''CSRF token invalid'' 403 rs)"

lemma requireAuth_refuses:
  "\<not> entitled rq sv \<Longrightarrow> requireAuth h rq rs sv =
     (refused_response rq (sv_sessions sv) (os_now sv) rs,
      sv\<lparr>sv_sessions := snd (Touch (readSessionCookie rq) (os_now sv) (sv_sessions sv))\<rparr>)"
  by (auto simp: entitled_def requireAuth_def refused_response_def VerifyCSRF_iff split: prod.splits option.splits)

lemma dashboard_Routes: "dashboard segs \<Longrightarrow> \<exists>h. Routes a segs = requireAuth h"
proof -
  assume d: "dashboard segs"
  have t: "\<exists>r. segs = ''admin'' # t # r \<and> r \<noteq> []" if "2 < length segs" "take 2 segs = [''admin'', t]" for t
    using that append_take_drop_id [of 2 segs] by (intro exI [of _ "drop 2 segs"]) auto
  from d consider "segs = [''admin'', ''logout'']" | "segs = [''admin'', ''inbox'']"
    | r where "segs = ''admin'' # ''case'' # r" "r \<noteq> []" | r where "segs = ''admin'' # ''reply'' # r" "r \<noteq> []"
    | r where "segs = ''admin'' # ''download'' # r" "r \<noteq> []"
    using t by (auto simp: dashboard_def trees_def)
  then show ?thesis
  proof cases
    case 1
    then show ?thesis unfolding Routes_def by (intro exI) simp
  next
    case 2
    then show ?thesis unfolding Routes_def by (intro exI) simp
  next
    case 3
    then show ?thesis unfolding Routes_def by (intro exI) simp
  next
    case 4
    then show ?thesis unfolding Routes_def by (intro exI) simp
  next
    case 5
    then show ?thesis unfolding Routes_def by (intro exI) simp
  qed
qed

lemma refused_status: "rs_status (refused_response rq ss now rs) \<in> {303, 403}"
  by (auto simp: refused_response_def split: prod.splits option.splits)

lemma moved_status: "mux_moved L rq rs = Some rs' \<Longrightarrow> rs_status rs' \<in> {301, 307}"
  by (auto simp: mux_moved_def mux_redirect_def Let_def split: if_splits)

text \<open>What a refused request for the dashboard gets.\<close>

definition closed_answer :: "mux_lib \<Rightarrow> request \<Rightarrow> session_store \<Rightarrow> int \<Rightarrow> response" where
  "closed_answer L rq ss now =
     (let rs = foldl (\<lambda>r (k, v). set_header k v r) new_response security_headers
      in case mux_moved L rq rs of Some rs1 \<Rightarrow> rs1 | None \<Rightarrow> refused_response rq ss now rs)"

lemma closed_status: "rs_status (closed_answer L rq ss now) \<in> {301, 303, 307, 403}"
  using refused_status moved_status
  by (fastforce simp: closed_answer_def Let_def split: option.splits)

lemma serve_closed:
  fixes sv :: "'a server_scheme"
  assumes "dashboard (target rq)" and "\<not> entitled rq sv"
  shows "fst (serve L a rq sv) = closed_answer L rq (sv_sessions sv) (os_now sv)
     \<and> calm sv (snd (serve L a rq sv))"
proof -
  obtain h :: "request \<Rightarrow> response \<Rightarrow> 'a server_scheme \<Rightarrow> response \<times> 'a server_scheme"
    where h: "Routes a (target rq) = requireAuth h" using dashboard_Routes [OF assms(1)] by blast
  show ?thesis
    unfolding serve_def withSecurityHeaders_def mux_ServeHTTP_def closed_answer_def Let_def
      target_def [symmetric] h requireAuth_refuses [OF assms(2)]
    by (simp split: option.split)
qed

text \<open>C7: without a live session, or for a POST or DELETE without the CSRF token of that session,
  a dashboard URL answers with a redirect or a 403 that is the same for every content of the store
  and of the disk, and changes neither.\<close>

theorem dashboard_closed:
  fixes sv :: "'a server_scheme"
  assumes "dashboard (target rq)" and "\<not> entitled rq sv"
  shows "\<exists>rs. rs_status rs \<in> {301, 303, 307, 403}
     \<and> (\<forall>sv2 :: 'a server_scheme. sv_sessions sv2 = sv_sessions sv \<longrightarrow> os_now sv2 = os_now sv \<longrightarrow>
          fst (serve L a rq sv2) = rs
          \<and> db_rows (snd (serve L a rq sv2)) = db_rows sv2 \<and> os_root (snd (serve L a rq sv2)) = os_root sv2)"
proof (intro exI conjI allI impI)
  show "rs_status (closed_answer L rq (sv_sessions sv) (os_now sv)) \<in> {301, 303, 307, 403}"
    by (rule closed_status)
next
  fix sv2 :: "'a server_scheme"
  assume s: "sv_sessions sv2 = sv_sessions sv" "os_now sv2 = os_now sv"
  with assms(2) have "\<not> entitled rq sv2" by (simp add: entitled_def)
  note c = serve_closed [OF assms(1) this, of L a]
  with s show "fst (serve L a rq sv2) = closed_answer L rq (sv_sessions sv) (os_now sv)" by simp
  from c show "db_rows (snd (serve L a rq sv2)) = db_rows sv2"
    and "os_root (snd (serve L a rq sv2)) = os_root sv2" by (simp_all add: calm_def)
qed

section \<open>Login\<close>

definition right_login :: "('i, 'g) app \<Rightarrow> request \<Rightarrow> int \<Rightarrow> bool" where
  "right_login a rq now \<longleftrightarrow>
     VerifyAnonCSRF (readAnonCSRFCookie rq) (form_value rq CSRFFormField)
     \<and> form_value rq ''password'' \<noteq> [] \<and> form_value rq ''totp'' \<noteq> []
     \<and> CheckAdminPassword (app_Prims a) (app_Secrets a) (form_value rq ''password'')
     \<and> totp_Validate (app_Prims a) now (form_value rq ''totp'') (sx_TOTPSecret (app_Secrets a))"

definition session_cookies :: "response \<Rightarrow> cookie list" where
  "session_cookies rs = filter (\<lambda>c. ck_Name c = SessionCookie) (rs_cookies rs)"

lemma session_cookies_simps [simp]:
  "session_cookies (http_Error m c rs) = session_cookies rs"
  "session_cookies (http_Redirect rq url rs) = session_cookies rs"
  "session_cookies (write_page out rs) = session_cookies rs"
  "session_cookies (setAnonCSRFCookie rq t rs) = session_cookies rs"
  "session_cookies (setAnonCSRFCookieAt rq p t rs) = session_cookies rs"
  by (simp_all add: session_cookies_def setAnonCSRFCookie_def setAnonCSRFCookieAt_def http_SetCookie_def
      AnonCSRFCookie_def SessionCookie_def)

lemma session_cookies_public [simp]: "session_cookies (renderPublic a rq name d pt csrf rs) = session_cookies rs"
  by (simp add: renderPublic_def Let_def split: option.split)

lemma session_New_iff:
  "session_New ss w = (if 32 \<le> length (os_rng w)
     then (let tok = hex_EncodeToString (take 32 (os_rng w));
               se = \<lparr>se_Token = tok, se_CreatedAt = os_now w, se_LastSeen = os_now w\<rparr>
           in (Inr se, ss_put tok se ss, w\<lparr>os_rng := drop 32 (os_rng w)\<rparr>))
     else (Inl (ErrIO ''entropy source failed''), ss, w))"
  by (simp add: session_New_def readRandom_def Let_def)

lemma wipe_sessions:
  fixes sv :: "'a server_scheme"
  assumes "Wipe sv = (e, sv')"
  shows "sv_sessions sv' = sv_sessions sv"
proof -
  obtain v where v: "files_upto [] sv v" "sv' = spend_wipe v" using wipe_any [OF assms] by blast
  then have "world.more v = world.more sv" using upto_dir [OF v(1)] by simp
  then have "sv_sessions v = sv_sessions sv" by (cases v; cases sv) simp
  with v(2) show ?thesis by (simp add: spend_wipe_def)
qed

text \<open>Every login that does not open a session leaves the sessions as they are and sets no session
  cookie.\<close>

lemma login_post_refused:
  fixes sv :: "'a server_scheme"
  assumes "rq_Method rq = ''POST''" and "login_post a rq rs sv = (rs', sv')"
    and "\<not> (right_login a rq (os_now sv) \<and> \<not> duress_login a rq sv \<and> 32 \<le> length (os_rng sv))"
  shows "sv_sessions sv' = sv_sessions sv \<and> session_cookies rs' = session_cookies rs"
  using assms wipe_sessions [of sv]
  by (auto simp: login_post_def login_failed_def right_login_def duress_login_def session_New_iff Let_def
      split: if_splits) (metis prod.collapse)

text \<open>C8: which requests to the login page open a session: exactly a POST with the CSRF token of its
  cookie, the right password and the current code of the normal secret, where the code is not also
  the duress code and the system has entropy left.  Then exactly one session is added, under a
  token of 32 fresh bytes, and the answer carries that token as its session cookie.  Every other
  request, whatever its method, its password, its code and the cookies and tokens it sends, leaves
  the sessions as they are, and its answer sets no session cookie.\<close>

theorem login_opens_session_iff:
  assumes "handleAdminLogin a rq rs sv = (rs', sv')" and "tok = hex_EncodeToString (take 32 (os_rng sv))"
  shows "if rq_Method rq = ''POST'' \<and> right_login a rq (os_now sv) \<and> \<not> duress_login a rq sv
        \<and> 32 \<le> length (os_rng sv)
    then rs' = http_Redirect rq ''/admin/inbox'' (setSessionCookie rq tok rs)
       \<and> sv_sessions sv' = ss_put tok \<lparr>se_Token = tok, se_CreatedAt = os_now sv, se_LastSeen = os_now sv\<rparr>
           (sv_sessions sv)
    else sv_sessions sv' = sv_sessions sv
       \<and> filter (\<lambda>c. ck_Name c = SessionCookie) (rs_cookies rs') = filter (\<lambda>c. ck_Name c = SessionCookie) (rs_cookies rs)"
proof (cases "rq_Method rq = ''POST''")
  case False
  with assms(1) have "sv_sessions sv' = sv_sessions sv \<and> session_cookies rs' = session_cookies rs"
    using drew_NewAnonCSRFToken [of sv] drew_fields(7)
    by (auto simp: handleAdminLogin_def split: prod.splits sum.splits if_splits)
  with False show ?thesis by (simp add: session_cookies_def)
next
  case True
  with assms(1) obtain sv1 where p: "login_post a rq rs sv = (rs', sv1)"
    and s: "sv_sessions sv' = sv_sessions sv1"
    by (auto simp: handleAdminLogin_def dest!: floor_cases)
  show ?thesis
  proof (cases "right_login a rq (os_now sv) \<and> \<not> duress_login a rq sv \<and> 32 \<le> length (os_rng sv)")
    case ok: True
    with p True have "rs' = http_Redirect rq ''/admin/inbox'' (setSessionCookie rq tok rs)"
      "sv_sessions sv1 = ss_put tok \<lparr>se_Token = tok, se_CreatedAt = os_now sv, se_LastSeen = os_now sv\<rparr>
           (sv_sessions sv)"
      using assms(2)
      by (auto simp: right_login_def duress_login_def login_post_def session_New_iff Let_def)
    with ok True s show ?thesis by simp
  next
    case False
    with login_post_refused [OF True p] s show ?thesis by (auto simp: session_cookies_def)
  qed
qed


section \<open>Downloads\<close>

text \<open>C38: whatever path a request names, escapes and dots included, a download that succeeds returns the
  blob of a case under the blob directory, named by sixteen lower-case hexadecimal digits, byte
  for byte, and marks no other case as read.\<close>

theorem download_confined:
  assumes "plain_dir sv" and "rs_status rs = 200" and "handleAdminDownload a rq rs sv = (rs', sv')"
    and "rs_status rs' = 200"
  shows "\<exists>i blob. case_id i \<and> rs_body rs' = str_of blob
     \<and> rd (os_root sv) (data_dir sv @ [''blob'', i, ''case-data.tar.age'']) = Some blob
     \<and> (\<forall>j. j \<noteq> i \<longrightarrow> map_of (db_rows sv') j = map_of (db_rows sv) j)"
proof -
  let ?i = "path_id ''/admin/download/'' rq"
  have v: "validCaseID ?i"
    using assms(3,4) by (auto simp: handleAdminDownload_def http_NotFound_def Let_def split: if_splits)
  with assms(3,4) obtain blob where b: "ReadBlob ?i sv = Inr blob" "rs_body rs' = str_of blob"
    "sv' = snd (MarkRead ?i sv)"
    by (auto simp: handleAdminDownload_def http_NotFound_def Let_def split: sum.splits)
  have i: "case_id ?i" using v by (simp add: validCaseID_case_id)
  have "blobPath sv ?i = data_dir sv @ [''blob'', ?i, ''case-data.tar.age'']"
    by (simp add: blobPath_plain [OF assms(1) case_id_plain [OF i]] caseDir_plain [OF assms(1) case_id_plain [OF i]])
  moreover have "rd (os_root sv) (blobPath sv ?i) = Some blob"
    using b(1) by (auto simp: ReadBlob_def os_ReadFile_def rd_def split: if_splits option.splits node.splits)
  moreover have "map_of (db_rows sv') j = map_of (db_rows sv) j" if "j \<noteq> ?i" for j
    using b(3) that by (auto simp: MarkRead_def db_exec_def map_of_rows_upd option.map_id split: option.splits)
  ultimately show ?thesis using i b(2) by auto
qed

section \<open>Time\<close>

text \<open>No answer to a submission, a code or a login comes before its floor of two, two and a half and
  two seconds, whatever branch was taken.\<close>

lemma answers_wait:
  assumes "rq_Method rq = ''POST''"
  shows "os_now sv + 2 * second \<le> os_now (snd (handleSubmit a rq rs sv))
     \<and> os_now sv + 5 * second div 2 \<le> os_now (snd (handleReply a rq rs sv))
     \<and> os_now sv + 2 * second \<le> os_now (snd (handleAdminLogin a rq rs sv))"
  using assms
  by (simp add: handleSubmit_def processSubmit_def handleReply_def handleAdminLogin_def with_floor_def
      Let_def split: prod.splits)

end
