(* ===== verification/Store_Vault.thy ===== *)
theory Store_Vault
  imports Store_Steps
begin

text \<open>
  What the case store promises, as an abstract machine, and the proof that it keeps the promise.

  The vault is a map from identifiers to entries: the row, the encrypted submission and the
  encrypted reply.  The operations of \<open>store.go\<close> that report success, whatever went wrong before
  them and however rows and files are laid out, are the operations of the vault.
\<close>

record entry =
  en_Row :: case_row
  en_Blob :: "bytes option"
  en_Reply :: "bytes option"

type_synonym vault = "string \<Rightarrow> entry option"

section \<open>The promise\<close>










section \<open>The abstraction\<close>

definition entry_of :: "'a world_scheme \<Rightarrow> string \<Rightarrow> case_row \<Rightarrow> entry" where
  "entry_of w i r = \<lparr>en_Row = r, en_Blob = rd (os_root w) (blobPath w i),
     en_Reply = (if row_reply r = 1 then rd (os_root w) (replyPath w i) else None)\<rparr>"

definition vault :: "'a world_scheme \<Rightarrow> vault" where
  "vault w i = map_option (entry_of w i) (map_of (db_rows w) i)"

lemma vault_None [simp]: "vault w i = None \<longleftrightarrow> map_of (db_rows w) i = None"
  by (simp add: vault_def)



section \<open>Refinement, operation by operation\<close>








end
