(* ===== verification/Store_Demo.thy ===== *)
theory Store_Demo
  imports Store_Vault Demo_Prims
begin

text \<open>
  A concrete store with two cases, one of them expired, and the instances of the store's
  properties on it.
\<close>

definition id_a :: string where "id_a = replicate 16 (CHR ''a'')"
definition id_b :: string where "id_b = replicate 16 (CHR ''b'')"

definition demo_row :: "int \<Rightarrow> int \<Rightarrow> case_row" where
  "demo_row created expires = \<lparr>row_lookup = [1], row_hash = replicate 32 0, row_salt = replicate 16 2,
     row_created = created, row_expires = expires, row_read = 0, row_reply = 0\<rparr>"

definition demo_tree :: node where
  "demo_tree = Dir [(''data'', Dir [(''blob'', Dir
     [(id_a, Dir [(''case-data.tar.age'', File [1, 2])]),
      (id_b, Dir [(''case-data.tar.age'', File [3])])])])]"

definition demo_world :: world where
  "demo_world = \<lparr>os_now = 7200 * second, os_rng = replicate 400 7, os_root = demo_tree,
     os_fault = (\<lambda>_ _. NoFault), sh_log = [],
     db_rows = [(id_a, demo_row 0 3600), (id_b, demo_row 3600 90000)],
     db_fault = (\<lambda>_. None), data_dir = [''data''], wipe_time = 0\<rparr>"

lemma demo_ids: "case_id id_a" "case_id id_b" "plain_comp id_a" "plain_comp id_b" "id_a \<noteq> id_b" "id_a < id_b"
proof -
  show "case_id id_a" "case_id id_b"
    by (auto simp: case_id_def id_a_def id_b_def lower_hex_char_def ordc_def list_all_set)
  then show "plain_comp id_a" "plain_comp id_b" by (simp_all add: case_id_plain)
  show "id_a \<noteq> id_b" by (simp add: id_a_def id_b_def)
  show "id_a < id_b" by (simp add: id_a_def id_b_def eval_nat_numeral less_char_def)
qed

lemma demo_fields [simp]:
  "db_rows demo_world = [(id_a, demo_row 0 3600), (id_b, demo_row 3600 90000)]"
  "db_fault demo_world st = None" "data_dir demo_world = [''data'']" "os_now demo_world = 7200 * second"
  "os_root demo_world = demo_tree" "no_faults demo_world" "length (os_rng demo_world) = 400"
  by (simp_all add: demo_world_def no_faults_def)

lemma demo_plain: "plain_dir demo_world"
  by (simp add: plain_dir_def plain_comp_def slash_def)

lemma demo_inv: "store_inv demo_world"
  using demo_ids by (simp add: store_inv_def demo_plain demo_tree_def)

lemma demo_paths:
  "caseDir demo_world id_a = [''data'', ''blob'', id_a]" "caseDir demo_world id_b = [''data'', ''blob'', id_b]"
  "blobPath demo_world id_b = [''data'', ''blob'', id_b, ''case-data.tar.age'']"
  by (simp_all add: caseDir_plain blobPath_plain demo_plain demo_ids)

lemma demo_expired: "expired_ids demo_world = [id_a]"
  by (simp add: expired_ids_def demo_row_def unix_seconds_def second_def)

theorem GC_spares_unexpired_witness:
  "\<exists>ne w'. GC demo_world = (ne, w') \<and> map_of (db_rows w') id_b = Some (demo_row 3600 90000)"
proof -
  obtain n e w' where gc: "GC demo_world = ((n, e), w')" by (metis prod.exhaust)
  have "map_of (db_rows demo_world) id_b = Some (demo_row 3600 90000)" using demo_ids by simp
  moreover have "unix_seconds (os_now demo_world) \<le> row_expires (demo_row 3600 90000)"
    by (simp add: demo_row_def unix_seconds_def second_def)
  ultimately show ?thesis using GC_spares_unexpired [OF demo_inv gc] gc by blast
qed

theorem GC_complete_witness:
  "\<exists>w'. GC demo_world = ((1, None), w') \<and> db_rows w' = [(id_b, demo_row 3600 90000)]"
proof -
  have "rd (os_root demo_world) (caseDir demo_world i) = None" if "i \<in> set (expired_ids demo_world)" for i
    using that by (simp add: demo_expired demo_paths demo_tree_def)
  from GC_complete [OF demo_inv] this show ?thesis
    by (auto simp: demo_expired demo_row_def unix_seconds_def second_def)
qed

theorem CreateCase_atomic_witness:
  "\<exists>res w'. CreateCase [5] [6] [7] (60 * second) [9] demo_world = (res, w')
     \<and> rd (os_root w') (blobPath demo_world id_b) = Some [3]"
proof -
  obtain res w' where c: "CreateCase [5] [6] [7] (60 * second) [9] demo_world = (res, w')" by fastforce
  have "map_of (db_rows demo_world) id_b \<noteq> None"
    "prefix (caseDir demo_world id_b) (blobPath demo_world id_b)"
    using demo_ids by (simp_all add: demo_paths)
  then have "rd (os_root w') (blobPath demo_world id_b) = rd demo_tree (blobPath demo_world id_b)"
    using CreateCase_atomic [OF demo_inv _ c] by auto
  also have "\<dots> = Some [3]"
    using demo_ids by (simp add: demo_paths demo_tree_def rd_def)
  finally show ?thesis using c by blast
qed

lemma demo_blob:
  "node_at [''data'', ''blob''] demo_tree = Some (Dir [(id_a, Dir [(''case-data.tar.age'', File [1, 2])]),
      (id_b, Dir [(''case-data.tar.age'', File [3])])])"
  by (simp add: demo_tree_def)

theorem Wipe_complete_witness:
  "\<exists>w'. Wipe demo_world = (None, w') \<and> db_rows w' = []
     \<and> node_at [''data'', ''blob''] (os_root w') = Some (Dir [])"
  using Wipe_complete [OF demo_inv, of "[(id_a, Dir [(''case-data.tar.age'', File [1, 2])]),
      (id_b, Dir [(''case-data.tar.age'', File [3])])]"] demo_ids
  by (auto simp: demo_blob)

theorem case_durable_witness:
  "\<exists>w'. store_run demo_world [SGC] w'
     \<and> rd (os_root w') (blobPath w' id_b) = Some [3] \<and> map_of (db_rows w') id_b \<noteq> None"
proof -
  obtain n e w' where gc: "GC demo_world = ((n, e), w')" by (metis prod.exhaust)
  then have run: "store_run demo_world [SGC] w'"
    by (intro runs_one store_step.collect)
  have row: "map_of (db_rows demo_world) id_b = Some (demo_row 3600 90000)" using demo_ids by simp
  have t: "unix_seconds (os_now w') \<le> row_expires (demo_row 3600 90000)"
    using GC_spec [OF demo_inv gc] by (simp add: demo_row_def unix_seconds_def second_def)
  have "rd (os_root demo_world) (blobPath demo_world id_b) = Some [3]"
    using demo_ids by (simp add: demo_paths demo_tree_def rd_def)
  with case_durable [OF run demo_inv _ row t] run show ?thesis by auto
qed


end
