(* ===== verification/Http_Demo.thy ===== *)
theory Http_Demo
  imports Accept Access Store_Demo Mime
begin

text \<open>
  A concrete application and server, with one case whose code is known, and the instances of the
  properties of requests on it.
\<close>

definition demo_code :: string where "demo_code = ''code''"

definition demo_app :: "(bytes, bytes) app" where
  "demo_app = \<lparr>app_Prims = demo_prims, app_Codecs = demo_codecs,
     app_Config = set_key (fst (age_Keypair demo_prims (replicate 32 0))) DefaultConfig
       \<lparr>cfg_Security := (cfg_Security DefaultConfig)\<lparr>sec_PoW := \<lparr>pow_Enabled = False, pow_HashChainCost = 0\<rparr>\<rparr>\<rparr>,
     app_Secrets = SetAdminPassword demo_prims ''pw''
       (demo_secrets\<lparr>sx_TOTPSecret := ''111'', sx_TOTPSecretDuress := ''222''\<rparr>),
     app_Templates = loadTemplates (\<lambda>n d. Some n), app_CSS = Some ''body''\<rparr>"

definition code_row :: case_row where
  "code_row = \<lparr>row_lookup = CaseCodeLookup (sx_LookupKey (app_Secrets demo_app)) demo_code,
     row_hash = HashCode demo_prims demo_code (replicate 16 2), row_salt = replicate 16 2,
     row_created = 0, row_expires = 90000, row_read = 0, row_reply = 0\<rparr>"

definition demo_server :: server where
  "demo_server = \<lparr>os_now = 7200 * second, os_rng = replicate 400 7, os_root = demo_tree,
     os_fault = (\<lambda>_ _. NoFault), sh_log = [], db_rows = [(id_b, code_row)],
     db_fault = (\<lambda>_. None), data_dir = [''data''], wipe_time = 3000000000,
     sv_sessions = \<lparr>ss_sessions = [(''s'', \<lparr>se_Token = ''s'', se_CreatedAt = 7000 * second,
        se_LastSeen = 7000 * second\<rparr>)], ss_csrfKey = [1]\<rparr>\<rparr>"

definition demo_request :: "string \<Rightarrow> string \<Rightarrow> (string \<times> string) list \<Rightarrow> request" where
  "demo_request m p ps = \<lparr>rq_Method = m, rq_EscapedPath = p, rq_Host = ''x.onion'', rq_TLS = False,
     rq_cookies = [(AnonCSRFCookie, ''t'')], rq_query = [],
     rq_body = UrlBody ((CSRFFormField, ''t'') # ps), rq_body_len = 100\<rparr>"

lemma demo_server_fields [simp]:
  "db_rows demo_server = [(id_b, code_row)]" "db_fault demo_server st = None"
  "data_dir demo_server = [''data'']" "os_now demo_server = 7200 * second"
  "os_root demo_server = demo_tree" "no_faults demo_server" "os_rng demo_server = replicate 400 7"
  by (simp_all add: demo_server_def no_faults_def)

lemma demo_server_inv: "store_inv demo_server" "plain_dir demo_server" "healthy demo_server"
  using demo_ids by (simp_all add: store_inv_def demo_tree_def healthy_def plain_dir_def plain_comp_def slash_def)

lemma demo_form:
  "m = ''POST'' \<Longrightarrow> form_value (demo_request m p ps) k
     = (case map_of ((CSRFFormField, ''t'') # ps) k of None \<Rightarrow> [] | Some v \<Rightarrow> v)"
  by (simp add: form_value_def FormValue_def parse_form_def demo_request_def body_method_def)

lemma demo_request_fields [simp]:
  "rq_Method (demo_request m p ps) = m" "readAnonCSRFCookie (demo_request m p ps) = ''t''"
  "rq_EscapedPath (demo_request m p ps) = p"
  by (simp_all add: demo_request_def readAnonCSRFCookie_def rq_Cookie_def)

lemma demo_csrf: "m = ''POST'' \<Longrightarrow> VerifyAnonCSRF ''t'' (form_value (demo_request m p ps) CSRFFormField)"
  by (simp add: demo_form VerifyAnonCSRF_iff)

lemma demo_login: "CheckAdminPassword demo_prims (app_Secrets demo_app) ''pw''"
  by (simp add: demo_app_def CheckAdminPassword_Set)

section \<open>Submission\<close>

definition demo_submit :: request where
  "demo_submit = demo_request ''POST'' ''/submit'' [(''body'', ''x'')]"

theorem submit_stores_case_witness:
  "\<exists>rs' sv'. processSubmit demo_app demo_submit new_response demo_server = (rs', sv')
     \<and> (db_rows sv' = [(id_b, code_row)] \<or> (\<exists>i r. db_rows sv' = [(id_b, code_row), (i, r)] \<and> i \<noteq> id_b))"
proof -
  obtain rs' sv' where r: "processSubmit demo_app demo_submit new_response demo_server = (rs', sv')" by fastforce
  have k: "age_Keypair (app_Prims demo_app) (replicate 32 0)
      = (recv_PublicKey (cfg_Receiver (app_Config demo_app)), snd (age_Keypair demo_prims (replicate 32 0)))"
    by (simp add: demo_app_def set_key_def)
  have p: "age_correct (app_Prims demo_app)" using demo_age by (simp add: demo_app_def)
  from submit_stores_case [OF demo_server_inv(1) p _ k r] show ?thesis
    using r by (auto split: if_splits)
qed

theorem submit_needs_tokens_witness:
  "snd (processSubmit demo_app (demo_submit\<lparr>rq_cookies := []\<rparr>) new_response demo_server)
     = FixedWaitUntil (7202 * second) demo_server"
proof -
  let ?rq = "demo_submit\<lparr>rq_cookies := []\<rparr>"
  obtain rs' sv' where r: "processSubmit demo_app ?rq new_response demo_server = (rs', sv')" by fastforce
  have "readAnonCSRFCookie ?rq = []" by (simp add: readAnonCSRFCookie_def rq_Cookie_def)
  with submit_needs_tokens [OF r] r show ?thesis by (simp add: algebra_simps)
qed

definition fresh_server :: server where
  "fresh_server = demo_server\<lparr>os_rng := replicate 400 0, db_rows := []\<rparr>"

definition fresh_code :: string where
  "fresh_code = ''aaa aaa aaa aaa aaa aaa aaa''"

definition fresh_id :: string where "fresh_id = replicate 16 (CHR ''0'')"

lemma fresh_ids: "fresh_id \<noteq> id_a" "fresh_id \<noteq> id_b" "case_id fresh_id"
  by (auto simp: fresh_id_def id_a_def id_b_def case_id_def lower_hex_char_def ordc_def list_all_set)

lemma hex_zeros: "hex_EncodeToString (replicate n 0) = replicate (2 * n) (CHR ''0'')"
  using char_of_ordc [of "CHR ''0''"] by (induction n) (simp_all add: hex_digit_def ordc_def)

lemma fresh_ready: "ready fresh_server fresh_id"
proof -
  have hex: "hex_EncodeToString (replicate 8 0) = fresh_id"
    by (simp add: fresh_id_def hex_zeros)
  have pd: "plain_dir fresh_server" by (simp add: fresh_server_def plain_dir_def plain_comp_def slash_def)
  have inv: "store_inv fresh_server"
    using demo_server_inv(1) by (simp add: fresh_server_def store_inv_def plain_dir_def)
  have "caseDir fresh_server fresh_id = [''data'', ''blob'', fresh_id]"
    by (simp add: caseDir_plain [OF pd case_id_plain [OF fresh_ids(3)]]) (simp add: fresh_server_def)
  then show ?thesis
    using inv demo_server_inv(3) hex fresh_ids
    by (simp add: ready_def healthy_def no_faults_def fresh_server_def demo_tree_def is_dir_def)
qed

lemma fresh_gen: "GenerateCode demo_prims fresh_server = (Inr fresh_code, fresh_server\<lparr>os_rng := drop 14 (os_rng fresh_server)\<rparr>)"
proof -
  have "bip39_words demo_prims ! 0 = ''aaa''"
    using char_of_ordc [of "CHR ''a''"] by (simp add: ordc_def) (simp add: demo_prims_def demo_word_def del: upt_Suc)
  then have "code_word_list demo_prims (replicate 400 0) = replicate 7 ''aaa''"
    by (intro nth_equalityI) (simp_all add: code_word_list_def code_index_def)
  then have "str_Join (code_word_list demo_prims (os_rng fresh_server)) '' '' = fresh_code"
    by (simp add: fresh_server_def fresh_code_def eval_nat_numeral)
  then show ?thesis using GenerateCode_eq [OF demo_wordlist, of fresh_server] by (simp add: fresh_server_def)
qed

lemma fresh_form: "sent_form demo_app demo_submit
    = \<lparr>fm_Form = [(CSRFFormField, ''t''), (''body'', ''x'')], fm_Files = None\<rparr>"
  by (simp add: sent_form_def parse_form_def demo_submit_def demo_request_def body_method_def
      demo_app_def set_key_def max_body_def i64_id DefaultConfig_def Let_def)

lemma demo_cookie: "readAnonCSRFCookie demo_submit = ''t''"
  by (simp add: demo_submit_def)

lemma demo_no_pow: "\<not> pow_Enabled (sec_PoW (cfg_Security (app_Config demo_app)))"
  by (simp add: demo_app_def set_key_def)

lemma trim_plain [simp]: "TrimSpace ''x'' = ''x''"
  by (rule TrimSpace_plain) (simp_all add: space_char_def ordc_def)

theorem submission_accepted_witness:
  "\<exists>rs' sv'. processSubmit demo_app demo_submit new_response fresh_server = (rs', sv')
     \<and> reply_lookup demo_app fresh_code sv' = \<lparr>rv_Status = ''verified'', rv_CaseID = fresh_id, rv_ReplyText = []\<rparr>"
proof -
  obtain rs' sv' where r: "processSubmit demo_app demo_submit new_response fresh_server = (rs', sv')" by fastforce
  have gen: "GenerateCode (app_Prims demo_app) fresh_server
      = (Inr fresh_code, fresh_server\<lparr>os_rng := drop 14 (os_rng fresh_server)\<rparr>)"
    using fresh_gen by (simp add: demo_app_def)
  have pk: "age_ParseRecipient (app_Prims demo_app) (recv_PublicKey (cfg_Receiver (app_Config demo_app)))"
    by (simp add: demo_app_def set_key_def demo_prims_def)
  have adm: "admitted demo_app demo_submit fresh_server"
    by (simp add: admitted_def fresh_form honeypot_hit_def pow_refused_def FormValue_def demo_cookie demo_no_pow
        VerifyAnonCSRF_iff CSRFFormField_def)
  have vals: "collect_fields (sent_form demo_app demo_submit) (cfg_Fields (app_Config demo_app)) [] = Inr [(''body'', ''x'')]"
    unfolding fresh_form by (simp add: demo_app_def set_key_def DefaultConfig_def default_fields_def new_field_def
        FormValue_def CSRFFormField_def Let_def)
  have atts: "form_attachments demo_app (sent_form demo_app demo_submit) = Inr []"
    unfolding fresh_form by (simp add: form_attachments_def Let_def)
  let ?e = "\<lparr>env_Code = fresh_code, env_Fields = [(''body'', ''x'')], env_Attachments = [], env_ReceivedAt = os_now fresh_server\<rparr>"
  have "length (json_meta (submission_meta ?e)) < 8 ^ 11"
    by (simp add: json_meta_def submission_meta_def json_eval fresh_code_def fresh_server_def)
  then have "packable ?e" by (simp add: packable_def)
  from submission_accepted [OF fresh_ready gen pk adm vals atts this _ r] r show ?thesis
    by (auto simp: fresh_server_def)
qed

section \<open>Replies\<close>

definition demo_answer :: request where
  "demo_answer = demo_request ''POST'' (''/admin/reply/'' @ id_b) [(''case_code'', demo_code), (''reply_body'', ''x'')]"

definition demo_visit :: request where
  "demo_visit = demo_request ''POST'' ''/reply'' [(''code'', demo_code)]"

lemma trim_code [simp]: "TrimSpace demo_code = demo_code"
  unfolding demo_code_def by (rule TrimSpace_plain) (auto simp: space_char_def ordc_def)

lemma unescape_plain: "CHR 0x25 \<notin> set s \<Longrightarrow> pathUnescape s = s"
  by (induction s rule: pathUnescape.induct) auto

lemma demo_path: "path_id ''/admin/reply/'' demo_answer = id_b"
proof -
  have "pathUnescape (''/admin/reply/'' @ id_b) = ''/admin/reply/'' @ id_b"
    by (rule unescape_plain) (simp add: id_b_def)
  moreover have "Base id_b = id_b" using demo_ids by (rule_tac Base_plain)
  moreover have "TrimPrefix (''/admin/reply/'' @ id_b) ''/admin/reply/'' = id_b" by (rule TrimPrefix_append)
  ultimately show ?thesis unfolding path_id_def URL_Path_def demo_answer_def by simp
qed

lemma demo_finds: "FindCaseByCode (app_Prims demo_app) demo_code
    (CaseCodeLookup (sx_LookupKey (app_Secrets demo_app)) demo_code) demo_server = Inr id_b"
  by (simp add: FindCaseByCode_def code_row_def VerifyCode_iff demo_app_def)

theorem reply_reaches_visitor_witness:
  "\<exists>rs1 sv1. handleAdminReply demo_app demo_answer new_response demo_server = (rs1, sv1)
     \<and> fst (handleReply demo_app demo_visit new_response sv1) = renderPublic demo_app demo_visit ''reply''
         (VReply \<lparr>rv_Status = ''has-reply'', rv_CaseID = id_b, rv_ReplyText = ''x''\<rparr>) [] [] new_response"
proof -
  obtain rs1 sv1 where r: "handleAdminReply demo_app demo_answer new_response demo_server = (rs1, sv1)" by fastforce
  have p: "aead_correct (app_Prims demo_app)" using demo_aead by (simp add: demo_app_def)
  have dirs: "is_dir (os_root demo_server) (caseDir demo_server id_b)"
    "\<not> is_dir (os_root demo_server) (replyPath demo_server id_b)"
    using demo_ids demo_server_inv(2)
    by (simp_all add: caseDir_plain replyPath_plain demo_tree_def is_dir_def)
  have f: "TrimSpace (form_value demo_answer ''case_code'') = demo_code"
    "TrimSpace (form_value demo_answer ''reply_body'') = ''x''"
    "TrimSpace (form_value demo_visit ''code'') = demo_code"
    by (simp_all add: demo_answer_def demo_visit_def demo_form CSRFFormField_def)
  have v: "VerifyAnonCSRF (readAnonCSRFCookie demo_visit) (form_value demo_visit CSRFFormField)"
    unfolding demo_visit_def by (simp add: demo_csrf)
  have m: "rq_Method demo_answer = ''POST''" "rq_Method demo_visit = ''POST''" "demo_code \<noteq> []" "''x'' \<noteq> []"
    by (simp_all add: demo_answer_def demo_visit_def demo_code_def)
  have e: "24 \<le> length (os_rng demo_server)" by simp
  from reply_reaches_visitor [OF p demo_server_inv(1,3) e demo_finds dirs m(1) demo_path f(1,2) m(3,4) r m(2) f(3) v]
    r show ?thesis by blast
qed

section \<open>Every request\<close>

definition demo_mux :: mux_lib where
  "demo_mux = \<lparr>mux_Permanent = False, mux_URL = (\<lambda>rq p. p), mux_Body = (\<lambda>rq p. [])\<rparr>"

definition demo_home :: request where
  "demo_home = demo_request ''GET'' ''/'' []"

lemma home_clean: "cleanPath ''/'' = ''/''"
  by (simp add: cleanPath_def Clean_def clean_comps_def slash_def)

lemma demo_home_page:
  "serve demo_mux demo_app demo_home demo_server =
     (renderPublic demo_app demo_home ''index'' VNone [] []
        (foldl (\<lambda>r (k, v). set_header k v r) new_response security_headers), demo_server)"
  by (simp add: serve_def withSecurityHeaders_def mux_ServeHTTP_def mux_moved_def demo_home_def home_clean
      path_segments_def slash_def trees_def Routes_def handleIndex_def URL_Path_def Let_def)

theorem pages_padded_witness:
  "\<exists>rs. fst (serve demo_mux demo_app demo_home demo_server) = rs \<and> rs_status rs = 200
     \<and> rs_body rs \<noteq> [] \<and> 4096 dvd length (rs_body rs)"
proof -
  let ?rs = "fst (serve demo_mux demo_app demo_home demo_server)"
  obtain b where b: "pad_body ''index'' = Some b" "4096 dvd length b" using pad_body_total by blast
  have t: "map_of (app_Templates demo_app) ''index'' = Some (\<lambda>d. Some ''index'')"
    by (simp add: demo_app_def loadTemplates_def template_names_def)
  have rs: "?rs = write_page (Some ''index'') (foldl (\<lambda>r (k, v). set_header k v r) new_response security_headers)"
    by (simp add: demo_home_page renderPublic_def t Let_def)
  have s: "rs_status ?rs = 200" "map_of (rs_headers ?rs) ''Content-Type'' = Some ''text/html; charset=utf-8''"
    by (simp_all add: rs write_page_def Let_def foldl_headers new_response_def)
      (simp_all add: set_header_def map_of_al_put)
  obtain sv' where "serve demo_mux demo_app demo_home demo_server = (?rs, sv')" by (metis prod.collapse)
  from pages_padded [OF this s] have "4096 dvd length (rs_body ?rs)" .
  moreover have "rs_body ?rs \<noteq> []"
    using pad_body_spec [of "''index''"] b(1) by (auto simp: rs write_page_def Let_def)
  ultimately show ?thesis using s by blast
qed

theorem requests_keep_cases_witness:
  "\<exists>sv'. snd (serve demo_mux demo_app demo_home demo_server) = sv'
     \<and> (\<exists>r'. map_of (db_rows sv') id_b = Some r' \<and> row_hash r' = row_hash code_row)"
proof -
  obtain rs sv' where s: "serve demo_mux demo_app demo_home demo_server = (rs, sv')" by fastforce
  have t: "target demo_home \<noteq> [''admin'', ''login'']"
    by (simp add: target_def path_segments_def demo_home_def slash_def)
  have "map_of (db_rows demo_server) id_b = Some code_row" by simp
  with requests_keep_cases [OF demo_server_inv(1) _ s] t obtain r' where
    "map_of (db_rows sv') id_b = Some r'" "r' = code_row\<lparr>row_read := row_read r', row_reply := row_reply r'\<rparr>"
    by blast
  then show ?thesis using s by (metis (no_types, lifting) case_row.select_convs(2) case_row.surjective case_row.update_convs(6,7) snd_conv)
qed

section \<open>Access\<close>

definition demo_inbox :: request where "demo_inbox = demo_request ''GET'' ''/admin/inbox'' []"

lemma demo_no_session: "readSessionCookie (demo_request m p ps) = []"
  by (simp add: readSessionCookie_def rq_Cookie_def demo_request_def SessionCookie_def AnonCSRFCookie_def)

lemma demo_target: "slash \<notin> set s \<Longrightarrow> slash \<notin> set t \<Longrightarrow> CHR 0x25 \<notin> set s \<Longrightarrow> CHR 0x25 \<notin> set t \<Longrightarrow>
    target (demo_request m (slash # s @ slash # t) ps) = [s, t]"
  by (simp add: target_def path_segments_def split_on_append split_on_id unescape_plain)

theorem dashboard_closed_witness:
  "\<exists>rs. rs_status rs \<in> {301, 303, 307, 403} \<and> fst (serve demo_mux demo_app demo_inbox demo_server) = rs
     \<and> fst (serve demo_mux demo_app demo_inbox (demo_server\<lparr>db_rows := []\<rparr>)) = rs"
proof -
  have "target demo_inbox = [''admin'', ''inbox'']"
    using demo_target [of "''admin''" "''inbox''"] by (simp add: demo_inbox_def slash_def)
  then have d: "dashboard (target demo_inbox)" by (simp add: dashboard_def)
  have e: "\<not> entitled demo_inbox demo_server"
    by (simp add: entitled_def demo_inbox_def demo_no_session Touch_def)
  from dashboard_closed [OF d e, of demo_mux demo_app] obtain rs where rs: "rs_status rs \<in> {301, 303, 307, 403}"
    "\<And>sv2 :: server. sv_sessions sv2 = sv_sessions demo_server \<Longrightarrow> os_now sv2 = os_now demo_server \<Longrightarrow>
          fst (serve demo_mux demo_app demo_inbox sv2) = rs" by blast
  from rs(2) [of demo_server] rs(2) [of "demo_server\<lparr>db_rows := []\<rparr>"] rs(1) show ?thesis by simp
qed

definition demo_signin :: "string \<Rightarrow> string \<Rightarrow> request" where
  "demo_signin pw c = demo_request ''POST'' ''/admin/login'' [(''password'', pw), (''totp'', c)]"

lemma demo_signin_fields:
  "rq_Method (demo_signin pw c) = ''POST''" "form_value (demo_signin pw c) ''password'' = pw"
  "form_value (demo_signin pw c) ''totp'' = c"
  "VerifyAnonCSRF (readAnonCSRFCookie (demo_signin pw c)) (form_value (demo_signin pw c) CSRFFormField)"
  by (simp_all add: demo_signin_def demo_form CSRFFormField_def VerifyAnonCSRF_iff)

lemma demo_app_secrets:
  "app_Prims demo_app = demo_prims" "sx_TOTPSecretDuress (app_Secrets demo_app) = ''222''"
  "sx_TOTPSecret (app_Secrets demo_app) = ''111''"
  "CheckAdminPassword demo_prims (app_Secrets demo_app) pw \<longleftrightarrow> take 32 (bytes_of pw @ replicate 32 0) = take 32 (bytes_of ''pw'' @ replicate 32 0)"
  by (simp_all add: demo_app_def SetAdminPassword_def demo_secrets_def empty_secrets_def
      CheckAdminPassword_def ConstantTimeCompare_eq demo_prims_def)

theorem login_opens_session_iff_witness:
  "\<exists>rs' sv' tok. handleAdminLogin demo_app (demo_signin ''pw'' ''111'') new_response demo_server = (rs', sv')
     \<and> rs' = http_Redirect (demo_signin ''pw'' ''111'') ''/admin/inbox''
           (setSessionCookie (demo_signin ''pw'' ''111'') tok new_response)
     \<and> ss_get (sv_sessions sv') tok \<noteq> None"
proof -
  let ?rq = "demo_signin ''pw'' ''111''" and ?tok = "hex_EncodeToString (take 32 (os_rng demo_server))"
  obtain rs' sv' where r: "handleAdminLogin demo_app ?rq new_response demo_server = (rs', sv')" by fastforce
  have v: "totp_Validate demo_prims t c s \<longleftrightarrow> c = s" for t c s by (simp add: demo_prims_def)
  have "right_login demo_app ?rq (os_now demo_server) \<and> \<not> duress_login demo_app ?rq demo_server
      \<and> 32 \<le> length (os_rng demo_server)"
    using demo_signin_fields(4) [of "''pw''" "''111''"]
    by (simp add: right_login_def duress_login_def demo_signin_fields(1-3) demo_app_secrets v)
  with login_opens_session_iff [OF r refl] demo_signin_fields(1)
  have "rs' = http_Redirect ?rq ''/admin/inbox'' (setSessionCookie ?rq ?tok new_response)"
    "sv_sessions sv' = ss_put ?tok \<lparr>se_Token = ?tok, se_CreatedAt = os_now demo_server,
        se_LastSeen = os_now demo_server\<rparr> (sv_sessions demo_server)"
    by (simp_all split: if_splits)
  moreover from this(2) have "ss_get (sv_sessions sv') ?tok \<noteq> None" by simp
  ultimately show ?thesis using r by blast
qed


definition demo_download :: request where
  "demo_download = demo_request ''GET'' (''/admin/download/'' @ id_b) []"

lemma demo_download_id: "path_id ''/admin/download/'' demo_download = id_b"
proof -
  have "pathUnescape (''/admin/download/'' @ id_b) = ''/admin/download/'' @ id_b"
    by (rule unescape_plain) (simp add: id_b_def)
  moreover have "Base id_b = id_b" using demo_ids by (rule_tac Base_plain)
  moreover have "TrimPrefix (''/admin/download/'' @ id_b) ''/admin/download/'' = id_b" by (rule TrimPrefix_append)
  ultimately show ?thesis unfolding path_id_def URL_Path_def demo_download_def by simp
qed

theorem download_confined_witness:
  "\<exists>rs' sv' i. handleAdminDownload demo_app demo_download new_response demo_server = (rs', sv')
     \<and> rs_status rs' = 200 \<and> case_id i"
proof -
  obtain rs' sv' where r: "handleAdminDownload demo_app demo_download new_response demo_server = (rs', sv')" by fastforce
  have "blobPath demo_server id_b = [''data'', ''blob'', id_b, ''case-data.tar.age'']"
    using demo_ids demo_server_inv(2) by (simp add: blobPath_plain caseDir_plain)
  then have "ReadBlob id_b demo_server = Inr [3]"
    using demo_ids by (simp add: ReadBlob_def os_ReadFile_def demo_server_def demo_tree_def)
  then have s: "rs_status rs' = 200"
    using r demo_ids(2)
    by (auto simp: handleAdminDownload_def demo_download_id validCaseID_case_id Let_def new_response_def set_header_def)
  from download_confined [OF demo_server_inv(2) _ r s] r s show ?thesis
    by (auto simp: new_response_def)
qed

end
