(* ===== verification/Server_Demo.thy ===== *)
theory Server_Demo
  imports Server Http_Demo
begin

text \<open>
  A data directory from which the server starts, and the instances of the properties of its life.
\<close>

definition run_tree :: "bytes \<Rightarrow> node" where
  "run_tree blob = Dir [(''blob'', Dir [(id_b, Dir [(''case-data.tar.age'', File [3])])]),
     (''config'', Dir [(''kakekomi.yaml'', File (bytes_of ''p0'')),
        (''pubkey.lock'', File (bytes_of (PubkeyFingerprint ''p0'' @ [CHR 0x0A]))),
        (''secrets.age'', File blob), (''secrets.salt'', File [1, 2])])]"

definition run_world :: "bytes \<Rightarrow> world" where
  "run_world blob = \<lparr>os_now = 7200 * second, os_rng = replicate 400 7, os_root = run_tree blob,
     os_fault = (\<lambda>_ _. NoFault), sh_log = [], db_rows = [(id_b, demo_row 3600 90000)],
     db_fault = (\<lambda>_. None), data_dir = [], wipe_time = 0\<rparr>"

definition demo_env :: "(bytes, bytes) run_env" where
  "demo_env = \<lparr>re_Prims = demo_prims, re_Codecs = demo_codecs, re_Yaml = demo_yaml [],
     re_Exec = (\<lambda>n d. Some n), re_CSS = None, re_Dial = (\<lambda>_ _. Inl (Err ''refused''))\<rparr>"

definition demo_line :: string where "demo_line = ''pw'' @ [newline]"

lemma run_inv: "store_inv (run_world blob)"
  using demo_ids by (simp add: store_inv_def run_world_def run_tree_def plain_dir_def less_char_def)

lemma run_loads: "LoadConfig (demo_yaml []) [] (run_world blob) = Inr (demo_config [])"
  using demo_config_ok [of "[]"]
  by (auto simp: LoadConfig_ok ReadFile_iff run_world_def run_tree_def config_paths [OF demo_dir]
      demo_lock_paths rd_def demo_yaml_def Trim_line)

lemma run_secrets: "\<exists>blob. LoadSecrets demo_prims [] ''pw'' (run_world blob) = Inr demo_secrets"
proof -
  let ?k = "DeriveMasterKey demo_prims ''pw'' (sx_MasterSalt demo_secrets)"
  have "length ?k = 32" using demo_argon2 by (simp add: DeriveMasterKey_def argon2_sized_def)
  then obtain blob w1 where e: "EncryptSymmetric demo_prims ?k (Marshal_secrets demo_secrets) demo_os = (Inr blob, w1)"
    by (simp add: EncryptSymmetric_def readRandom_def demo_os_def Let_def del: drop_replicate)
  have "plain_totp demo_secrets"
    by (simp add: plain_totp_def demo_secrets_def empty_secrets_def json_plain_def ordc_def)
  moreover have "rd (os_root (run_world blob)) (secretsPath []) = Some blob"
    "rd (os_root (run_world blob)) (saltPath []) = Some (sx_MasterSalt demo_secrets)"
    "os_fault (run_world blob) OpRead p = NoFault" for p
    by (simp_all add: secrets_paths [OF demo_dir] run_world_def run_tree_def rd_def demo_secrets_def empty_secrets_def)
  ultimately have "LoadSecrets demo_prims [] ''pw'' (run_world blob) = Inr demo_secrets"
    using save_load [OF demo_aead _ e] by blast
  then show ?thesis by blast
qed

lemma run_opens: "fst (OpenStore [] (run_world blob)) = None"
  by (simp add: OpenStore_def os_MkdirAll_def db_exec_def run_world_def run_tree_def join_comps_plain plain_comp_def slash_def)

lemma demo_starts:
  "\<exists>blob rn. Run demo_env [] ''127.0.0.1:8080'' True demo_line (run_world blob) = Inr rn"
proof -
  obtain blob where b: "LoadSecrets demo_prims [] ''pw'' (run_world blob) = Inr demo_secrets"
    using run_secrets by blast
  have "fst (readPassphrase demo_line) = Inr ''pw''"
    by (simp add: readPassphrase_def ReadString_def demo_line_def newline_def TrimRight_def)
  with b run_loads [of blob] run_opens [of blob]
  have "\<exists>rn. Run demo_env [] ''127.0.0.1:8080'' True demo_line (run_world blob) = Inr rn"
    by (cases "OpenStore [] (run_world blob)") (simp add: Run_def demo_env_def start_tor_def)
  then show ?thesis by blast
qed

theorem case_outlives_restart_witness:
  "\<exists>blob rn sv. Run demo_env [] ''127.0.0.1:8080'' True demo_line (run_world blob) = Inr rn
     \<and> server_run demo_mux (rn_App rn) (rn_State rn) [EvSweep] sv
     \<and> (\<exists>r'. map_of (db_rows sv) id_b = Some r' \<and> row_expires r' = 90000)"
proof -
  obtain blob rn where r: "Run demo_env [] ''127.0.0.1:8080'' True demo_line (run_world blob) = Inr rn"
    using demo_starts by blast
  obtain ne sv where gc: "GC (rn_State rn) = (ne, sv)" by fastforce
  have run: "server_run demo_mux (rn_App rn) (rn_State rn) [EvSweep] sv"
    by (rule runs_one [where step = "server_step demo_mux (rn_App rn)"]) (rule server_step.sweep [OF gc])
  have dd: "data_dir (run_world blob) = []" by (simp add: run_world_def)
  note st = Run_keeps [of demo_env "run_world blob", unfolded dd, OF r run_inv]
  with gc_keeps [of "rn_State rn" ne sv] gc have "os_now sv = 7200 * second" by (simp add: run_world_def)
  then have t: "unix_seconds (os_now sv) \<le> row_expires (demo_row 3600 90000)"
    by (simp add: demo_row_def unix_seconds_def second_def)
  have "map_of (db_rows (run_world blob)) id_b = Some (demo_row 3600 90000)" by (simp add: run_world_def)
  from case_outlives_restart [of demo_env "run_world blob", unfolded dd, OF r run_inv run _ this t]
  obtain r' where r': "map_of (db_rows sv) id_b = Some r'"
    "r' = (demo_row 3600 90000)\<lparr>row_read := row_read r', row_reply := row_reply r'\<rparr>"
    by (auto simp: spares_def)
  have "row_expires r' = row_expires ((demo_row 3600 90000)\<lparr>row_read := row_read r', row_reply := row_reply r'\<rparr>)"
    by (rule arg_cong [OF r'(2)])
  then have "row_expires r' = 90000" by (simp add: demo_row_def)
  with r'(1) r run show ?thesis by auto
qed

end
