(* ===== verification/Cli_Demo.thy ===== *)
theory Cli_Demo
  imports Cli Server_Demo
begin

text \<open>
  A session at the command line: \<open>init\<close> on an empty directory, then \<open>run\<close> with the passphrase that
  was entered, and the instances of the properties of the programs on it.
\<close>

definition fresh_world :: world where
  "fresh_world = \<lparr>os_now = 7200 * second, os_rng = replicate 400 7, os_root = Dir [],
     os_fault = (\<lambda>_ _. NoFault), sh_log = [], db_rows = [], db_fault = (\<lambda>_. None), data_dir = [], wipe_time = 0\<rparr>"

definition demo_machine :: machine where
  "demo_machine = \<lparr>mc_GOOS = ''linux'', mc_Prctl = (\<lambda>_. None),
     mc_Process = \<lparr>pr_Dumpable = True, pr_NoNewPrivs = False, pr_Transport = True, pr_Log = []\<rparr>\<rparr>"

definition demo_input :: string where
  "demo_input = ''correct horse battery'' @ [newline] @ ''correct horse battery'' @ [newline]
     @ ''admin password'' @ [newline]"

lemma demo_prompts:
  "promptPassphrase demo_input = (Inr ''correct horse battery'', ''admin password'' @ [newline])"
  "promptOnce (''admin password'' @ [newline]) = (Inr ''admin password'', [])"
proof -
  have "promptOnce demo_input = (Inr ''correct horse battery'',
      ''correct horse battery'' @ [newline] @ ''admin password'' @ [newline])"
    "promptOnce (''correct horse battery'' @ [newline] @ ''admin password'' @ [newline])
      = (Inr ''correct horse battery'', ''admin password'' @ [newline])"
    by (simp_all add: demo_input_def promptOnce_def ReadString_def newline_def TrimRight_def)
  then show "promptPassphrase demo_input = (Inr ''correct horse battery'', ''admin password'' @ [newline])"
    by (subst promptPassphrase.simps) simp
  show "promptOnce (''admin password'' @ [newline]) = (Inr ''admin password'', [])"
    by (simp add: promptOnce_def ReadString_def newline_def TrimRight_def)
qed

definition demo_init_yaml :: yaml_codec where
  "demo_init_yaml = \<lparr>yaml_Decode = (\<lambda>b. case b of [] \<Rightarrow> Inl ErrEOF
       | f # r \<Rightarrow> Inr (init_config (str_of r) (f = 1))),
     yaml_Marshal = (\<lambda>c. Inr ((if tor_Enabled (cfg_Tor c) then 1 else 0) # bytes_of (recv_PublicKey (cfg_Receiver c))))\<rparr>"

lemma demo_init_keeps: "yaml_keeps demo_init_yaml (init_config pub t)"
  by (simp add: yaml_keeps_def demo_init_yaml_def init_config_facts) (simp add: init_config_def)

definition demo_files :: "nat \<Rightarrow> world" where
  "demo_files n = fresh_world\<lparr>os_rng := replicate n 7, os_root := Dir [(''config'', Dir [])]\<rparr>"

lemma demo_random: "k \<le> n \<Longrightarrow> readRandom k (demo_files n) = (Inr (replicate k 7), demo_files (n - k))"
  by (simp add: readRandom_def demo_files_def min_def)

lemma demo_persist:
  assumes "24 \<le> n"
  shows "\<exists>w'. init_persist demo_prims demo_init_yaml [] c pub pass s (demo_files n) = (None, w')"
proof -
  have k: "length (DeriveMasterKey demo_prims pass (sx_MasterSalt s)) = 32"
    using demo_argon2 by (simp add: DeriveMasterKey_def argon2_sized_def)
  obtain out where out: "yaml_Marshal demo_init_yaml c = Inr out" by (simp add: demo_init_yaml_def)
  define body where "body = Marshal_secrets s"
  define line where "line = bytes_of (PubkeyFingerprint pub @ [CHR 0x0A])"
  show ?thesis
    using assms k
    unfolding init_persist_def Let_def out sum.case init_paths [OF demo_dir] writePubkeyLock_eq
      SaveSecrets_def body_def [symmetric] line_def [symmetric]
    by (simp add: EncryptSymmetric_def readRandom_def os_MkdirAll_def os_WriteFile_def Let_def
        config_paths [OF demo_dir] secrets_paths [OF demo_dir] demo_files_def fresh_world_def
        wr_def is_dir_def less_char_def min_def)
qed

lemma demo_init:
  "\<exists>out w'. Init demo_prims demo_init_yaml [] True demo_input fresh_world = (Inr out, w')"
proof -
  obtain pub sec where kp: "age_Keypair demo_prims (replicate 32 7) = (pub, sec)" by fastforce
  have m: "os_MkdirAll (join_comps [] [''config'']) fresh_world = (None, demo_files 400)"
    by (simp add: os_MkdirAll_def join_comps_plain plain_comp_def slash_def fresh_world_def demo_files_def)
  have x: "\<not> os_exists (configPath []) (demo_files 400)"
    by (simp add: os_exists_def os_Stat_size_def config_paths [OF demo_dir] demo_files_def fresh_world_def)
  have g: "GenerateAgeKey demo_prims (demo_files 400) = (Inr (pub, sec), demo_files 368)"
    by (simp add: GenerateAgeKey_def demo_random kp)
  have t: "totp_Generate demo_prims (demo_files 368) = (Inr (totp_Secret demo_prims (replicate 20 7)), demo_files 348)"
    "totp_Generate demo_prims (demo_files 348) = (Inr (totp_Secret demo_prims (replicate 20 7)), demo_files 328)"
    by (simp_all add: totp_Generate_def demo_random)
  obtain s0 where n: "NewSecrets (demo_files 328) = (Inr s0, demo_files 200)"
    by (simp add: NewSecrets_def demo_random)
  define k where "k = totp_Secret demo_prims (replicate 20 7)"
  obtain w' where i: "init_persist demo_prims demo_init_yaml [] (init_config pub True) pub ''correct horse battery''
      (SetAdminPassword demo_prims ''admin password'' (s0\<lparr>sx_TOTPSecret := k, sx_TOTPSecretDuress := k\<rparr>))
      (demo_files 200) = (None, w')"
    using demo_persist by fastforce
  show ?thesis
    unfolding Init_def Let_def m init_paths [OF demo_dir] prod.case option.case if_not_P [OF x] g sum.case
      demo_prompts t n k_def [symmetric] i
    by simp
qed

lemma demo_totp_plain: "totp_plain demo_prims"
proof -
  have "json_plain (char_of (65 + n mod 16))" for n :: nat
  proof -
    define m where "m = n mod 16"
    have "m < 16" by (simp add: m_def)
    then show ?thesis unfolding m_def [symmetric] by (auto simp: json_plain_def)
  qed
  then show ?thesis by (simp add: totp_plain_def demo_prims_def list_all_iff)
qed

definition init_env :: "(bytes, bytes) run_env" where
  "init_env = demo_env\<lparr>re_Yaml := demo_init_yaml\<rparr>"

definition demo_unlock :: string where "demo_unlock = ''correct horse battery'' @ [newline]"

theorem cli_usage_errors_witness:
  "\<exists>out. main demo_env demo_machine [''kakekomi'', ''frob''] [] fresh_world = Inl ((2, out), fresh_world)"
proof -
  have "usage_error [''kakekomi'', ''frob'']" by simp
  moreover obtain n out w' where m:
    "main demo_env demo_machine [''kakekomi'', ''frob''] [] fresh_world = Inl ((n, out), w')"
    by (simp add: main_def)
  ultimately have "n = 2 \<and> w' = fresh_world"
    using cli_usage_errors [where E = demo_env and M = demo_machine and os_Args = "[''kakekomi'', ''frob'']" and inp = "[]" and w = fresh_world] by simp
  with m show ?thesis by simp
qed

text \<open>The two command lines.\<close>

definition demo_is :: "spelling list" where
  "demo_is = [Joined True ''data-dir'' ''.'', Bare True ''enable-tor'']"

definition demo_rs :: "spelling list" where
  "demo_rs = [Spaced False ''data-dir'' ''.'', Bare True ''no-tor'']"

lemma demo_lines:
  "concat (map spell demo_is) = [''--data-dir=.'', ''--enable-tor'']"
  "concat (map spell demo_rs) = [''-data-dir'', ''.'', ''--no-tor'']"
  by (simp_all add: demo_is_def demo_rs_def dash_def)

lemma demo_meanings:
  "apply_all init_flags demo_is = Some [(''data-dir'', StrFlag ''.''), (''enable-tor'', BoolFlag True)]"
  "apply_all run_flags demo_rs = Some [(''data-dir'', StrFlag ''.''), (''addr'', StrFlag ''127.0.0.1:8080''), (''no-tor'', BoolFlag True)]"
  by (simp_all add: demo_is_def demo_rs_def init_flags_def run_flags_def dataDirFlag_def flag_set_value_def)

lemma demo_data_path: "data_path ((''data-dir'', StrFlag ''.'') # fs) = []"
  by (simp add: data_path_def os_path_def clean_comps_def slash_def)

lemma demo_init_runs:
  "\<exists>out w' sg. main init_env demo_machine (''kakekomi'' # ''init'' # concat (map spell demo_is)) demo_input fresh_world
       = Inl ((0, [InitDisclosed out]), w')
     \<and> main init_env demo_machine (''kakekomi'' # ''run'' # concat (map spell demo_rs)) demo_unlock w' = Inr sg
     \<and> sec_PubkeyLock (cfg_Security (app_Config (rn_App (sg_Running sg)))) = []"
proof -
  have P: "re_Prims init_env = demo_prims" "re_Yaml init_env = demo_init_yaml" by (simp_all add: init_env_def demo_env_def)
  obtain out w' where i: "Init demo_prims demo_init_yaml [] True demo_input fresh_world = (Inr out, w')"
    using demo_init by blast
  let ?fs = "[(''data-dir'', StrFlag ''.''), (''enable-tor'', BoolFlag True)]"
  have pf: "parse_or_exit init_flags (concat (map spell demo_is)) = Inr ?fs"
    using parse_spelled [OF demo_meanings(1) usage_flags(1), of "[]"] by (simp add: flags_end_def parse_or_exit_def)
  have m: "main init_env demo_machine (''kakekomi'' # ''init'' # concat (map spell demo_is)) demo_input fresh_world
      = Inl ((0, [InitDisclosed out]), w')"
    by (simp add: main_commands cmd_init_def pf demo_data_path P i finish_def)
  have line: "fst (promptPassphrase demo_input) = fst (readPassphrase demo_unlock)"
    by (simp add: demo_prompts readPassphrase_def ReadString_def demo_unlock_def newline_def TrimRight_def)
  have fw: "no_faults fresh_world" "db_fault fresh_world DbSchema = None" "rd (os_root fresh_world) ([] @ [''blob'']) = None"
    by (simp_all add: fresh_world_def demo_world_def no_faults_def)
  from init_then_run_steps [where E = init_env and ss = demo_is and rs = demo_rs and M = demo_machine and w = fresh_world
      and inp = demo_input and ?inp2.0 = demo_unlock and prog = "''kakekomi''", unfolded P demo_data_path,
      OF demo_aead demo_age demo_totp_plain _ demo_meanings, unfolded demo_data_path,
      OF _ refl demo_dir fw m line] demo_init_keeps
  obtain sg a where "main init_env demo_machine (''kakekomi'' # ''run'' # concat (map spell demo_rs)) demo_unlock w' = Inr sg"
    "app_Config (rn_App (sg_Running sg)) \<in> {init_config (io_Pub out) True, set_ingress a (init_config (io_Pub out) True)}"
    by auto
  with m show ?thesis by (auto simp: init_config_facts)
qed

theorem init_then_run_witness:
  "\<exists>out w' sg. main init_env demo_machine [''kakekomi'', ''init'', ''--data-dir=.'', ''--enable-tor''] demo_input fresh_world
       = Inl ((0, [InitDisclosed out]), w')
     \<and> main init_env demo_machine [''kakekomi'', ''run'', ''-data-dir'', ''.'', ''--no-tor''] demo_unlock w' = Inr sg
     \<and> sx_TOTPSecret (app_Secrets (rn_App (sg_Running sg))) = io_TOTP out
     \<and> srv_Addr (sg_Http sg) = ''127.0.0.1:8080''"
proof -
  have P: "re_Prims init_env = demo_prims" "re_Yaml init_env = demo_init_yaml" by (simp_all add: init_env_def demo_env_def)
  obtain out w' where i: "Init demo_prims demo_init_yaml [] True demo_input fresh_world = (Inr out, w')"
    using demo_init by blast
  let ?fs = "[(''data-dir'', StrFlag ''.''), (''enable-tor'', BoolFlag True)]"
  have pf: "parse_or_exit init_flags (concat (map spell demo_is)) = Inr ?fs"
    using parse_spelled [OF demo_meanings(1) usage_flags(1), of "[]"] by (simp add: flags_end_def parse_or_exit_def)
  have m: "main init_env demo_machine (''kakekomi'' # ''init'' # concat (map spell demo_is)) demo_input fresh_world
      = Inl ((0, [InitDisclosed out]), w')"
    by (simp add: main_commands cmd_init_def pf demo_data_path P i finish_def)
  have line: "fst (promptPassphrase demo_input) = fst (readPassphrase demo_unlock)"
    by (simp add: demo_prompts readPassphrase_def ReadString_def demo_unlock_def newline_def TrimRight_def)
  have fw: "no_faults fresh_world" "db_fault fresh_world DbSchema = None" "rd (os_root fresh_world) ([] @ [''blob'']) = None"
    by (simp_all add: fresh_world_def demo_world_def no_faults_def)
  from init_then_run [where E = init_env and ss = demo_is and rs = demo_rs and M = demo_machine and w = fresh_world
      and inp = demo_input and ?inp2.0 = demo_unlock and prog = "''kakekomi''", unfolded P demo_data_path,
      OF demo_aead demo_age demo_totp_plain _ demo_meanings, unfolded demo_data_path,
      OF _ refl demo_dir fw m line] demo_init_keeps
  obtain sg where "main init_env demo_machine (''kakekomi'' # ''run'' # concat (map spell demo_rs)) demo_unlock w' = Inr sg"
    "sx_TOTPSecret (app_Secrets (rn_App (sg_Running sg))) = io_TOTP out" "srv_Addr (sg_Http sg) = ''127.0.0.1:8080''"
    by auto
  with m show ?thesis unfolding demo_lines by blast
qed

theorem receiver_key_pinned_witness:
  "\<exists>out w' sg. main init_env demo_machine [''kakekomi'', ''init'', ''--data-dir=.'', ''--enable-tor''] demo_input fresh_world
       = Inl ((0, [InitDisclosed out]), w')
     \<and> main init_env demo_machine [''kakekomi'', ''run'', ''-data-dir'', ''.'', ''--no-tor''] demo_unlock w' = Inr sg
     \<and> sha256 (bytes_of (recv_PublicKey (cfg_Receiver (app_Config (rn_App (sg_Running sg)))))) = sha256 (bytes_of (io_Pub out))"
proof -
  obtain out w' sg where m: "main init_env demo_machine (''kakekomi'' # ''init'' # concat (map spell demo_is)) demo_input fresh_world
       = Inl ((0, [InitDisclosed out]), w')"
    and r: "main init_env demo_machine (''kakekomi'' # ''run'' # concat (map spell demo_rs)) demo_unlock w' = Inr sg"
    and c: "sec_PubkeyLock (cfg_Security (app_Config (rn_App (sg_Running sg)))) = []"
    using demo_init_runs by blast
  from receiver_key_pinned [where prog = "''kakekomi''", OF demo_meanings _ _ m refl r refl, unfolded demo_data_path] c
  have "sha256 (bytes_of (recv_PublicKey (cfg_Receiver (app_Config (rn_App (sg_Running sg)))))) = sha256 (bytes_of (io_Pub out))"
    using demo_dir by simp
  with m r show ?thesis unfolding demo_lines by blast
qed

end
