(* ===== verification/Store_Threads.thy ===== *)
theory Store_Threads
  imports Store_Steps
begin

text \<open>
  The case store under concurrency.  Every request of \<open>handlers.go\<close> runs in a goroutine of
  \<open>net/http\<close> and the sweep of \<open>gc.go\<close> runs beside them, with no lock around the store: the
  operations of \<open>store.go\<close> interleave between one SQL statement or file system call and the
  next.  A thread is an operation with its arguments and its program counter, which carries the
  local variables; a step of it makes the next call.  The database runs a statement at a time,
  so a statement is one step; \<open>shredDir\<close> of one directory is taken as one step.

  A configuration is the list of threads and the world.  A step of it is a step of one thread
  that has not returned, the start of an operation, or a change of the environment.  The sweep is
  one goroutine whose loop collects again only after the last collection returned.
\<close>

section \<open>Threads\<close>

record filing =
  fil_lookup :: bytes
  fil_hash :: bytes
  fil_salt :: bytes
  fil_ttl :: int
  fil_blob :: bytes

text \<open>The counters of an operation.  \<open>CRet\<close> keeps the row the attempt worked with beside what
  \<open>CreateCase\<close> returns, so that a property can speak of its expiry.\<close>

datatype create_pc =
    CEnter
  | CDraw nat case_row
  | CInsert nat case_row string
  | CMkdir case_row string
  | CWrite case_row string
  | CClean case_row string error
  | CUndo case_row string error
  | CRet case_row "error + string"

datatype reply_pc = REnter | RWrite | RFlag | RRet "error option"

datatype gc_pc = GEnter | GShred "string list" nat | GDelete string "string list" nat | GRet nat "error option"

datatype wipe_pc = WEnter | WShred "string list" | WCompact | WRet "error option"

datatype thread =
    TCreate filing create_pc
  | TMark string "error option option"
  | TReply string bytes reply_pc
  | TCollect gc_pc
  | TWipe wipe_pc

fun create_next :: "filing \<Rightarrow> create_pc \<Rightarrow> 'a world_scheme \<Rightarrow> create_pc \<times> 'a world_scheme" where
  "create_next f CEnter w =
     (CDraw 5 (new_row (fil_lookup f) (fil_hash f) (fil_salt f) (fil_ttl f) (os_now w)), w)"
| "create_next f (CDraw 0 r) w = (CRet r (Inl (Err ''case_id collision retries exhausted'')), w)"
| "create_next f (CDraw (Suc n) r) w =
     (case NewID w of (Inl e, w1) \<Rightarrow> (CRet r (Inl e), w1) | (Inr i, w1) \<Rightarrow> (CInsert n r i, w1))"
| "create_next f (CInsert n r i) w =
     (case db_insert i r w of
        (None, w1) \<Rightarrow> (CMkdir r i, w1)
      | (Some e, w1) \<Rightarrow>
          (if isUniqueErr (Some e) then CDraw n r else CRet r (Inl (Wrap ''insert case'' e)), w1))"
| "create_next f (CMkdir r i) w =
     (case os_MkdirAll (caseDir w i) w of
        (Some e, w1) \<Rightarrow> (CUndo r i (Wrap ''mkdir case'' e), w1)
      | (None, w1) \<Rightarrow> (CWrite r i, w1))"
| "create_next f (CWrite r i) w =
     (case os_WriteFile (blobPath w i) (fil_blob f) w of
        (Some e, w1) \<Rightarrow> (CClean r i (Wrap ''write blob'' e), w1)
      | (None, w1) \<Rightarrow> (CRet r (Inr i), w1))"
| "create_next f (CClean r i e) w = (CUndo r i e, snd (os_RemoveAll (caseDir w i) w))"
| "create_next f (CUndo r i e) w = (CRet r (Inl e), snd (db_delete i w))"
| "create_next f (CRet r res) w = (CRet r res, w)"

fun reply_next :: "string \<Rightarrow> bytes \<Rightarrow> reply_pc \<Rightarrow> 'a world_scheme \<Rightarrow> reply_pc \<times> 'a world_scheme" where
  "reply_next i blob REnter w = (case GetCase i w of Inl e \<Rightarrow> (RRet (Some e), w) | Inr _ \<Rightarrow> (RWrite, w))"
| "reply_next i blob RWrite w =
     (case os_WriteFile (replyPath w i) blob w of
        (Some e, w1) \<Rightarrow> (RRet (Some e), w1) | (None, w1) \<Rightarrow> (RFlag, w1))"
| "reply_next i blob RFlag w =
     (case db_exec (DbSetReply i) (rows_upd i (\<lambda>r. r\<lparr>row_reply := 1\<rparr>)) w of (e, w1) \<Rightarrow> (RRet e, w1))"
| "reply_next i blob (RRet e) w = (RRet e, w)"

fun gc_next :: "gc_pc \<Rightarrow> 'a world_scheme \<Rightarrow> gc_pc \<times> 'a world_scheme" where
  "gc_next GEnter w =
     (case db_fault w DbExpired of Some e \<Rightarrow> (GRet 0 (Some e), w) | None \<Rightarrow> (GShred (expired_ids w) 0, w))"
| "gc_next (GShred [] n) w = (GRet n None, snd (db_vacuum w))"
| "gc_next (GShred (i # ids) n) w =
     (case shredDir (caseDir w i) w of (r, w1) \<Rightarrow>
        (if r \<noteq> None \<and> r \<noteq> Some ErrNotExist then GRet n r else GDelete i ids n, w1))"
| "gc_next (GDelete i ids n) w =
     (case db_delete i w of
        (Some e, w1) \<Rightarrow> (GRet n (Some e), w1) | (None, w1) \<Rightarrow> (GShred ids (n + 1), w1))"
| "gc_next (GRet n e) w = (GRet n e, w)"

fun wipe_next :: "wipe_pc \<Rightarrow> 'a world_scheme \<Rightarrow> wipe_pc \<times> 'a world_scheme" where
  "wipe_next WEnter w =
     (case os_ReadDir (join_comps (data_dir w) [''blob'']) w of
        Inl e \<Rightarrow> (WShred [], w) | Inr es \<Rightarrow> (WShred (map fst es), w))"
| "wipe_next (WShred (c # cs)) w =
     (WShred cs, snd (shredDir (join_comps (join_comps (data_dir w) [''blob'']) [c]) w))"
| "wipe_next (WShred []) w =
     (case db_exec DbDeleteAll (\<lambda>_. []) w of
        (Some e, w1) \<Rightarrow> (WRet (Some e), spend_wipe w1) | (None, w1) \<Rightarrow> (WCompact, w1))"
| "wipe_next WCompact w = (WRet None, spend_wipe (snd (db_vacuum w)))"
| "wipe_next (WRet e) w = (WRet e, w)"

fun thread_step :: "thread \<Rightarrow> 'a world_scheme \<Rightarrow> thread \<times> 'a world_scheme" where
  "thread_step (TCreate f p) w = (case create_next f p w of (p', w') \<Rightarrow> (TCreate f p', w'))"
| "thread_step (TMark i None) w = (case MarkRead i w of (e, w') \<Rightarrow> (TMark i (Some e), w'))"
| "thread_step (TMark i (Some e)) w = (TMark i (Some e), w)"
| "thread_step (TReply i blob p) w = (case reply_next i blob p w of (p', w') \<Rightarrow> (TReply i blob p', w'))"
| "thread_step (TCollect p) w = (case gc_next p w of (p', w') \<Rightarrow> (TCollect p', w'))"
| "thread_step (TWipe p) w = (case wipe_next p w of (p', w') \<Rightarrow> (TWipe p', w'))"

fun returned :: "thread \<Rightarrow> bool" where
  "returned (TCreate f (CRet r res)) = True"
| "returned (TMark i (Some e)) = True"
| "returned (TReply i blob (RRet e)) = True"
| "returned (TCollect (GRet n e)) = True"
| "returned (TWipe (WRet e)) = True"
| "returned _ = False"

section \<open>Every operation returns\<close>

text \<open>The rank of a thread: whether it has still to learn how much work there is, and the calls
  it has left at most.\<close>

fun create_rank :: "create_pc \<Rightarrow> nat" where
  "create_rank CEnter = 17"
| "create_rank (CDraw n r) = 2 * n + 5"
| "create_rank (CInsert n r i) = 2 * n + 6"
| "create_rank (CMkdir r i) = 4"
| "create_rank (CWrite r i) = 3"
| "create_rank (CClean r i e) = 2"
| "create_rank (CUndo r i e) = 1"
| "create_rank (CRet r res) = 0"

fun rank :: "thread \<Rightarrow> nat \<times> nat" where
  "rank (TCreate f p) = (0, create_rank p)"
| "rank (TMark i e) = (0, case e of None \<Rightarrow> 1 | Some _ \<Rightarrow> 0)"
| "rank (TReply i blob p) = (0, case p of REnter \<Rightarrow> 3 | RWrite \<Rightarrow> 2 | RFlag \<Rightarrow> 1 | RRet _ \<Rightarrow> 0)"
| "rank (TCollect p) = (case p of GEnter \<Rightarrow> (1, 0) | GShred ids n \<Rightarrow> (0, 2 * length ids + 1)
     | GDelete i ids n \<Rightarrow> (0, 2 * length ids + 2) | GRet n e \<Rightarrow> (0, 0))"
| "rank (TWipe p) = (case p of WEnter \<Rightarrow> (1, 0) | WShred cs \<Rightarrow> (0, length cs + 2)
     | WCompact \<Rightarrow> (0, 1) | WRet e \<Rightarrow> (0, 0))"

definition rank_less :: "(thread \<times> thread) set" where
  "rank_less = inv_image (less_than <*lex*> less_than) rank"

lemma create_rank_step: "create_rank p \<noteq> 0 \<Longrightarrow> create_rank (fst (create_next f p w)) < create_rank p"
  by (cases "(f, p, w)" rule: create_next.cases) (auto split: sum.splits option.splits prod.splits)

lemma create_returned: "returned (TCreate f p) \<longleftrightarrow> create_rank p = 0"
  by (cases p) auto

lemma step_rank:
  assumes "\<not> returned t"
  shows "(fst (thread_step t w), t) \<in> rank_less"
proof (cases t)
  case (TCreate f p)
  with assms create_rank_step [of p f w] show ?thesis
    by (auto simp: rank_less_def create_returned split: prod.splits)
next
  case (TMark i e)
  with assms show ?thesis by (cases e) (auto simp: rank_less_def split: prod.splits)
next
  case (TReply i blob p)
  with assms show ?thesis
    by (cases p) (auto simp: rank_less_def split: prod.splits sum.splits option.splits)
next
  case (TCollect p)
  with assms show ?thesis
    by (cases "(p, w)" rule: gc_next.cases) (auto simp: rank_less_def split: prod.splits option.splits)
next
  case (TWipe p)
  with assms show ?thesis
    by (cases "(p, w)" rule: wipe_next.cases)
      (auto simp: rank_less_def split: prod.splits option.splits sum.splits)
qed

lemma wf_rank_less: "wf rank_less"
  by (simp add: rank_less_def wf_inv_image wf_lex_prod)

function run_thread :: "thread \<Rightarrow> 'a world_scheme \<Rightarrow> thread \<times> 'a world_scheme" where
  "run_thread t w = (if returned t then (t, w)
     else case thread_step t w of (t', w') \<Rightarrow> run_thread t' w')"
  by pat_completeness auto

termination
proof (relation "inv_image rank_less fst")
  show "wf (inv_image rank_less fst)" by (intro wf_inv_image wf_rank_less)
  show "((t', w'), t, w) \<in> inv_image rank_less fst"
    if "\<not> returned t" and "(t', w') = thread_step t w" for t t' and w w' :: "'a world_scheme"
    using step_rank [OF that(1), of w] by (simp add: that(2) [symmetric])
qed

declare run_thread.simps [simp del]

lemma run_returned [simp]: "returned t \<Longrightarrow> run_thread t w = (t, w)"
  by (simp add: run_thread.simps)

lemma run_next: "\<not> returned t \<Longrightarrow> run_thread t w = (case thread_step t w of (t', w') \<Rightarrow> run_thread t' w')"
  by (subst run_thread.simps) simp

section \<open>A thread that runs alone is the operation\<close>

lemma create_alone:
  "run_thread (TCreate f (CDraw n r)) w
   = (case create_loop n r (fil_blob f) w of (res, w') \<Rightarrow> (TCreate f (CRet r res), w'))"
proof (induction n arbitrary: w)
  case 0
  show ?case by (simp add: run_next)
next
  case (Suc n)
  then show ?case
    by (auto simp: run_next split: prod.splits sum.splits option.splits)
qed

lemma gc_alone:
  "run_thread (TCollect (GShred ids n)) w
   = (case gc_loop ids n w of ((m, e), w') \<Rightarrow> (TCollect (GRet m e), w'))"
proof (induction ids arbitrary: n w)
  case Nil
  show ?case by (simp add: run_next)
next
  case (Cons i ids)
  then show ?case
    by (auto simp: run_next split: prod.splits option.splits)
qed

lemma wipe_alone:
  "run_thread (TWipe (WShred cs)) w
   = (case db_exec DbDeleteAll (\<lambda>_. []) (shred_all (join_comps (data_dir w) [''blob'']) cs w) of
        (Some e, w2) \<Rightarrow> (TWipe (WRet (Some e)), spend_wipe w2)
      | (None, w2) \<Rightarrow> (TWipe (WRet None), spend_wipe (snd (db_vacuum w2))))"
proof (induction cs arbitrary: w)
  case Nil
  show ?case by (auto simp: run_next split: prod.splits option.splits)
next
  case (Cons c cs)
  let ?d = "join_comps (data_dir w) [''blob'']"
  let ?w1 = "snd (shredDir (join_comps ?d [c]) w)"
  have "data_dir ?w1 = data_dir w"
    using upto_dir [OF conjunct1 [OF shredDir_upto [OF prod.collapse [symmetric]]]] by blast
  with Cons [of ?w1] show ?case by (simp add: run_next [of "TWipe (WShred (c # cs))"])
qed

text \<open>Every operation of the store, cut into its database and file system calls and run with no
  other thread in between, does exactly what the operation does as one step: the same result
  and the same world.\<close>

lemma threads_are_operations:
  "run_thread (TCreate f CEnter) w =
     (case CreateCase (fil_lookup f) (fil_hash f) (fil_salt f) (fil_ttl f) (fil_blob f) w of (res, w') \<Rightarrow>
       (TCreate f (CRet (new_row (fil_lookup f) (fil_hash f) (fil_salt f) (fil_ttl f) (os_now w)) res), w'))
   \<and> run_thread (TMark i None) w = (case MarkRead i w of (e, w') \<Rightarrow> (TMark i (Some e), w'))
   \<and> run_thread (TReply i blob REnter) w =
       (case WriteReply i blob w of (e, w') \<Rightarrow> (TReply i blob (RRet e), w'))
   \<and> run_thread (TCollect GEnter) w = (case GC w of ((n, e), w') \<Rightarrow> (TCollect (GRet n e), w'))
   \<and> run_thread (TWipe WEnter) w = (case Wipe w of (e, w') \<Rightarrow> (TWipe (WRet e), w'))"
proof (intro conjI)
  show "run_thread (TCreate f CEnter) w =
     (case CreateCase (fil_lookup f) (fil_hash f) (fil_salt f) (fil_ttl f) (fil_blob f) w of (res, w') \<Rightarrow>
       (TCreate f (CRet (new_row (fil_lookup f) (fil_hash f) (fil_salt f) (fil_ttl f) (os_now w)) res), w'))"
    by (simp add: run_next create_alone CreateCase_def)
  show "run_thread (TMark i None) w = (case MarkRead i w of (e, w') \<Rightarrow> (TMark i (Some e), w'))"
    by (simp add: run_next split: prod.split)
  show "run_thread (TReply i blob REnter) w =
       (case WriteReply i blob w of (e, w') \<Rightarrow> (TReply i blob (RRet e), w'))"
    by (auto simp: run_next WriteReply_def split: prod.splits sum.splits option.splits)
  show "run_thread (TCollect GEnter) w = (case GC w of ((n, e), w') \<Rightarrow> (TCollect (GRet n e), w'))"
    by (auto simp: run_next gc_alone GC_def split: option.splits)
  show "run_thread (TWipe WEnter) w = (case Wipe w of (e, w') \<Rightarrow> (TWipe (WRet e), w'))"
    by (cases "os_ReadDir (join_comps (data_dir w) [''blob'']) w")
      (auto simp: run_next [of "TWipe WEnter"] wipe_alone Wipe_def Let_def split: prod.splits option.splits)
qed

text \<open>C18: an operation of the store returns after finitely many of its own calls, whatever the
  other threads, the disk, the database and the clock do between them: there is no endless
  sequence of steps of one thread, each in a world of its own.\<close>

theorem threads_return:
  "\<not> (\<exists>(t :: nat \<Rightarrow> thread) (w :: nat \<Rightarrow> 'a world_scheme).
      \<forall>n. \<not> returned (t n) \<and> t (Suc n) = fst (thread_step (t n) (w n)))"
proof
  assume "\<exists>(t :: nat \<Rightarrow> thread) (w :: nat \<Rightarrow> 'a world_scheme).
      \<forall>n. \<not> returned (t n) \<and> t (Suc n) = fst (thread_step (t n) (w n))"
  then obtain t and w :: "nat \<Rightarrow> 'a world_scheme" where
    t: "\<not> returned (t n)" "t (Suc n) = fst (thread_step (t n) (w n))" for n by blast
  then have "(t (Suc n), t n) \<in> rank_less" for n using step_rank by metis
  with wf_rank_less show False by (auto simp: wf_iff_no_infinite_down_chain)
qed

section \<open>Interleaving\<close>

datatype conc_event = Start thread | Step nat | Env

fun entering :: "thread \<Rightarrow> bool" where
  "entering (TCreate f CEnter) = True"
| "entering (TMark i None) = True"
| "entering (TReply i blob REnter) = True"
| "entering (TCollect GEnter) = True"
| "entering (TWipe WEnter) = True"
| "entering _ = False"

fun sweeping :: "thread \<Rightarrow> bool" where
  "sweeping (TCollect p) = (\<not> returned (TCollect p))"
| "sweeping _ = False"

inductive conc_step :: "conc_event \<Rightarrow> thread list \<times> 'a world_scheme \<Rightarrow> thread list \<times> 'a world_scheme \<Rightarrow> bool" where
  start: "entering t \<Longrightarrow> \<not> (sweeping t \<and> list_ex sweeping ts) \<Longrightarrow>
    conc_step (Start t) (ts, w) (ts @ [t], w)"
| own: "k < length ts \<Longrightarrow> \<not> returned (ts ! k) \<Longrightarrow> thread_step (ts ! k) w = (t', w') \<Longrightarrow>
    conc_step (Step k) (ts, w) (ts[k := t'], w')"
| env: "os_now w \<le> t \<Longrightarrow>
    conc_step Env (ts, w) (ts, w\<lparr>os_now := t, os_rng := rng, os_fault := f, db_fault := g\<rparr>)"

inductive_cases conc_startE: "conc_step (Start t) c c'"
inductive_cases conc_ownE: "conc_step (Step k) c c'"
inductive_cases conc_envE: "conc_step Env c c'"

abbreviation conc_run :: "thread list \<times> 'a world_scheme \<Rightarrow> conc_event list \<Rightarrow> thread list \<times> 'a world_scheme \<Rightarrow> bool" where
  "conc_run \<equiv> runs conc_step"

section \<open>What a thread works on\<close>

text \<open>\<open>holds\<close> is the identifier and the row a submission has inserted and not withdrawn,
  \<open>drawn\<close> the row of every submission that has read the clock, \<open>swept\<close> what a collection has
  still to remove, and \<open>names\<close> every identifier a thread works with.\<close>

fun holds :: "thread \<Rightarrow> (string \<times> case_row) option" where
  "holds (TCreate f (CMkdir r i)) = Some (i, r)"
| "holds (TCreate f (CWrite r i)) = Some (i, r)"
| "holds (TCreate f (CClean r i e)) = Some (i, r)"
| "holds (TCreate f (CUndo r i e)) = Some (i, r)"
| "holds (TCreate f (CRet r (Inr i))) = Some (i, r)"
| "holds _ = None"

fun drawn :: "thread \<Rightarrow> case_row option" where
  "drawn (TCreate f CEnter) = None"
| "drawn (TCreate f (CDraw n r)) = Some r"
| "drawn (TCreate f (CInsert n r i)) = Some r"
| "drawn (TCreate f (CMkdir r i)) = Some r"
| "drawn (TCreate f (CWrite r i)) = Some r"
| "drawn (TCreate f (CClean r i e)) = Some r"
| "drawn (TCreate f (CUndo r i e)) = Some r"
| "drawn (TCreate f (CRet r res)) = Some r"
| "drawn _ = None"

fun swept :: "thread \<Rightarrow> string list" where
  "swept (TCollect (GShred ids n)) = ids"
| "swept (TCollect (GDelete i ids n)) = i # ids"
| "swept _ = []"

fun names :: "thread \<Rightarrow> string list" where
  "names (TCreate f (CInsert n r i)) = [i]"
| "names (TReply i blob RWrite) = [i]"
| "names t = (case holds t of None \<Rightarrow> swept t | Some (i, r) \<Rightarrow> [i])"

definition touched :: "thread \<Rightarrow> string set" where
  "touched t = (case holds t of None \<Rightarrow> set (swept t) | Some (i, r) \<Rightarrow> {i})"

fun wiping :: "thread \<Rightarrow> bool" where
  "wiping (TWipe p) = True"
| "wiping _ = False"

lemma inv_any:
  assumes "store_inv w" and "files_upto p w w'" and "distinct (map fst (db_rows w'))"
    and "list_all case_id (map fst (db_rows w'))"
  shows "store_inv w'"
  using assms upto_dir [OF assms(2)] paths_data_dir [of w' w] upto_wf [OF assms(2)]
  by (simp add: store_inv_def)

lemma keeps_elsewhere:
  assumes "store_inv w" and "files_upto (caseDir w j) w w'" and "case_id j" and "i \<noteq> j"
    and "map_of (db_rows w') i = map_of (db_rows w) i"
  shows "keeps i w w'"
proof -
  have "\<not> prefix (caseDir w j) (blobPath w i)" if "map_of (db_rows w) i = Some r" for r
  proof -
    have "plain_dir w" "plain_comp i" "plain_comp j"
      using assms(1,3) store_inv_id [OF assms(1) that] case_id_plain by (auto simp: store_inv_def)
    with assms(4) show ?thesis by (simp add: blobPath_plain caseDir_plain)
  qed
  with assms(2,5) upto_rd show ?thesis unfolding keeps_def by fastforce
qed

lemma keeps_same: "(\<And>p. files_upto p w w') \<Longrightarrow> map_of (db_rows w') i = map_of (db_rows w) i \<Longrightarrow> keeps i w w'"
  using upto_rd [of "blobPath w i @ [[]]" w w' "blobPath w i"] by (auto simp: keeps_def)

text \<open>What a step of a thread does to the store: \<open>moves\<close> says that the invariant is kept and
  that only the cases of the given set can change.\<close>

definition moves :: "string set \<Rightarrow> 'a world_scheme \<Rightarrow> 'a world_scheme \<Rightarrow> bool" where
  "moves S w w' \<longleftrightarrow> store_inv w' \<and> data_dir w' = data_dir w \<and> os_now w' = os_now w
     \<and> (\<forall>i. i \<notin> S \<longrightarrow> keeps i w w')"

lemma moves_refl: "store_inv w \<Longrightarrow> moves S w w"
  by (simp add: moves_def)

lemma moves_quiet:
  assumes "store_inv w" and "\<And>p. files_upto p w w'" and "db_rows w' = db_rows w"
  shows "moves S w w'"
  using assms(1,3) inv_upto [OF assms(1,2)] upto_dir [OF assms(2)] keeps_same [OF assms(2)]
  by (auto simp: moves_def)

lemma moves_case:
  assumes "store_inv w" and "files_upto (caseDir w j) w w'" and "case_id j"
    and "db_rows w' = db_rows w \<or> db_rows w' = rows_del j (db_rows w)"
  shows "moves {j} w w'"
proof -
  have k: "distinct (map fst (db_rows w'))" "list_all case_id (map fst (db_rows w'))"
    using assms(1,4) by (auto simp: store_inv_def rows_del_def list_all_set distinct_map_filter)
  have "map_of (db_rows w') i = map_of (db_rows w) i" if "i \<noteq> j" for i
    using assms(4) that by (auto simp: rows_del_def map_of_filter_ne)
  with keeps_elsewhere [OF assms(1-3)] inv_any [OF assms(1,2) k] upto_dir [OF assms(2)]
  show ?thesis by (auto simp: moves_def)
qed

lemma create_moves:
  assumes "store_inv w" and "create_next f p w = (p', w')" and "list_all case_id (names (TCreate f p))"
  shows "moves (touched (TCreate f p)) w w' \<and> list_all case_id (names (TCreate f p'))"
proof (cases "(f, p, w)" rule: create_next.cases)
  case (1 f' w')
  with assms show ?thesis by (auto simp: moves_refl)
next
  case (2 f' r w')
  with assms show ?thesis by (auto simp: moves_refl)
next
  case (3 f' n r v)
  obtain res w1 where nid: "NewID w = (res, w1)" by fastforce
  have "moves S w w1" for S using NewID_upto [OF nid] by (intro moves_quiet [OF assms(1)]) blast+
  with 3 assms nid NewID_case_id show ?thesis by (cases res) auto
next
  case (4 f' n r i v)
  obtain e w1 where ins: "db_insert i r w = (e, w1)" by fastforce
  have i: "case_id i" using 4 assms(3) by simp
  have u: "files_upto q w w1" for q using insert_cases [OF ins] by blast
  have "moves {} w w1"
  proof (cases e)
    case (Some x)
    with insert_cases [OF ins] show ?thesis by (auto simp: moves_refl [OF assms(1)])
  next
    case None
    with insert_cases [OF ins] have r: "map_of (db_rows w) i = None" "db_rows w1 = rows_ins i r (db_rows w)"
      by auto
    with assms(1) i have "store_inv w1"
      by (intro inv_any [OF assms(1) u]) (auto simp: store_inv_def map_of_eq_None_iff)
    moreover have "keeps j w w1" for j
    proof (cases "j = i")
      case True
      with r show ?thesis by (simp add: keeps_def)
    next
      case False
      with r have "map_of (db_rows w1) j = map_of (db_rows w) j"
        by (auto simp: rows_ins_def map_add_def split: option.splits)
      then show ?thesis by (rule keeps_same [OF u])
    qed
    ultimately show ?thesis using upto_dir [OF u] by (simp add: moves_def)
  qed
  with 4 assms ins i show ?thesis by (auto simp: touched_def split: option.splits if_splits)
next
  case (5 f' r i v)
  obtain e w1 where mk: "os_MkdirAll (caseDir w i) w = (e, w1)" by fastforce
  have "moves {i} w w1" using mkdir_upto [OF mk] by (intro moves_quiet [OF assms(1)]) blast+
  with 5 assms mk show ?thesis by (auto simp: touched_def split: option.splits)
next
  case (6 f' r i v)
  obtain e w1 where wr: "os_WriteFile (blobPath w i) (fil_blob f) w = (e, w1)" by fastforce
  have i: "case_id i" using 6 assms(3) by simp
  have "blobPath w i = caseDir w i @ [''case-data.tar.age'']"
    using assms(1) i by (simp add: blobPath_plain case_id_plain store_inv_def)
  with write_upto [of "caseDir w i" "[''case-data.tar.age'']"] wr
  have "moves {i} w w1" by (intro moves_case [OF assms(1) _ i]) auto
  with 6 assms wr show ?thesis by (auto simp: touched_def split: option.splits)
next
  case (7 f' r i e v)
  obtain re w1 where rm: "os_RemoveAll (caseDir w i) w = (re, w1)" by fastforce
  have i: "case_id i" using 7 assms(3) by simp
  have "moves {i} w w1" using removeall_upto [OF rm] by (intro moves_case [OF assms(1) _ i]) auto
  with 7 assms rm show ?thesis by (auto simp: touched_def)
next
  case (8 f' r i e v)
  obtain de w1 where dl: "db_delete i w = (de, w1)" by fastforce
  have i: "case_id i" using 8 assms(3) by simp
  have "moves {i} w w1"
    using exec_upto [OF dl [unfolded db_delete_def]] by (intro moves_case [OF assms(1) _ i]) auto
  with 8 assms dl show ?thesis by (auto simp: touched_def)
next
  case (9 f' r res v)
  with assms show ?thesis by (auto simp: moves_refl)
qed

text \<open>A submission comes to hold an identifier only by inserting it, which the primary key allows
  only when no row has it.\<close>

lemma create_holds:
  assumes "create_next f p w = (p', w')" and "holds (TCreate f p') = Some (i, r)"
  shows "holds (TCreate f p) = Some (i, r) \<and> db_rows w' = db_rows w
    \<or> map_of (db_rows w) i = None \<and> map_of (db_rows w') i = Some r"
  using assms
proof (cases "(f, p, w)" rule: create_next.cases)
  case (4 f' n s j v)
  obtain e w1 where ins: "db_insert j s w = (e, w1)" by fastforce
  with 4 assms insert_cases [OF ins] show ?thesis
    by (auto simp: rows_ins_def map_add_def split: option.splits if_splits)
next
  case (5 f' s j v)
  obtain e w1 where mk: "os_MkdirAll (caseDir w j) w = (e, w1)" by fastforce
  with 5 assms mkdir_upto [OF mk] show ?thesis by (auto split: option.splits)
next
  case (6 f' s j v)
  obtain e w1 where wr: "os_WriteFile (blobPath w j) (fil_blob f) w = (e, w1)" by fastforce
  with 6 assms write_upto [of "blobPath w j" "[]" "fil_blob f" w e w1] show ?thesis
    by (auto split: option.splits)
next
  case (7 f' s j e v)
  obtain re w1 where rm: "os_RemoveAll (caseDir w j) w = (re, w1)" by fastforce
  with 7 assms removeall_upto [OF rm] show ?thesis by auto
qed (auto split: sum.splits prod.splits)

lemma create_blob:
  assumes "create_next f p w = (CRet r (Inr i), w')" and "p \<noteq> CRet r (Inr i)"
  shows "p = CWrite r i \<and> rd (os_root w') (blobPath w i) = Some (fil_blob f)"
  using assms
proof (cases "(f, p, w)" rule: create_next.cases)
  case (6 f' s j v)
  with assms write_ok show ?thesis by (auto split: prod.splits option.splits)
qed (auto split: sum.splits prod.splits option.splits if_splits)

lemma create_drawn: "create_next f p w = (p', w') \<Longrightarrow> drawn (TCreate f p) = Some r \<Longrightarrow> drawn (TCreate f p') = Some r"
  by (cases "(f, p, w)" rule: create_next.cases)
    (auto split: sum.splits prod.splits option.splits if_splits)

lemma holds_drawn: "holds t = Some (i, r) \<Longrightarrow> drawn t = Some r"
  by (cases t rule: holds.cases) auto

lemma reply_moves:
  assumes "store_inv w" and "reply_next j blob p w = (p', w')" and "list_all case_id (names (TReply j blob p))"
  shows "moves {} w w' \<and> list_all case_id (names (TReply j blob p'))"
proof (cases p)
  case REnter
  have "case_id j" if "GetCase j w = Inr ci" for ci
    using that store_inv_id [OF assms(1)] by (auto simp: GetCase_def split: option.splits)
  with REnter assms show ?thesis by (auto simp: moves_refl split: sum.splits)
next
  case RWrite
  then have j: "case_id j" using assms(3) by simp
  obtain e w1 where wr: "os_WriteFile (replyPath w j) blob w = (e, w1)" by fastforce
  then have u: "files_upto (replyPath w j) w w1" "db_rows w1 = db_rows w"
    using write_upto [of "replyPath w j" "[]" blob w e w1] by simp_all
  have "\<not> prefix (replyPath w j) (blobPath w i)" if "plain_comp i" for i
    using that assms(1) j by (simp add: replyPath_plain blobPath_plain caseDir_plain case_id_plain store_inv_def)
  then have "keeps i w w1" for i
    using u upto_rd [OF u(1)] store_inv_id [OF assms(1)] by (auto simp: keeps_def)
  then have "moves {} w w1" using inv_upto [OF assms(1) u(1)] u upto_dir [OF u(1)] by (simp add: moves_def)
  with RWrite assms wr show ?thesis by (auto split: option.splits)
next
  case RFlag
  obtain e w1 where ex: "db_exec (DbSetReply j) (rows_upd j (\<lambda>r. r\<lparr>row_reply := 1\<rparr>)) w = (e, w1)" by fastforce
  have "moves {} w w1"
    using exec_upd_keeps [OF assms(1) ex] by (simp add: moves_def row_core_def)
  with RFlag assms ex show ?thesis by auto
next
  case (RRet e)
  with assms show ?thesis by (auto simp: moves_refl)
qed

lemma gc_moves:
  assumes "store_inv w" and "gc_next p w = (p', w')" and "list_all case_id (names (TCollect p))"
  shows "moves (touched (TCollect p)) w w' \<and> list_all case_id (names (TCollect p'))"
proof (cases "(p, w)" rule: gc_next.cases)
  case (1 v)
  have "list_all case_id (expired_ids w)" using assms(1) by (auto simp: store_inv_def expired_ids_def list_all_set)
  with 1 assms show ?thesis by (auto simp: moves_refl split: option.splits)
next
  case (2 n v)
  have "moves (touched (TCollect p)) w (snd (db_vacuum w))"
    by (rule moves_quiet [OF assms(1)]) (simp_all add: vacuum_upto)
  with 2 assms show ?thesis by auto
next
  case (3 i ids n v)
  then have i: "case_id i" using assms(3) by simp
  obtain r w1 where sd: "shredDir (caseDir w i) w = (r, w1)" by fastforce
  have "moves {i} w w1" using shredDir_upto [OF sd] by (intro moves_case [OF assms(1) _ i]) auto
  with 3 assms sd show ?thesis by (auto simp: touched_def moves_def)
next
  case (4 i ids n v)
  then have i: "case_id i" using assms(3) by simp
  obtain e w1 where dl: "db_delete i w = (e, w1)" by fastforce
  have "moves {i} w w1"
    using exec_upto [OF dl [unfolded db_delete_def]] by (intro moves_case [OF assms(1) _ i]) auto
  with 4 assms dl show ?thesis by (auto simp: touched_def moves_def split: option.splits)
next
  case (5 n e v)
  with assms show ?thesis by (auto simp: moves_refl)
qed

lemma thread_moves:
  assumes "store_inv w" and "thread_step t w = (t', w')" and "\<not> wiping t" and "list_all case_id (names t)"
  shows "moves (touched t) w w' \<and> list_all case_id (names t') \<and> \<not> wiping t'"
proof (cases "(t, w)" rule: thread_step.cases)
  case (1 f p v)
  with assms create_moves [of w f p] show ?thesis by (auto split: prod.splits)
next
  case (2 i v)
  obtain e w1 where ex: "MarkRead i w = (e, w1)" by fastforce
  then have "moves {} w w1"
    using exec_upd_keeps [OF assms(1), of "DbMarkRead i" i "\<lambda>r. r\<lparr>row_read := 1\<rparr>" e w1]
    by (simp add: moves_def row_core_def MarkRead_def)
  with 2 assms ex show ?thesis by (auto simp: touched_def)
next
  case (3 i e v)
  with assms show ?thesis by (auto simp: moves_refl)
next
  case (4 i blob p v)
  with assms reply_moves [of w i blob p] show ?thesis by (auto simp: touched_def split: prod.splits)
next
  case (5 p v)
  with assms gc_moves [of w p] show ?thesis by (auto split: prod.splits)
next
  case (6 p v)
  with assms show ?thesis by simp
qed

section \<open>The invariant of an interleaved run\<close>

text \<open>\<open>good\<close> is the invariant of one thread against the store, \<open>apart\<close> that of two threads.  The
  first half of \<open>good\<close> speaks of a submission, the second of the sweep.\<close>

definition good :: "thread \<Rightarrow> 'a world_scheme \<Rightarrow> bool" where
  "good t w \<longleftrightarrow>
     (\<forall>i r. holds t = Some (i, r) \<longrightarrow> (\<exists>r'. map_of (db_rows w) i = Some r' \<and> row_core r' = row_core r))
   \<and> (\<forall>f r i. t = TCreate f (CRet r (Inr i)) \<longrightarrow> rd (os_root w) (blobPath w i) = Some (fil_blob f))
   \<and> (\<forall>f p r. t = TCreate f p \<longrightarrow> drawn t = Some r \<longrightarrow>
        row_lookup r = fil_lookup f \<and> row_hash r = fil_hash f \<and> row_salt r = fil_salt f)
   \<and> distinct (swept t)
   \<and> (\<forall>i \<in> set (swept t). \<exists>r. map_of (db_rows w) i = Some r \<and> row_expires r < unix_seconds (os_now w))"

definition apart :: "thread \<Rightarrow> thread \<Rightarrow> bool" where
  "apart t u \<longleftrightarrow> \<not> (sweeping t \<and> sweeping u)
     \<and> (\<forall>i r s. holds t = Some (i, r) \<longrightarrow> holds u \<noteq> Some (i, s))"

definition current :: "thread \<Rightarrow> 'a world_scheme \<Rightarrow> bool" where
  "current t w \<longleftrightarrow> (\<forall>r. drawn t = Some r \<longrightarrow> unix_seconds (os_now w) \<le> row_expires r)"

definition conc_inv :: "thread list \<Rightarrow> 'a world_scheme \<Rightarrow> bool" where
  "conc_inv ts w \<longleftrightarrow> store_inv w
     \<and> (\<forall>t \<in> set ts. good t w \<and> \<not> wiping t \<and> list_all case_id (names t))
     \<and> (\<forall>j k. j < length ts \<longrightarrow> k < length ts \<longrightarrow> j \<noteq> k \<longrightarrow> apart (ts ! j) (ts ! k))"

lemma keeps_row:
  assumes "keeps i w w'" and "map_of (db_rows w) i = Some r"
  shows "\<exists>r'. map_of (db_rows w') i = Some r' \<and> row_core r' = row_core r"
  using assms by (auto simp: keeps_def)

lemma keeps_blob: "keeps i w w' \<Longrightarrow> map_of (db_rows w) i = Some r \<Longrightarrow>
    rd (os_root w') (blobPath w i) = rd (os_root w) (blobPath w i)"
  by (auto simp: keeps_def)

lemma good_moves:
  assumes "good u w" and "moves S w w'" and "\<And>i r. holds u = Some (i, r) \<Longrightarrow> i \<notin> S"
    and "set (swept u) \<inter> S = {}"
  shows "good u w'"
  unfolding good_def
proof (intro conjI allI impI ballI)
  from assms(2) have k: "keeps i w w'" if "i \<notin> S" for i using that by (simp add: moves_def)
  from assms(2) have d: "blobPath w' = blobPath w" "os_now w' = os_now w"
    by (simp_all add: moves_def paths_data_dir [of w' w])
  show "\<exists>r'. map_of (db_rows w') i = Some r' \<and> row_core r' = row_core r" if "holds u = Some (i, r)" for i r
    using assms(1) keeps_row [OF k [OF assms(3) [OF that]]] that unfolding good_def by metis
  show "rd (os_root w') (blobPath w' i) = Some (fil_blob f)" if "u = TCreate f (CRet r (Inr i))" for f r i
  proof -
    have h: "holds u = Some (i, r)" using that by simp
    with assms(1) obtain r' where "map_of (db_rows w) i = Some r'" unfolding good_def by metis
    with keeps_blob [OF k [OF assms(3) [OF h]]] assms(1) that d show ?thesis by (simp add: good_def)
  qed
  show "distinct (swept u)" using assms(1) by (simp add: good_def)
  show "\<exists>r. map_of (db_rows w') i = Some r \<and> row_expires r < unix_seconds (os_now w')"
    if i: "i \<in> set (swept u)" for i
  proof -
    from i assms(1) obtain r where r: "map_of (db_rows w) i = Some r" "row_expires r < unix_seconds (os_now w)"
      by (auto simp: good_def)
    have "i \<notin> S" using i assms(4) by auto
    from keeps_row [OF k [OF this] r(1)] obtain r' where
      "map_of (db_rows w') i = Some r'" "row_core r' = row_core r" by blast
    with r(2) d core_expires [of r' r] show ?thesis by auto
  qed
qed (use assms(1) in \<open>auto simp: good_def\<close>)

lemma swept_sweeping: "i \<in> set (swept t) \<Longrightarrow> sweeping t"
  by (cases t rule: swept.cases) auto

lemma holds_current:
  assumes "good t w" and "current t w" and "holds t = Some (i, r)"
  shows "\<exists>r'. map_of (db_rows w) i = Some r' \<and> row_core r' = row_core r \<and> unix_seconds (os_now w) \<le> row_expires r'"
proof -
  from assms(1,3) obtain r' where r': "map_of (db_rows w) i = Some r'" "row_core r' = row_core r"
    unfolding good_def by blast
  have "unix_seconds (os_now w) \<le> row_expires r" using assms(2) holds_drawn [OF assms(3)] by (simp add: current_def)
  with core_expires [OF r'(2)] have "unix_seconds (os_now w) \<le> row_expires r'" by (simp only:)
  with r' show ?thesis by blast
qed

lemma apart_touch:
  assumes "good t w" and "good u w" and "apart t u" and "current t w" and "current u w"
  shows "holds u = Some (i, r) \<Longrightarrow> i \<notin> touched t" and "set (swept u) \<inter> touched t = {}"
proof -
  have sw: "\<exists>s. map_of (db_rows w) j = Some s \<and> row_expires s < unix_seconds (os_now w)"
    if "j \<in> set (swept x)" "good x w" for j x using that by (auto simp: good_def)
  show "i \<notin> touched t" if h: "holds u = Some (i, r)" for i r
  proof
    assume i: "i \<in> touched t"
    show False
    proof (cases "holds t")
      case None
      with i have "i \<in> set (swept t)" by (simp add: touched_def)
      with sw [OF this assms(1)] holds_current [OF assms(2,5) h] show ?thesis by auto
    next
      case (Some js)
      with i h assms(3) show ?thesis by (auto simp: touched_def apart_def split: prod.splits)
    qed
  qed
  show "set (swept u) \<inter> touched t = {}"
  proof (rule ccontr)
    assume "set (swept u) \<inter> touched t \<noteq> {}"
    then obtain i where i: "i \<in> set (swept u)" "i \<in> touched t" by blast
    show False
    proof (cases "holds t")
      case None
      with i have "i \<in> set (swept t)" by (simp add: touched_def)
      with i swept_sweeping assms(3) show ?thesis by (auto simp: apart_def)
    next
      case (Some js)
      then obtain r where "holds t = Some (i, r)" using i by (auto simp: touched_def split: prod.splits)
      with sw [OF i(1) assms(2)] holds_current [OF assms(1,4)] show ?thesis by fastforce
    qed
  qed
qed

lemma good_create:
  assumes "good (TCreate f p) w" and "store_inv w" and "create_next f p w = (p', w')"
    and "\<not> returned (TCreate f p)" and "moves S w w'"
  shows "good (TCreate f p') w'"
  unfolding good_def
proof (intro conjI allI impI ballI)
  show "\<exists>r'. map_of (db_rows w') i = Some r' \<and> row_core r' = row_core r"
    if h: "holds (TCreate f p') = Some (i, r)" for i r
    using create_holds [OF assms(3) h] assms(1) by (auto simp: good_def)
  show "rd (os_root w') (blobPath w' i) = Some (fil_blob g)" if "TCreate f p' = TCreate g (CRet r (Inr i))" for g r i
  proof -
    have p: "p' = CRet r (Inr i)" "g = f" using that by simp_all
    with assms(4) have "p \<noteq> CRet r (Inr i)" by auto
    with create_blob [of f p w r i w'] assms(3) p have "rd (os_root w') (blobPath w i) = Some (fil_blob f)" by simp
    with assms(5) p show ?thesis by (simp add: moves_def paths_data_dir [of w' w])
  qed
  fix g q r
  assume t: "TCreate f p' = TCreate g q" "drawn (TCreate f p') = Some r"
  have "p = CEnter \<or> drawn (TCreate f p) = Some r"
    using create_drawn [OF assms(3)] t(2) by (cases p) (auto split: sum.splits)
  then have "row_lookup r = fil_lookup f \<and> row_hash r = fil_hash f \<and> row_salt r = fil_salt f"
    using assms(1,3) t(2) by (auto simp: good_def new_row_def Let_def)
  with t show "row_lookup r = fil_lookup g" "row_hash r = fil_hash g" "row_salt r = fil_salt g" by simp_all
qed auto

lemma good_collect:
  assumes "good (TCollect p) w" and "store_inv w" and "gc_next p w = (p', w')"
  shows "good (TCollect p') w'"
proof (cases "(p, w)" rule: gc_next.cases)
  case (1 v)
  have d: "distinct (map fst (db_rows w))" using assms(2) by (simp add: store_inv_def)
  then have "distinct (expired_ids w)" by (simp add: expired_ids_def distinct_map_filter)
  moreover have "\<exists>r. map_of (db_rows w) i = Some r \<and> row_expires r < unix_seconds (os_now w)"
    if "i \<in> set (expired_ids w)" for i
  proof -
    from that have "i \<in> fst ` set (db_rows w)" by (auto simp: expired_ids_def)
    then obtain r where r: "map_of (db_rows w) i = Some r" by (auto dest!: weak_map_of_SomeI)
    from expired_iff [OF d r] that have "row_expires r < unix_seconds (os_now w)" by (rule iffD1)
    with r show ?thesis by (intro exI conjI)
  qed
  ultimately show ?thesis using 1 assms(3) by (auto simp: good_def split: option.splits)
next
  case (2 n v)
  with assms(3) show ?thesis by (auto simp: good_def)
next
  case (3 i ids n v)
  obtain r w1 where sd: "shredDir (caseDir w i) w = (r, w1)" by fastforce
  with shredDir_upto [OF sd] upto_dir [of "caseDir w i" w w1] 3 assms show ?thesis
    by (auto simp: good_def split: if_splits)
next
  case (4 i ids n v)
  obtain e w1 where dl: "db_delete i w = (e, w1)" by fastforce
  have u: "files_upto [] w w1" "db_rows w1 = (if e = None then rows_del i (db_rows w) else db_rows w)"
    using exec_upto [OF dl [unfolded db_delete_def], of "[]"] by auto
  show ?thesis
  proof (cases e)
    case None
    have "map_of (db_rows w1) j = map_of (db_rows w) j" if "j \<in> set ids" for j
      using that 4 assms(1) u(2) None by (auto simp: good_def rows_del_def map_of_filter_ne)
    with None 4 dl assms upto_dir [OF u(1)] show ?thesis by (auto simp: good_def)
  next
    case (Some x)
    with 4 dl assms show ?thesis by (auto simp: good_def)
  qed
next
  case (5 n e v)
  with assms show ?thesis by (auto simp: good_def)
qed

lemma good_step:
  assumes "good t w" and "store_inv w" and "thread_step t w = (t', w')" and "\<not> returned t"
    and "\<not> wiping t" and "list_all case_id (names t)"
  shows "good t' w'"
proof (cases "(t, w)" rule: thread_step.cases)
  case (1 f p v)
  with assms thread_moves [OF assms(2,3,5,6)] good_create [of f p w] show ?thesis
    by (auto split: prod.splits)
next
  case (5 p v)
  with assms good_collect [of p w] show ?thesis by (auto split: prod.splits)
qed (use assms in \<open>auto simp: good_def split: prod.splits\<close>)

lemma step_drawn: "thread_step t w = (t', w') \<Longrightarrow> drawn t = Some r \<Longrightarrow> drawn t' = Some r"
  by (cases "(t, w)" rule: thread_step.cases) (auto dest: create_drawn split: prod.splits)

lemma step_sweeping: "thread_step t w = (t', w') \<Longrightarrow> \<not> returned t \<Longrightarrow> sweeping t' \<Longrightarrow> sweeping t"
  by (cases "(t, w)" rule: thread_step.cases) (auto split: prod.splits)

lemma step_holds:
  assumes "thread_step t w = (t', w')" and "holds t' = Some (i, r)"
  shows "holds t = Some (i, r) \<or> map_of (db_rows w) i = None"
proof (cases "(t, w)" rule: thread_step.cases)
  case (1 f p v)
  obtain p' w1 where n: "create_next f p w = (p', w1)" by fastforce
  with 1 assms have "t' = TCreate f p'" by simp
  with create_holds [OF n] 1 assms(2) show ?thesis by auto
qed (use assms in \<open>auto split: prod.splits\<close>)

lemma entering_new:
  assumes "entering t"
  shows "holds t = None" "drawn t = None" "swept t = []" "names t = []" "good t w" "current t w"
    "\<not> returned t"
  using assms by (cases t rule: entering.cases; simp add: good_def current_def)+

lemma apart_sym: "apart t u = apart u t"
  by (auto simp: apart_def)

lemma apart_entering: "entering t \<Longrightarrow> \<not> (sweeping t \<and> sweeping u) \<Longrightarrow> apart t u"
  by (simp add: apart_def entering_new)

lemma apart_step:
  assumes "thread_step t w = (t', w')" and "\<not> returned t" and "apart t u" and "good u w"
  shows "apart t' u"
  using assms(3,4) step_sweeping [OF assms(1,2)] step_holds [OF assms(1)]
  unfolding apart_def good_def by (metis option.distinct(1))

text \<open>No step of a thread turns the clock back or moves the data directory.\<close>

definition same_env :: "'a world_scheme \<Rightarrow> 'a world_scheme \<Rightarrow> bool" where
  "same_env w w' \<longleftrightarrow> os_now w \<le> os_now w' \<and> data_dir w' = data_dir w"

lemma same_env_refl [simp]: "same_env w w"
  by (simp add: same_env_def)

lemma same_env_upto: "files_upto p w w' \<Longrightarrow> same_env w w'"
  by (simp add: same_env_def upto_dir)

lemma same_env_spend: "same_env w v \<Longrightarrow> same_env w (spend_wipe v)"
  by (simp add: same_env_def)

lemma calls_same_env:
  "NewID w = (x, w') \<Longrightarrow> same_env w w'" "db_insert i r w = (e, w') \<Longrightarrow> same_env w w'"
  "os_MkdirAll q w = (e, w') \<Longrightarrow> same_env w w'" "os_WriteFile q b w = (e, w') \<Longrightarrow> same_env w w'"
  "os_RemoveAll q w = (e, w') \<Longrightarrow> same_env w w'" "db_exec st f w = (e, w') \<Longrightarrow> same_env w w'"
  "shredDir q w = (e, w') \<Longrightarrow> same_env w w'"
  using NewID_upto [of w x w' "[]"] insert_cases [of i r w e w' "[]"] mkdir_upto [of q w e w' "[]"]
    write_upto [of "[]" q b w e w'] removeall_upto [of q w e w'] exec_upto [of st f w e w' "[]"]
    shredDir_upto [of q w e w']
  by (auto intro: same_env_upto)

lemma snd_same_env:
  "same_env w (snd (os_RemoveAll q w))" "same_env w (snd (db_delete i w))"
  "same_env w (snd (db_vacuum w))" "same_env w (snd (shredDir q w))"
  by (metis calls_same_env(5) prod.collapse)
    (metis calls_same_env(6) db_delete_def prod.collapse,
     metis calls_same_env(6) db_vacuum_def prod.collapse, metis calls_same_env(7) prod.collapse)

lemma next_same_env:
  "create_next f p w = (p', w') \<Longrightarrow> same_env w w'"
  "reply_next i blob q w = (q', w') \<Longrightarrow> same_env w w'"
  "gc_next g w = (g', w') \<Longrightarrow> same_env w w'"
  "wipe_next v w = (v', w') \<Longrightarrow> same_env w w'"
proof -
  show "create_next f p w = (p', w') \<Longrightarrow> same_env w w'"
    by (cases "(f, p, w)" rule: create_next.cases)
      (auto split: prod.splits sum.splits option.splits if_splits dest: calls_same_env simp: snd_same_env)
  show "reply_next i blob q w = (q', w') \<Longrightarrow> same_env w w'"
    by (cases q) (auto split: prod.splits sum.splits option.splits dest: calls_same_env)
  show "gc_next g w = (g', w') \<Longrightarrow> same_env w w'"
    by (cases "(g, w)" rule: gc_next.cases)
      (auto split: prod.splits option.splits simp: db_delete_def dest: calls_same_env simp: snd_same_env)
  show "wipe_next v w = (v', w') \<Longrightarrow> same_env w w'"
    by (cases "(v, w)" rule: wipe_next.cases)
      (auto split: prod.splits sum.splits option.splits dest: calls_same_env
        simp: snd_same_env same_env_spend)
qed

lemma step_same_env: "thread_step t w = (t', w') \<Longrightarrow> same_env w w'"
  by (cases "(t, w)" rule: thread_step.cases)
    (auto split: prod.splits dest: next_same_env calls_same_env simp: MarkRead_def)

lemma step_back: "conc_step e (ts, w) (ts', w') \<Longrightarrow> os_now w \<le> os_now w' \<and> data_dir w' = data_dir w"
  by (erule conc_step.cases) (auto dest: step_same_env simp: same_env_def)

lemma conc_back:
  assumes "conc_step e (ts, w) (ts', w')" and "\<forall>t \<in> set ts'. current t w'"
  shows "(\<forall>t \<in> set ts. current t w) \<and> os_now w \<le> os_now w' \<and> data_dir w' = data_dir w"
  using assms(1)
proof cases
  case (start t)
  with assms(2) show ?thesis by auto
next
  case (own k t')
  let ?t = "ts ! k"
  from step_same_env [OF own(5)] have d: "os_now w \<le> os_now w'" "data_dir w' = data_dir w"
    by (simp_all add: same_env_def)
  note m = unix_seconds_mono [OF d(1)]
  have "current u w" if u: "u \<in> set ts" for u
  proof -
    from u obtain j where j: "j < length ts" "u = ts ! j" by (auto simp: in_set_conv_nth)
    show ?thesis
    proof (cases "j = k")
      case True
      have "t' \<in> set ts'" using own by (simp add: set_update_memI)
      with assms(2) have "current t' w'" by blast
      with step_drawn [OF own(5)] True j m show ?thesis by (fastforce simp: current_def)
    next
      case False
      then have "ts' ! j = u" "j < length ts'" using own j by simp_all
      then have "u \<in> set ts'" by (auto simp: in_set_conv_nth)
      with assms(2) m show ?thesis by (fastforce simp: current_def)
    qed
  qed
  with d show ?thesis by simp
next
  case (env t rng f g)
  have "current u w" if "u \<in> set ts" for u
    using that assms(2) env unix_seconds_mono [OF env(4)] by (fastforce simp: current_def)
  with env show ?thesis by simp
qed

lemma good_env:
  assumes "good u w" and "db_rows w' = db_rows w" and "os_root w' = os_root w"
    and "data_dir w' = data_dir w" and "os_now w \<le> os_now w'"
  shows "good u w'"
proof -
  note m = unix_seconds_mono [OF assms(5)]
  have "\<exists>r. map_of (db_rows w) i = Some r \<and> row_expires r < unix_seconds (os_now w')"
    if i: "i \<in> set (swept u)" for i
  proof -
    from assms(1) i obtain r where "map_of (db_rows w) i = Some r" "row_expires r < unix_seconds (os_now w)"
      unfolding good_def by blast
    with m show ?thesis by fastforce
  qed
  with assms(1) show ?thesis
    unfolding good_def assms(2,3) paths_data_dir(2) [OF assms(4)] by blast
qed

lemma conc_inv_step:
  assumes "conc_step e (ts, w) (ts', w')" and "conc_inv ts w" and "\<forall>t \<in> set ts'. current t w'"
    and "\<forall>u. e = Start u \<longrightarrow> \<not> wiping u"
  shows "conc_inv ts' w'"
proof -
  from assms(2) have inv: "store_inv w" "\<forall>t \<in> set ts. good t w" "\<forall>t \<in> set ts. \<not> wiping t"
    "\<forall>t \<in> set ts. list_all case_id (names t)"
    "\<And>j k. j < length ts \<Longrightarrow> k < length ts \<Longrightarrow> j \<noteq> k \<Longrightarrow> apart (ts ! j) (ts ! k)"
    by (auto simp: conc_inv_def)
  note earlier = conc_back [OF assms(1,3)]
  from assms(1) show ?thesis
  proof cases
    case (start t)
    have ap: "apart t u" if "u \<in> set ts" for u
      using start that by (intro apart_entering) (auto simp: list_ex_iff)
    have "apart u t" if "u \<in> set ts" for u by (subst apart_sym) (rule ap [OF that])
    with ap have "apart ((ts @ [t]) ! j) ((ts @ [t]) ! k)"
      if "j < Suc (length ts)" "k < Suc (length ts)" "j \<noteq> k" for j k
      using that inv(5) [of j k] by (auto simp: nth_append less_Suc_eq)
    with start inv entering_new [OF start(4)] assms(4) show ?thesis by (simp add: conc_inv_def)
  next
    case (own k t')
    let ?t = "ts ! k"
    have k: "?t \<in> set ts" using own by simp
    with thread_moves [OF inv(1) own(5)] inv have m: "moves (touched ?t) w w'"
      "list_all case_id (names t')" "\<not> wiping t'" by auto
    have good: "good t' w'" using good_step [OF _ inv(1) own(5,4)] inv k by blast
    have other: "good (ts ! j) w' \<and> apart t' (ts ! j)" if j: "j < length ts" "j \<noteq> k" for j
    proof -
      have u: "ts ! j \<in> set ts" "apart ?t (ts ! j)" using j inv(5) own(3) by auto
      with inv k earlier have g: "good ?t w" "good (ts ! j) w" "current ?t w" "current (ts ! j) w" by blast+
      note t = apart_touch [OF g(1,2) u(2) g(3,4)]
      have "good (ts ! j) w'" by (rule good_moves [OF g(2) m(1)]) (use t in blast)+
      with apart_step [OF own(5,4) u(2) g(2)] show ?thesis by blast
    qed
    have "good u w' \<and> \<not> wiping u \<and> list_all case_id (names u)" if "u \<in> set ts'" for u
    proof -
      from that own obtain j where j: "j < length ts" "u = ts[k := t'] ! j" by (auto simp: in_set_conv_nth)
      show ?thesis using j other [of j] good m inv by (cases "j = k") auto
    qed
    moreover have "apart (ts' ! i) (ts' ! j)" if "i < length ts'" "j < length ts'" "i \<noteq> j" for i j
      using that own other [of i] other [of j] inv(5) [of i j] apart_sym
      by (cases "i = k"; cases "j = k") auto
    ultimately show ?thesis using m(1) by (simp add: conc_inv_def moves_def)
  next
    case (env t rng f g)
    have "good u w'" if "u \<in> set ts" for u
      using good_env [of u w w'] that inv(2) env by simp
    moreover have "store_inv w'" using inv(1) env by (simp add: store_inv_def plain_dir_def)
    ultimately show ?thesis using env inv by (simp add: conc_inv_def)
  qed
qed

lemma conc_run_inv:
  assumes "conc_run ([], w) es c" and "store_inv w" and "\<forall>t \<in> set (fst c). current t (snd c)"
    and "\<forall>u. Start u \<in> set es \<longrightarrow> \<not> wiping u"
  shows "conc_inv (fst c) (snd c) \<and> data_dir (snd c) = data_dir w"
  using assms
proof (induction es arbitrary: c rule: rev_induct)
  case Nil
  then have "c = ([], w)" by auto
  with Nil show ?case by (simp add: conc_inv_def)
next
  case (snoc e es)
  then obtain ts1 w1 where r: "conc_run ([], w) es (ts1, w1)" "conc_step e (ts1, w1) c"
    by (auto elim: runs_snocE)
  obtain ts' w' where c: "c = (ts', w')" by fastforce
  with r(2) conc_back [of e ts1 w1 ts' w'] snoc(4) have b: "\<forall>t \<in> set ts1. current t w1" "data_dir w' = data_dir w1"
    by auto
  have "conc_inv ts1 w1 \<and> data_dir w1 = data_dir w" using snoc(1) [OF r(1) snoc(3)] b snoc(5) by simp
  with conc_inv_step [of e ts1 w1 ts' w'] r(2) c snoc(4,5) b show ?case by simp
qed

lemma core_columns:
  "row_core r' = row_core r \<Longrightarrow> row_lookup r' = row_lookup r \<and> row_hash r' = row_hash r \<and> row_salt r' = row_salt r
     \<and> row_created r' = row_created r \<and> row_expires r' = row_expires r"
  by (cases r; cases r') (simp add: row_core_def)

text \<open>C3: submissions, replies, flags and the sweep run at the same time, in any interleaving of
  their database and file system calls and under any faults.  A submission that has returned an
  identifier has its row, with the verifiers it was given, and its encrypted blob on disk, byte
  for byte, and no other submission has returned that identifier; as long as no case created in
  the run has expired and no wipe was started.\<close>

theorem submissions_isolated:
  assumes "conc_run ([], w) es (ts, w')" and "store_inv w" and "\<forall>t \<in> set ts. current t w'"
    and "\<forall>u. Start u \<in> set es \<longrightarrow> \<not> wiping u"
    and "k < length ts" and "ts ! k = TCreate f (CRet r (Inr i))"
  shows "(\<exists>r'. map_of (db_rows w') i = Some r' \<and> row_lookup r' = fil_lookup f \<and> row_hash r' = fil_hash f
        \<and> row_salt r' = fil_salt f \<and> row_expires r' = row_expires r)
     \<and> rd (os_root w') (blobPath w' i) = Some (fil_blob f)
     \<and> (\<forall>j < length ts. j \<noteq> k \<longrightarrow> (\<forall>g s. ts ! j \<noteq> TCreate g (CRet s (Inr i))))"
proof -
  have inv: "conc_inv ts w'" using conc_run_inv [OF assms(1,2)] assms(3,4) by simp
  have "ts ! k \<in> set ts" using assms(5) by simp
  with inv assms(6) have g: "good (TCreate f (CRet r (Inr i))) w'" by (auto simp: conc_inv_def)
  then obtain r' where r': "map_of (db_rows w') i = Some r'" "row_core r' = row_core r"
    unfolding good_def by auto
  from g have "row_lookup r = fil_lookup f \<and> row_hash r = fil_hash f \<and> row_salt r = fil_salt f"
    "rd (os_root w') (blobPath w' i) = Some (fil_blob f)"
    unfolding good_def by auto
  moreover have "ts ! j \<noteq> TCreate g (CRet s (Inr i))" if "j < length ts" "j \<noteq> k" for j g s
  proof
    assume u: "ts ! j = TCreate g (CRet s (Inr i))"
    from inv that assms(5) have "apart (ts ! k) (ts ! j)" by (simp add: conc_inv_def)
    with u assms(6) show False by (simp add: apart_def)
  qed
  ultimately show ?thesis using r'(1) core_columns [OF r'(2)] by auto
qed

text \<open>A case that no thread works on: no submission has inserted it and no collection is about to
  remove it.\<close>

definition left_alone :: "string \<Rightarrow> thread list \<Rightarrow> 'a world_scheme \<Rightarrow> bool" where
  "left_alone i ts w \<longleftrightarrow> store_inv w
     \<and> (\<forall>t \<in> set ts. \<not> wiping t \<and> list_all case_id (names t) \<and> i \<notin> touched t)"

lemma step_touched:
  assumes "thread_step t w = (t', w')" and "store_inv w" and "map_of (db_rows w) i = Some r"
    and "unix_seconds (os_now w) \<le> row_expires r" and "i \<notin> touched t"
  shows "i \<notin> touched t'"
proof (cases "holds t'")
  case (Some js)
  have "holds t' \<noteq> Some (i, s)" for s
    using step_holds [OF assms(1), of i s] assms(3,5) by (auto simp: touched_def)
  with Some show ?thesis by (auto simp: touched_def split: prod.splits)
next
  case None
  have "i \<notin> set (expired_ids w)"
    using expired_iff [OF _ assms(3)] assms(2,4) by (simp add: store_inv_def)
  moreover have "set (swept t') \<subseteq> set (swept t) \<union> set (expired_ids w)"
  proof (cases "(t, w)" rule: thread_step.cases)
    case (5 p v)
    with assms(1) show ?thesis
      by (cases "(p, w)" rule: gc_next.cases) (auto split: prod.splits option.splits if_splits)
  qed (use assms(1) in \<open>auto split: prod.splits\<close>)
  moreover have "swept t' = [] \<or> holds t = None" using assms(1)
    by (cases "(t, w)" rule: thread_step.cases) (auto split: prod.splits)
  ultimately show ?thesis using None assms(5) by (auto simp: touched_def)
qed

lemma step_left_alone:
  assumes "conc_step e (ts, w) (ts', w')" and "left_alone i ts w" and "\<forall>u. e = Start u \<longrightarrow> \<not> wiping u"
    and "map_of (db_rows w) i = Some r" and "unix_seconds (os_now w) \<le> row_expires r"
  shows "keeps i w w' \<and> left_alone i ts' w'"
  using assms(1)
proof cases
  case (start t)
  with assms(2,3) entering_new [OF start(4)] show ?thesis by (auto simp: left_alone_def touched_def)
next
  case (own k t')
  let ?t = "ts ! k"
  have k: "?t \<in> set ts" using own by simp
  with assms(2) have t: "store_inv w" "\<not> wiping ?t" "list_all case_id (names ?t)" "i \<notin> touched ?t"
    by (auto simp: left_alone_def)
  note m = thread_moves [OF t(1) own(5) t(2,3)]
  from m t(4) have "keeps i w w'" "store_inv w'" by (simp_all add: moves_def)
  with own m step_touched [OF own(5) t(1) assms(4,5) t(4)] assms(2) show ?thesis
    by (auto simp: left_alone_def dest!: set_update_subset_insert [THEN subsetD])
next
  case (env t rng f g)
  with assms(2) show ?thesis by (simp add: left_alone_def keeps_def store_inv_def plain_dir_def)
qed

lemma run_left_alone:
  assumes "conc_run ([], w) es (ts, w')" and "store_inv w" and "\<forall>u. Start u \<in> set es \<longrightarrow> \<not> wiping u"
    and "map_of (db_rows w) i = Some r" and "unix_seconds (os_now w') \<le> row_expires r"
  shows "keeps i w w' \<and> left_alone i ts w' \<and> data_dir w' = data_dir w"
  using assms
proof (induction es arbitrary: ts w' rule: rev_induct)
  case Nil
  then show ?case by (auto simp: left_alone_def)
next
  case (snoc e es)
  then obtain ts1 w1 where r: "conc_run ([], w) es (ts1, w1)" "conc_step e (ts1, w1) (ts, w')"
    by (auto elim: runs_snocE)
  note b = step_back [OF r(2)]
  have x: "unix_seconds (os_now w1) \<le> row_expires r"
    using unix_seconds_mono [of "os_now w1" "os_now w'"] b snoc(6) by simp
  have k: "keeps i w w1" "left_alone i ts1 w1" "data_dir w1 = data_dir w"
    using snoc(1) [OF r(1) snoc(3) _ snoc(5) x] snoc(4) by simp_all
  then obtain r1 where r1: "map_of (db_rows w1) i = Some r1" "row_core r1 = row_core r"
    using keeps_row [OF _ snoc(5)] by blast
  have "unix_seconds (os_now w1) \<le> row_expires r1" using x core_columns [OF r1(2)] by simp
  with step_left_alone [OF r(2) k(2) _ r1(1)] snoc(4) have "keeps i w1 w' \<and> left_alone i ts w'" by simp
  with k b keeps_trans [of w1 w i w'] show ?case by simp
qed

text \<open>C5: a case that is in the store when the threads start, and has not expired at the end, keeps
  its verifiers, its times and its encrypted blob, whatever interleaving of submissions, replies,
  flags and the sweep has run since, under any faults and with any lifetime of the other cases,
  as long as no wipe was started.\<close>

theorem case_survives_threads:
  assumes "conc_run ([], w) es (ts, w')" and "store_inv w" and "\<forall>u. Start u \<in> set es \<longrightarrow> \<not> wiping u"
    and "map_of (db_rows w) i = Some r" and "unix_seconds (os_now w') \<le> row_expires r"
  shows "\<exists>r'. map_of (db_rows w') i = Some r'
      \<and> r' = r\<lparr>row_read := row_read r', row_reply := row_reply r'\<rparr>
      \<and> rd (os_root w') (blobPath w' i) = rd (os_root w) (blobPath w i)"
proof -
  from run_left_alone [OF assms] obtain r' where "map_of (db_rows w') i = Some r'" "row_core r' = row_core r"
    "rd (os_root w') (blobPath w i) = rd (os_root w) (blobPath w i)" "data_dir w' = data_dir w"
    using assms(4) by (auto simp: keeps_def)
  then show ?thesis using paths_data_dir(2) [of w' w] core_flags [of r' r] by auto
qed

end
