(* ===== verification/Threads_Demo.thy ===== *)
theory Threads_Demo
  imports Store_Threads Store_Demo
begin

text \<open>
  Concrete interleavings on the demonstration store, and the race of the duress wipe against a
  submission.
\<close>

section \<open>Schedules\<close>

text \<open>\<open>play ks c\<close> lets the threads with the given positions step, in that order.\<close>

fun play :: "nat list \<Rightarrow> thread list \<times> 'a world_scheme \<Rightarrow> thread list \<times> 'a world_scheme" where
  "play [] c = c"
| "play (k # ks) (ts, w) =
     (if k < length ts \<and> \<not> returned (ts ! k)
      then case thread_step (ts ! k) w of (t', w') \<Rightarrow> play ks (ts[k := t'], w')
      else play ks (ts, w))"

lemma play_run: "conc_run c es c1 \<Longrightarrow> \<exists>fs. conc_run c (es @ fs) (play ks c1) \<and> (\<forall>u. Start u \<notin> set fs)"
proof (induction ks c1 arbitrary: es rule: play.induct)
  case (1 c1)
  then show ?case by (intro exI [of _ "[]"]) simp
next
  case (2 k ks ts w)
  show ?case
  proof (cases "k < length ts \<and> \<not> returned (ts ! k)")
    case True
    obtain t' w' where t: "thread_step (ts ! k) w = (t', w')" by fastforce
    with 2(3) True have "conc_run c (es @ [Step k]) (ts[k := t'], w')"
      by (intro runs.snoc [OF 2(3)] conc_step.own) auto
    from 2(1) [OF True t [symmetric] this] obtain fs where
      "conc_run c ((es @ [Step k]) @ fs) (play ks (ts[k := t'], w'))" "\<forall>u. Start u \<notin> set fs" by blast
    then show ?thesis using True t by (intro exI [of _ "Step k # fs"]) auto
  next
    case False
    with 2(2,3) show ?thesis by auto
  qed
qed

definition demo_filing :: filing where
  "demo_filing = \<lparr>fil_lookup = [5], fil_hash = [6], fil_salt = [7], fil_ttl = 86400 * second, fil_blob = [9]\<rparr>"

definition demo_busy :: world where
  "demo_busy = demo_world\<lparr>os_rng := replicate 8 1 @ replicate 8 2\<rparr>"

definition id_1 :: string where "id_1 = hex_EncodeToString (replicate 8 1)"
definition id_2 :: string where "id_2 = hex_EncodeToString (replicate 8 2)"

definition demo_new :: case_row where
  "demo_new = new_row [5] [6] [7] (86400 * second) (7200 * second)"

lemma busy_inv: "store_inv demo_busy"
  using demo_inv by (simp add: demo_busy_def store_inv_def plain_dir_def)

section \<open>Two submissions and the sweep\<close>

text \<open>Two submissions interleave with each other and with a collection that removes the expired
  case; the three threads all return.\<close>

definition demo_threads :: "thread list" where
  "demo_threads = [TCreate demo_filing CEnter, TCreate demo_filing CEnter, TCollect GEnter]"

definition demo_played :: "thread list \<times> world" where
  "demo_played = play [0, 0, 1, 1, 0, 1, 2, 2, 0, 2, 1, 2, 0, 1, 1] (demo_threads, demo_busy)"

lemma played_threads:
  "fst demo_played = [TCreate demo_filing (CRet demo_new (Inr id_1)),
     TCreate demo_filing (CRet demo_new (Inr id_2)), TCollect (GRet 1 None)]"
  by code_simp

lemma played_time: "os_now (snd demo_played) = 7200 * second"
  by code_simp

lemma threads_start: "conc_run ([], w) [Start (TCreate demo_filing CEnter), Start (TCreate demo_filing CEnter),
    Start (TCollect GEnter)] (demo_threads, w)"
proof -
  have "conc_run ([], w) [Start (TCreate demo_filing CEnter)] ([TCreate demo_filing CEnter], w)"
    using conc_step.start [of "TCreate demo_filing CEnter" "[]" w] by (intro runs_one) simp
  from runs.snoc [OF this conc_step.start [of "TCreate demo_filing CEnter"]]
  have "conc_run ([], w) [Start (TCreate demo_filing CEnter), Start (TCreate demo_filing CEnter)]
    ([TCreate demo_filing CEnter, TCreate demo_filing CEnter], w)" by simp
  from runs.snoc [OF this conc_step.start [of "TCollect GEnter"]] show ?thesis by (simp add: demo_threads_def)
qed

lemma demo_plays: "\<exists>es. conc_run ([], demo_busy) es demo_played \<and> (\<forall>u. Start u \<in> set es \<longrightarrow> \<not> wiping u)"
proof -
  from play_run [OF threads_start] obtain fs where
    "conc_run ([], demo_busy) ([Start (TCreate demo_filing CEnter), Start (TCreate demo_filing CEnter),
      Start (TCollect GEnter)] @ fs) demo_played" "\<forall>u. Start u \<notin> set fs"
    unfolding demo_played_def by blast
  then show ?thesis by (intro exI conjI) auto
qed

lemma played_current: "\<forall>t \<in> set (fst demo_played). current t (snd demo_played)"
  unfolding played_threads current_def played_time
  by (auto simp: demo_new_def new_row_def Let_def truncate_hour_def unix_seconds_def second_def hour_def)

lemma busy_root: "os_root demo_busy = demo_tree"
  by (simp add: demo_busy_def)

theorem submissions_isolated_witness:
  "\<exists>es ts w'. conc_run ([], demo_busy) es (ts, w') \<and> ts ! 0 = TCreate demo_filing (CRet demo_new (Inr id_1))
     \<and> ts ! 1 = TCreate demo_filing (CRet demo_new (Inr id_2)) \<and> rd (os_root w') (blobPath w' id_1) = Some [9]"
proof -
  obtain ts w' where p: "demo_played = (ts, w')" by fastforce
  from demo_plays p obtain es where run: "conc_run ([], demo_busy) es (ts, w')"
    "\<forall>u. Start u \<in> set es \<longrightarrow> \<not> wiping u" by auto
  have ts: "ts = [TCreate demo_filing (CRet demo_new (Inr id_1)),
     TCreate demo_filing (CRet demo_new (Inr id_2)), TCollect (GRet 1 None)]" using played_threads unfolding p fst_conv .
  have t: "ts ! 0 = TCreate demo_filing (CRet demo_new (Inr id_1))"
    "ts ! 1 = TCreate demo_filing (CRet demo_new (Inr id_2))" "0 < length ts" by (simp_all add: ts)
  have "\<forall>t \<in> set ts. current t w'" using played_current unfolding p fst_conv snd_conv .
  from submissions_isolated [OF run(1) busy_inv this run(2) t(3,1)]
  have "rd (os_root w') (blobPath w' id_1) = Some (fil_blob demo_filing)" by blast
  then have "rd (os_root w') (blobPath w' id_1) = Some [9]" by (simp add: demo_filing_def)
  with run(1) t show ?thesis by blast
qed

theorem case_survives_threads_witness:
  "\<exists>es ts w'. conc_run ([], demo_busy) es (ts, w') \<and> rd (os_root w') (blobPath w' id_b) = Some [3]
     \<and> map_of (db_rows w') id_b \<noteq> None \<and> ts ! 2 = TCollect (GRet 1 None)"
proof -
  obtain ts w' where p: "demo_played = (ts, w')" by fastforce
  from demo_plays p obtain es where run: "conc_run ([], demo_busy) es (ts, w')"
    "\<forall>u. Start u \<in> set es \<longrightarrow> \<not> wiping u" by auto
  have row: "map_of (db_rows demo_busy) id_b = Some (demo_row 3600 90000)"
    using demo_ids by (simp add: demo_busy_def demo_world_def)
  have "unix_seconds (os_now w') \<le> row_expires (demo_row 3600 90000)"
    using played_time unfolding p snd_conv by (simp add: demo_row_def unix_seconds_def second_def)
  note kept = case_survives_threads [OF run(1) busy_inv run(2) row this]
  have "blobPath demo_busy id_b = blobPath demo_world id_b"
    by (simp add: blobPath_def caseDir_def demo_busy_def)
  then have "rd (os_root demo_busy) (blobPath demo_busy id_b) = Some [3]"
    using demo_ids by (simp add: demo_paths demo_tree_def rd_def busy_root)
  with kept have k: "rd (os_root w') (blobPath w' id_b) = Some [3]" "map_of (db_rows w') id_b \<noteq> None" by auto
  have "ts ! 2 = TCollect (GRet 1 None)" using played_threads unfolding p fst_conv by simp
  with k run(1) show ?thesis by blast
qed

section \<open>The wipe against a submission\<close>

definition race_threads :: "thread list" where
  "race_threads = [TCreate demo_filing CEnter, TWipe WEnter]"

lemma race_starts: "conc_run ([], w) [Start (TCreate demo_filing CEnter), Start (TWipe WEnter)] (race_threads, w)"
proof -
  have "conc_run ([], w) [Start (TCreate demo_filing CEnter)] ([TCreate demo_filing CEnter], w)"
    using conc_step.start [of "TCreate demo_filing CEnter" "[]" w] by (intro runs_one) simp
  from runs.snoc [OF this conc_step.start [of "TWipe WEnter"]] show ?thesis by (simp add: race_threads_def)
qed

lemma race_played:
  "case play [0, 0, 0, 1, 0, 0, 1, 1, 1, 1] (race_threads, demo_busy) of (ts, w) \<Rightarrow>
     ts = [TCreate demo_filing (CRet demo_new (Inr id_1)), TWipe (WRet None)]
     \<and> db_rows w = [] \<and> rd (os_root w) [''data'', ''blob'', id_1, ''case-data.tar.age''] = Some [9]"
  by code_simp

text \<open>C34: the duress wipe does not always remove every submission.  The wipe lists the blob directory
  before it clears the table, and nothing stops a submission in between: there is a run, without
  any fault, in which the wipe and the submission both report success, the table is empty, and
  the submission's encrypted blob is still on disk, where no collection will ever look for it.\<close>

theorem wipe_misses_submission:
  "\<exists>es w'. conc_run ([], demo_busy) es
       ([TCreate demo_filing (CRet demo_new (Inr id_1)), TWipe (WRet None)], w')
     \<and> no_faults demo_busy \<and> db_rows w' = [] \<and> expired_ids w' = []
     \<and> rd (os_root w') [''data'', ''blob'', id_1, ''case-data.tar.age''] = Some [9]"
proof -
  obtain ts w' where p: "play [0, 0, 0, 1, 0, 0, 1, 1, 1, 1] (race_threads, demo_busy) = (ts, w')" by fastforce
  with race_played have w': "ts = [TCreate demo_filing (CRet demo_new (Inr id_1)), TWipe (WRet None)]"
    "db_rows w' = []" "rd (os_root w') [''data'', ''blob'', id_1, ''case-data.tar.age''] = Some [9]" by simp_all
  from play_run [OF race_starts, of demo_busy "[0, 0, 0, 1, 0, 0, 1, 1, 1, 1]"] p w'(1) obtain es where
    "conc_run ([], demo_busy) es ([TCreate demo_filing (CRet demo_new (Inr id_1)), TWipe (WRet None)], w')" by auto
  moreover have "no_faults demo_busy" by (simp add: demo_busy_def demo_world_def no_faults_def)
  moreover have "expired_ids w' = []" using w'(2) by (simp add: expired_ids_def)
  ultimately show ?thesis using w'(2,3) by (intro exI conjI)
qed

end
