(* ===== verification/Secrets_Memory.thy ===== *)
theory Secrets_Memory
  imports Secrets_File
begin

text \<open>
  What stays in memory: \<open>zero\<close> of \<open>internal/kakekomi/secrets.go\<close>, the deferred calls of it in
  \<open>SaveSecrets\<close> and \<open>LoadSecrets\<close>, and the one of \<open>Run\<close> on the passphrase.

  The memory is the list of the buffers allocated so far, addressed by position; a slice is a part
  of a buffer.  A Go string is a slice that is never written, and the conversion \<open>[]byte(s)\<close>
  allocates a buffer and copies.  Only the buffers that hold secrets are modelled: the passphrase,
  the master key and the plain JSON of the secrets; what the library functions allocate for
  themselves, and what the runtime moves or reuses, is not.
\<close>

section \<open>Buffers\<close>

type_synonym mem = "bytes list"

record slice =
  sl_buf :: nat
  sl_off :: nat
  sl_len :: nat

definition make_bytes :: "bytes \<Rightarrow> mem \<Rightarrow> slice \<times> mem" where
  "make_bytes b m = (\<lparr>sl_buf = length m, sl_off = 0, sl_len = length b\<rparr>, m @ [b])"

definition sl_load :: "slice \<Rightarrow> mem \<Rightarrow> bytes" where
  "sl_load s m = take (sl_len s) (drop (sl_off s) (m ! sl_buf s))"

definition sl_store :: "slice \<Rightarrow> nat \<Rightarrow> byte \<Rightarrow> mem \<Rightarrow> mem" where
  "sl_store s i x m = m[sl_buf s := (m ! sl_buf s)[sl_off s + i := x]]"

definition in_mem :: "slice \<Rightarrow> mem \<Rightarrow> bool" where
  "in_mem s m \<longleftrightarrow> sl_buf s < length m \<and> sl_off s + sl_len s \<le> length (m ! sl_buf s)"

text \<open>The loop of \<open>zero\<close>, from an index on.\<close>

fun zero_from :: "nat \<Rightarrow> slice \<Rightarrow> nat \<Rightarrow> mem \<Rightarrow> mem" where
  "zero_from 0 s i m = m"
| "zero_from (Suc n) s i m = zero_from n s (i + 1) (sl_store s i 0 m)"

definition zero :: "slice \<Rightarrow> mem \<Rightarrow> mem" where
  "zero s m = zero_from (sl_len s) s 0 m"

definition string_to_bytes :: "slice \<Rightarrow> mem \<Rightarrow> slice \<times> mem" where
  "string_to_bytes s m = make_bytes (sl_load s m) m"

section \<open>The secrets file in memory\<close>

definition DeriveMasterKey_mem :: "prims \<Rightarrow> slice \<Rightarrow> bytes \<Rightarrow> mem \<Rightarrow> slice \<times> mem" where
  "DeriveMasterKey_mem P passphrase salt m =
     (case string_to_bytes passphrase m of (p, m1) \<Rightarrow>
        make_bytes (DeriveMasterKey P (str_of (sl_load p m1)) salt) m1)"

definition SaveSecrets_mem :: "prims \<Rightarrow> path \<Rightarrow> slice \<Rightarrow> secrets \<Rightarrow> 'a os_scheme \<Rightarrow> mem
    \<Rightarrow> (error option \<times> 'a os_scheme) \<times> mem" where
  "SaveSecrets_mem P dataDir passphrase s w m =
     (case make_bytes (Marshal_secrets s) m of (body, m1) \<Rightarrow>
      (case DeriveMasterKey_mem P passphrase (sx_MasterSalt s) m1 of (master, m2) \<Rightarrow>
        ((case EncryptSymmetric P (sl_load master m2) (sl_load body m2) w of
           (Inl e, w1) \<Rightarrow> (Some e, w1)
         | (Inr blob, w1) \<Rightarrow>
             (case os_MkdirAll (butlast (secretsPath dataDir)) w1 of
                (Some e, w2) \<Rightarrow> (Some e, w2)
              | (None, w2) \<Rightarrow>
                  (case os_WriteFile (secretsPath dataDir) blob w2 of
                     (Some e, w3) \<Rightarrow> (Some e, w3)
                   | (None, w3) \<Rightarrow> os_WriteFile (saltPath dataDir) (sx_MasterSalt s) w3))),
         zero body (zero master m2))))"

definition LoadSecrets_mem :: "prims \<Rightarrow> path \<Rightarrow> slice \<Rightarrow> 'a os_scheme \<Rightarrow> mem \<Rightarrow> (error + secrets) \<times> mem" where
  "LoadSecrets_mem P dataDir passphrase w m =
     (case os_ReadFile (saltPath dataDir) w of
        Inl e \<Rightarrow> (Inl (Wrap ''read salt'' e), m)
      | Inr salt \<Rightarrow>
          (case os_ReadFile (secretsPath dataDir) w of
             Inl e \<Rightarrow> (Inl (Wrap ''read secrets.age'' e), m)
           | Inr blob \<Rightarrow>
               (case DeriveMasterKey_mem P passphrase salt m of (master, m1) \<Rightarrow>
                (case DecryptSymmetric P (sl_load master m1) blob of
                   Inl e \<Rightarrow> (Inl errSecretsDecrypt, zero master m1)
                 | Inr plain \<Rightarrow>
                     (case make_bytes plain m1 of (body, m2) \<Rightarrow>
                        ((case Unmarshal_secrets (sl_load body m2) of
                           Inl e \<Rightarrow> Inl (Wrap ''parse secrets'' e)
                         | Inr s \<Rightarrow> Inr s),
                         zero master (zero body m2)))))))"

text \<open>\<open>LoadSecrets\<close> in \<open>Run\<close>, and the line after it.\<close>

definition unlock_secrets :: "prims \<Rightarrow> path \<Rightarrow> slice \<Rightarrow> 'a os_scheme \<Rightarrow> mem \<Rightarrow> (error + secrets) \<times> mem" where
  "unlock_secrets P dataDir passphrase w m =
     (case LoadSecrets_mem P dataDir passphrase w m of (r, m1) \<Rightarrow>
        (case string_to_bytes passphrase m1 of (copy, m2) \<Rightarrow> (r, zero copy m2)))"

section \<open>Laws\<close>

lemma zero_from_other: "k \<noteq> sl_buf s \<Longrightarrow> zero_from n s i m ! k = m ! k"
  by (induction n s i m rule: zero_from.induct) (simp_all add: sl_store_def)

lemma zero_from_length [simp]: "length (zero_from n s i m) = length m"
  by (induction n s i m rule: zero_from.induct) (simp_all add: sl_store_def)

lemma zero_from_cells:
  "sl_buf s < length m \<Longrightarrow> sl_off s + i + n \<le> length (m ! sl_buf s) \<Longrightarrow>
   zero_from n s i m ! sl_buf s =
     take (sl_off s + i) (m ! sl_buf s) @ replicate n 0 @ drop (sl_off s + i + n) (m ! sl_buf s)"
proof (induction n s i m rule: zero_from.induct)
  case (2 n s i m)
  let ?b = "m ! sl_buf s" and ?k = "sl_off s + i"
  have k: "?k < length ?b" using 2(3) by simp
  have "zero_from (Suc n) s i m ! sl_buf s = take (Suc ?k) (?b[?k := 0]) @ replicate n 0 @ drop (Suc ?k + n) (?b[?k := 0])"
    using 2 by (simp add: sl_store_def)
  also have "\<dots> = take ?k ?b @ replicate (Suc n) 0 @ drop (?k + Suc n) ?b"
    using k by (simp add: take_Suc_conv_app_nth)
  finally show ?case .
qed simp

text \<open>\<open>zero\<close> clears its slice, and nothing else.\<close>

lemma zero_clears:
  assumes "in_mem s m"
  shows "sl_load s (zero s m) = replicate (sl_len s) 0"
    and "k \<noteq> sl_buf s \<Longrightarrow> zero s m ! k = m ! k"
  using assms zero_from_cells [of s m 0 "sl_len s"]
  by (simp_all add: zero_def sl_load_def in_mem_def zero_from_other)

lemma zero_whole: "zero \<lparr>sl_buf = length m, sl_off = 0, sl_len = length b\<rparr> (m @ b # ms) = m @ replicate (length b) 0 # ms"
proof (rule nth_equalityI)
  let ?s = "\<lparr>sl_buf = length m, sl_off = 0, sl_len = length b\<rparr>"
  fix k
  assume "k < length (zero ?s (m @ b # ms))"
  show "zero ?s (m @ b # ms) ! k = (m @ replicate (length b) 0 # ms) ! k"
  proof (cases "k = length m")
    case True
    then show ?thesis using zero_from_cells [of ?s "m @ b # ms" 0 "length b"] by (simp add: zero_def)
  next
    case False
    then show ?thesis by (simp add: zero_def zero_from_other nth_append nth_Cons')
  qed
qed (simp add: zero_def)

lemma load_make: "sl_load \<lparr>sl_buf = length m, sl_off = 0, sl_len = length b\<rparr> (m @ b # ms) = b"
  by (simp add: sl_load_def)

lemma load_keeps: "in_mem s m \<Longrightarrow> sl_load s (m @ ms) = sl_load s m"
  by (simp add: sl_load_def in_mem_def nth_append)

text \<open>The buffers that the two functions leave behind.\<close>

lemma SaveSecrets_mem_eq:
  assumes "in_mem pw m"
  shows "SaveSecrets_mem P d pw s w m =
    (SaveSecrets P d (str_of (sl_load pw m)) s w,
     m @ [replicate (length (Marshal_secrets s)) 0, sl_load pw m,
          replicate (length (DeriveMasterKey P (str_of (sl_load pw m)) (sx_MasterSalt s))) 0])"
proof -
  let ?b = "Marshal_secrets s" and ?p = "sl_load pw m"
  let ?k = "DeriveMasterKey P (str_of ?p) (sx_MasterSalt s)"
  have "zero \<lparr>sl_buf = Suc (Suc (length m)), sl_off = 0, sl_len = length ?k\<rparr> (m @ [?b, ?p, ?k])
      = m @ [?b, ?p, replicate (length ?k) 0]"
    using zero_whole [of "m @ [?b, ?p]" ?k "[]"] by simp
  moreover have "sl_load \<lparr>sl_buf = Suc (Suc (length m)), sl_off = 0, sl_len = length ?k\<rparr> (m @ [?b, ?p, ?k]) = ?k"
    using load_make [of "m @ [?b, ?p]" ?k "[]"] by simp
  moreover have "sl_load \<lparr>sl_buf = Suc (length m), sl_off = 0, sl_len = length ?p\<rparr> (m @ [?b, ?p]) = ?p"
    using load_make [of "m @ [?b]" ?p "[]"] by simp
  ultimately show ?thesis
    using load_keeps [OF assms, of "[?b]"]
    by (simp add: SaveSecrets_mem_def DeriveMasterKey_mem_def string_to_bytes_def make_bytes_def SaveSecrets_def
        Let_def zero_whole load_make)
qed

lemma LoadSecrets_mem_eq:
  assumes "in_mem pw m"
  shows "\<exists>ms. LoadSecrets_mem P d pw w m = (LoadSecrets P d (str_of (sl_load pw m)) w, m @ ms)
     \<and> (ms = [] \<or> (\<exists>zs. ms = sl_load pw m # zs \<and> (\<forall>z \<in> set zs. z = replicate (length z) 0)))"
proof (cases "os_ReadFile (saltPath d) w")
  case (Inl e)
  then show ?thesis by (auto simp: LoadSecrets_mem_def LoadSecrets_def)
next
  case salt: (Inr salt)
  show ?thesis
  proof (cases "os_ReadFile (secretsPath d) w")
    case (Inl e)
    with salt show ?thesis by (auto simp: LoadSecrets_mem_def LoadSecrets_def)
  next
    case (Inr blob)
    let ?p = "sl_load pw m"
    let ?k = "DeriveMasterKey P (str_of ?p) salt"
    let ?s = "\<lparr>sl_buf = Suc (length m), sl_off = 0, sl_len = length ?k\<rparr>"
    have k: "sl_load ?s (m @ [?p, ?k]) = ?k" using load_make [of "m @ [?p]" ?k "[]"] by simp
    have p: "sl_load \<lparr>sl_buf = length m, sl_off = 0, sl_len = length ?p\<rparr> (m @ [?p]) = ?p" by (rule load_make)
    note eqs = salt Inr k p LoadSecrets_mem_def LoadSecrets_def DeriveMasterKey_mem_def string_to_bytes_def
      make_bytes_def Let_def
    show ?thesis
    proof (cases "DecryptSymmetric P ?k blob")
      case (Inl e)
      have "zero ?s (m @ [?p, ?k]) = m @ [?p, replicate (length ?k) 0]"
        using zero_whole [of "m @ [?p]" ?k "[]"] by simp
      with Inl show ?thesis by (simp add: eqs)
    next
      case (Inr body)
      let ?b = "\<lparr>sl_buf = Suc (Suc (length m)), sl_off = 0, sl_len = length body\<rparr>"
      have "sl_load ?b (m @ [?p, ?k, body]) = body" using load_make [of "m @ [?p, ?k]" body "[]"] by simp
      moreover have "zero ?s (zero ?b (m @ [?p, ?k, body])) = m @ [?p, replicate (length ?k) 0, replicate (length body) 0]"
        using zero_whole [of "m @ [?p, ?k]" body "[]"] zero_whole [of "m @ [?p]" ?k "[replicate (length body) 0]"] by simp
      ultimately show ?thesis using Inr by (simp add: eqs split: sum.splits)
    qed
  qed
qed

text \<open>C26: opening the secrets leaves no master key and no plain text of the secrets in memory: on every
  path, with the right and with a wrong passphrase, every buffer that \<open>LoadSecrets\<close> allocated for
  them is zero when it returns, and its result is the one of the model without memory.  What
  stays is the copy of the passphrase that \<open>DeriveMasterKey\<close> makes.\<close>

theorem secrets_cleared:
  assumes "in_mem pw m" and "LoadSecrets_mem P d pw w m = (r, m')"
  shows "r = LoadSecrets P d (str_of (sl_load pw m)) w \<and> take (length m) m' = m
     \<and> (\<forall>b \<in> set (drop (length m) m'). b = replicate (length b) 0 \<or> b = sl_load pw m)"
proof -
  from LoadSecrets_mem_eq [OF assms(1), of P d w] assms(2) obtain ms where
    "r = LoadSecrets P d (str_of (sl_load pw m)) w" "m' = m @ ms"
    "ms = [] \<or> (\<exists>zs. ms = sl_load pw m # zs \<and> (\<forall>z \<in> set zs. z = replicate (length z) 0))" by auto
  then show ?thesis by auto
qed

text \<open>C35: the call of \<open>zero\<close> on the passphrase in \<open>Run\<close> clears nothing that holds the passphrase: the
  string keeps every byte of it, as it did before the call, and so does the copy made for the key
  derivation whenever the two files could be read.\<close>

theorem passphrase_survives_zero:
  assumes "in_mem pw m" and "unlock_secrets P d pw w m = (r, m')"
    and "os_ReadFile (saltPath d) w = Inr salt" and "os_ReadFile (secretsPath d) w = Inr blob"
  shows "sl_load pw m' = sl_load pw m \<and> m' ! length m = sl_load pw m \<and> length m < length m'"
proof -
  obtain ms where l: "LoadSecrets_mem P d pw w m = (LoadSecrets P d (str_of (sl_load pw m)) w, m @ ms)"
    and ms: "ms = [] \<or> (\<exists>zs. ms = sl_load pw m # zs \<and> (\<forall>z \<in> set zs. z = replicate (length z) 0))"
    using LoadSecrets_mem_eq [OF assms(1)] by blast
  have "snd (LoadSecrets_mem P d pw w m) \<noteq> m"
    using assms(3,4)
    by (auto simp: LoadSecrets_mem_def DeriveMasterKey_mem_def string_to_bytes_def make_bytes_def zero_def
        split: sum.splits prod.splits dest!: arg_cong [where f = length])
  with l ms obtain zs where zs: "ms = sl_load pw m # zs" by auto
  have "m' = m @ ms @ [replicate (length (sl_load pw m)) 0]"
    using assms(2) l zero_whole [of "m @ ms" "sl_load pw (m @ ms)" "[]"] load_keeps [OF assms(1), of ms]
    by (simp add: unlock_secrets_def string_to_bytes_def make_bytes_def)
  then show ?thesis using zs load_keeps [OF assms(1)] by (simp add: nth_append)
qed

end
