(* ===== verification/Memory_Demo.thy ===== *)
theory Memory_Demo
  imports Secrets_Memory Server_Demo
begin

text \<open>
  The instances of the properties of \<open>Secrets_Memory\<close>: the secrets of the demonstration server,
  opened with the passphrase that lies in the first buffer of the memory.
\<close>

definition demo_pw :: slice where
  "demo_pw = \<lparr>sl_buf = 0, sl_off = 0, sl_len = 2\<rparr>"

definition demo_mem :: mem where
  "demo_mem = [bytes_of ''pw'']"

lemma demo_pw_facts: "in_mem demo_pw demo_mem" "sl_load demo_pw demo_mem = bytes_of ''pw''"
  by (simp_all add: in_mem_def sl_load_def demo_pw_def demo_mem_def)

lemma run_files:
  "\<exists>salt. os_ReadFile (saltPath []) (run_world blob) = Inr salt"
  "\<exists>b. os_ReadFile (secretsPath []) (run_world blob) = Inr b"
  by (simp_all add: secrets_paths [OF demo_dir] run_world_def run_tree_def os_ReadFile_def)

theorem secrets_cleared_witness:
  "\<exists>blob m'. LoadSecrets_mem demo_prims [] demo_pw (run_world blob) demo_mem = (Inr demo_secrets, m')
     \<and> (\<forall>b \<in> set (drop 1 m'). b = replicate (length b) 0 \<or> b = bytes_of ''pw'')"
proof -
  obtain blob where b: "LoadSecrets demo_prims [] ''pw'' (run_world blob) = Inr demo_secrets"
    using run_secrets by blast
  obtain r m' where l: "LoadSecrets_mem demo_prims [] demo_pw (run_world blob) demo_mem = (r, m')" by fastforce
  from secrets_cleared [OF demo_pw_facts(1) l] b l show ?thesis
    by (auto simp: demo_pw_facts(2)) (auto simp: demo_mem_def)
qed

theorem passphrase_survives_zero_witness:
  "\<exists>blob m'. unlock_secrets demo_prims [] demo_pw (run_world blob) demo_mem = (Inr demo_secrets, m')
     \<and> sl_load demo_pw m' = bytes_of ''pw'' \<and> m' ! 1 = bytes_of ''pw''"
proof -
  obtain blob where b: "LoadSecrets demo_prims [] ''pw'' (run_world blob) = Inr demo_secrets"
    using run_secrets by blast
  obtain r m' where l: "unlock_secrets demo_prims [] demo_pw (run_world blob) demo_mem = (r, m')" by fastforce
  obtain salt c where f: "os_ReadFile (saltPath []) (run_world blob) = Inr salt"
    "os_ReadFile (secretsPath []) (run_world blob) = Inr c" using run_files by blast
  have "fst (LoadSecrets_mem demo_prims [] demo_pw (run_world blob) demo_mem) = Inr demo_secrets"
    using LoadSecrets_mem_eq [OF demo_pw_facts(1), of demo_prims "[]" "run_world blob"] b demo_pw_facts(2) by auto
  with l have "r = Inr demo_secrets" by (auto simp: unlock_secrets_def split: prod.splits)
  moreover have "length demo_mem = 1" by (simp add: demo_mem_def)
  ultimately show ?thesis
    using passphrase_survives_zero [OF demo_pw_facts(1) l f] l unfolding demo_pw_facts(2) by fastforce
qed

end
