(* ===== verification/Store_Match.thy ===== *)
theory Store_Match
  imports Store_Demo
begin

text \<open>
  Rows and files agree.  \<open>matched\<close> says that every case has its encrypted
  blob, and that every file below the blob directory lies in the directory of a case.  It is an
  invariant of the store as long as what removes works: the disk does not refuse to list, to stat
  or to remove, and the database does not refuse a \<open>DELETE\<close>.  Anything else may fail at any time,
  writes, directories, insertions, queries and entropy, so that every error path of
  \<open>CreateCase\<close> is taken.
\<close>

section \<open>The invariant\<close>

definition tidy :: "'a world_scheme \<Rightarrow> bool" where
  "tidy w \<longleftrightarrow> removes_ok w \<and> db_fault w DbDeleteAll = None \<and> (\<forall>i. db_fault w (DbDelete i) = None)"

definition blobs_there :: "'a world_scheme \<Rightarrow> bool" where
  "blobs_there w \<longleftrightarrow> (\<forall>i. map_of (db_rows w) i \<noteq> None \<longrightarrow> rd (os_root w) (blobPath w i) \<noteq> None)"

definition owned :: "'a world_scheme \<Rightarrow> path \<Rightarrow> bool" where
  "owned w q \<longleftrightarrow> (\<exists>i t. map_of (db_rows w) i \<noteq> None \<and> t \<noteq> [] \<and> q = caseDir w i @ t)"

definition blobs_dir :: "'a world_scheme \<Rightarrow> path" where
  "blobs_dir w = data_dir w @ [''blob'']"

definition files_owned :: "'a world_scheme \<Rightarrow> bool" where
  "files_owned w \<longleftrightarrow> (\<forall>q. prefix (blobs_dir w) q \<longrightarrow> rd (os_root w) q \<noteq> None \<longrightarrow> owned w q)"

definition matched :: "'a world_scheme \<Rightarrow> bool" where
  "matched w \<longleftrightarrow> store_inv w \<and> blobs_there w \<and> files_owned w"

lemma case_below: "plain_dir w \<Longrightarrow> plain_comp i \<Longrightarrow> caseDir w i = blobs_dir w @ [i]"
  by (simp add: caseDir_plain blobs_dir_def)

lemma owned_case:
  assumes "store_inv w" and "owned w q"
  obtains i r t where "map_of (db_rows w) i = Some r" "case_id i" "t \<noteq> []" "q = blobs_dir w @ i # t"
proof -
  from assms(2) obtain i t where i: "map_of (db_rows w) i \<noteq> None" "t \<noteq> []" "q = caseDir w i @ t"
    by (auto simp: owned_def)
  then obtain r where r: "map_of (db_rows w) i = Some r" by auto
  with assms(1) have "case_id i" "plain_comp i" "plain_dir w"
    using store_inv_id [OF assms(1) r] by (simp_all add: store_inv_def)
  with r i that case_below [of w i] show thesis by simp
qed

text \<open>No file lies in the directory of an identifier that no row has, and no case directory is a
  file.\<close>

lemma unused_clear:
  assumes "matched w" and "case_id i" and "map_of (db_rows w) i = None" and "prefix (caseDir w i) q"
  shows "rd (os_root w) q = None"
proof (rule ccontr)
  assume f: "rd (os_root w) q \<noteq> None"
  have inv: "store_inv w" "plain_dir w" using assms(1) by (simp_all add: matched_def store_inv_def)
  have c: "caseDir w i = blobs_dir w @ [i]" using inv assms(2) by (simp add: case_below case_id_plain)
  with assms(4) have "prefix (blobs_dir w) q" by (auto dest: append_prefixD)
  with f assms(1) have "owned w q" by (auto simp: matched_def files_owned_def)
  then obtain j r t where "map_of (db_rows w) j = Some r" "q = blobs_dir w @ j # t"
    using owned_case [OF inv(1)] by metis
  with assms(3,4) c show False by auto
qed

lemma case_not_file:
  assumes "matched w" and "map_of (db_rows w) i = Some r"
  shows "rd (os_root w) (caseDir w i) = None"
proof (rule ccontr)
  assume f: "rd (os_root w) (caseDir w i) \<noteq> None"
  have inv: "store_inv w" "plain_dir w" using assms(1) by (simp_all add: matched_def store_inv_def)
  have c: "caseDir w i = blobs_dir w @ [i]" using inv store_inv_id [OF inv(1) assms(2)] by (simp add: case_below)
  then have "owned w (caseDir w i)" using f assms(1) by (auto simp: matched_def files_owned_def)
  then show False using c owned_case [OF inv(1)] by (metis append.assoc append_Cons append_Nil list.distinct(1) same_append_eq list.inject)
qed

section \<open>Creation\<close>

lemma rd_upto_all: "(\<And>p. files_upto p w w') \<Longrightarrow> rd (os_root w') q = rd (os_root w) q"
  using upto_rd [of "q @ [[]]" w w' q] by simp

lemma WriteFile_other: "os_WriteFile p b w = (e, w') \<Longrightarrow> q \<noteq> p \<Longrightarrow> rd (os_root w') q = rd (os_root w) q"
  by (auto simp: os_WriteFile_def rd_wr_other split: fault.splits option.splits)

text \<open>What \<open>CreateCase\<close> leaves on a tidy disk: nothing when it fails, the blob when it succeeds.\<close>

definition create_left :: "'a world_scheme \<Rightarrow> error + string \<Rightarrow> 'a world_scheme \<Rightarrow> bool" where
  "create_left w res w' \<longleftrightarrow>
     (\<forall>q. (case res of Inl e \<Rightarrow> True | Inr i \<Rightarrow> q \<noteq> blobPath w i) \<longrightarrow> rd (os_root w') q = rd (os_root w) q)"

lemma create_loop_left:
  assumes "create_loop n r blob w = (res, w')" and "plain_dir w" and "removes_ok w"
    and "\<And>i q. case_id i \<Longrightarrow> map_of (db_rows w) i = None \<Longrightarrow> prefix (caseDir w i) q \<Longrightarrow> rd (os_root w) q = None"
  shows "create_left w res w'"
  using assms
proof (induction n r blob w rule: create_loop.induct)
  case (1 r blob w)
  then show ?case by (simp add: create_left_def)
next
  case (2 n r blob w)
  obtain nr w1 where nid: "NewID w = (nr, w1)" by fastforce
  have w1: "files_upto p w w1" "db_rows w1 = db_rows w" for p using NewID_upto [OF nid] by auto
  note p1 = paths_data_dir [of w1 w] upto_dir [OF w1(1)]
  note rd1 = rd_upto_all [OF w1(1)]
  show ?case
  proof (cases nr)
    case (Inl e)
    with nid 2(2) rd1 show ?thesis by (simp add: create_left_def)
  next
    case (Inr i)
    then have i: "case_id i" using nid NewID_case_id by blast
    obtain ie w2 where ins: "db_insert i r w1 = (ie, w2)" by fastforce
    have w2: "files_upto p w1 w2" for p using insert_cases [OF ins] by blast
    note p2 = paths_data_dir [of w2 w1] upto_dir [OF w2]
    note rd2 = rd_upto_all [OF w2]
    show ?thesis
    proof (cases ie)
      case (Some e)
      then have "w2 = w1" using insert_cases [OF ins, of "[]"] by auto
      show ?thesis
      proof (cases "isUniqueErr (Some e)")
        case False
        with 2(2) nid Inr ins Some \<open>w2 = w1\<close> rd1 show ?thesis by (auto simp: create_left_def)
      next
        case True
        then have run: "create_loop n r blob w2 = (res, w')"
          using 2(2) nid Inr ins Some by simp
        have "create_left w2 res w'"
          using 2(1) [OF nid [symmetric] Inr ins [symmetric] Some True run] 2(3-5) p1 \<open>w2 = w1\<close> rd1 w1(2)
          by (simp add: removes_ok_def)
        with rd1 p1 \<open>w2 = w1\<close> show ?thesis by (cases res) (simp_all add: create_left_def)
      qed
    next
      case None
      with insert_cases [OF ins, of "[]"] w1(2) have new: "map_of (db_rows w) i = None" by auto
      obtain me w3 where mk: "os_MkdirAll (caseDir w2 i) w2 = (me, w3)" by fastforce
      have w3: "files_upto p w2 w3" for p using mkdir_upto [OF mk] by blast
      note p3 = paths_data_dir [of w3 w2] upto_dir [OF w3]
      note rd3 = rd_upto_all [OF w3]
      have dl: "rd (os_root (snd (db_delete i v))) q = rd (os_root v) q" for v :: "'a world_scheme" and q
        by (simp add: db_delete_def db_exec_def split: option.split)
      show ?thesis
      proof (cases me)
        case (Some e)
        with 2(2) nid Inr ins None mk dl rd1 rd2 rd3 show ?thesis by (auto simp: create_left_def)
      next
        case none: None
        obtain we w4 where wr: "os_WriteFile (blobPath w3 i) blob w3 = (we, w4)" by fastforce
        have bp: "blobPath w3 i = blobPath w i" "caseDir w4 i = caseDir w i"
          using p1 p2 p3 upto_dir [OF conjunct1 [OF write_upto [of "blobPath w3 i" "[]" blob w3 we w4]]] wr
            paths_data_dir [of w3 w] paths_data_dir [of w4 w] by simp_all
        have rd4: "rd (os_root w4) q = rd (os_root w) q" if "q \<noteq> blobPath w i" for q
          using WriteFile_other [OF wr, of q] that bp rd1 rd2 rd3 by simp
        show ?thesis
        proof (cases we)
          case w: None
          with 2(2) nid Inr ins None mk none wr rd4 show ?thesis by (auto simp: create_left_def)
        next
          case (Some e)
          have f4: "removes_ok w4"
            using 2(4) p1 p2 p3 upto_dir [OF conjunct1 [OF write_upto [of "blobPath w3 i" "[]" blob w3 we w4]]] wr
            by (simp add: removes_ok_def)
          have ne: "caseDir w i \<noteq> []" using 2(3) i by (simp add: caseDir_nonempty case_id_plain)
          have pre: "prefix (caseDir w i) (blobPath w i)"
            using 2(3) i by (simp add: blobPath_plain case_id_plain)
          have "rd (os_root (snd (os_RemoveAll (caseDir w4 i) w4))) q = rd (os_root w) q" for q
          proof (cases "prefix (caseDir w i) q")
            case True
            with 2(5) [OF i new True] f4 bp ne show ?thesis
              by (simp add: os_RemoveAll_def removes_ok_def rd_del)
          next
            case False
            with pre have "q \<noteq> blobPath w i" by auto
            with False rd4 f4 bp ne show ?thesis by (simp add: os_RemoveAll_def removes_ok_def rd_del)
          qed
          with 2(2) nid Inr ins None mk none wr Some dl show ?thesis by (auto simp: create_left_def)
        qed
      qed
    qed
  qed
qed

lemma create_matched:
  assumes "matched w" and "tidy w" and "CreateCase cl ch cs ttl blob w = (res, w')"
  shows "matched w'"
proof -
  have inv: "store_inv w" "plain_dir w" using assms(1) by (simp_all add: matched_def store_inv_def)
  note cr = create_inv [OF inv(1) assms(3)]
  have d: "data_dir w' = data_dir w" "os_now w' = os_now w" using cr by blast+
  note p = paths_data_dir [OF d(1)]
  have left: "create_left w res w'"
    using create_loop_left [OF assms(3) [unfolded CreateCase_def] inv(2)] assms(2) unused_clear [OF assms(1)]
    by (simp add: tidy_def)
  have "res = Inl e \<Longrightarrow> db_rows w' = db_rows w" for e
    using create_loop_result [OF inv(1) assms(3)] assms(2) by (auto simp: create_result_def tidy_def)
  moreover have "\<exists>r. case_id i \<and> db_rows w' = rows_ins i r (db_rows w) \<and> map_of (db_rows w) i = None
      \<and> rd (os_root w') (blobPath w i) \<noteq> None" if "res = Inr i" for i
    using create_loop_result [OF inv(1) assms(3)] that by (auto simp: create_result_def)
  ultimately consider (no) e where "res = Inl e" "db_rows w' = db_rows w"
    | (yes) i r where "res = Inr i" "case_id i" "db_rows w' = rows_ins i r (db_rows w)"
        "map_of (db_rows w) i = None" "rd (os_root w') (blobPath w i) \<noteq> None"
    by (cases res) blast+
  then show ?thesis
  proof cases
    case no
    with left have "rd (os_root w') q = rd (os_root w) q" for q by (simp add: create_left_def)
    with no assms(1) cr p d show ?thesis
      by (simp add: matched_def blobs_there_def files_owned_def owned_def blobs_dir_def)
  next
    case yes
    have m: "map_of (db_rows w') j = (if j = i then Some r else map_of (db_rows w) j)" for j
      using yes(3,4) by (auto simp: rows_ins_def map_add_def split: option.splits)
    have bp: "blobPath w i = blobs_dir w @ [i, ''case-data.tar.age'']"
      using inv(2) yes(2) by (simp add: blobPath_plain case_below case_id_plain)
    have "blobs_there w'"
      unfolding blobs_there_def
    proof (intro allI impI)
      fix j
      assume j: "map_of (db_rows w') j \<noteq> None"
      show "rd (os_root w') (blobPath w' j) \<noteq> None"
      proof (cases "j = i")
        case True
        with yes(5) p show ?thesis by simp
      next
        case False
        with m j obtain s where s: "map_of (db_rows w) j = Some s" by auto
        with assms(1) have "rd (os_root w) (blobPath w j) \<noteq> None"
          by (auto simp: matched_def blobs_there_def)
        moreover have "keeps j w w'" using create_inv [OF inv(1) assms(3)] by blast
        ultimately show ?thesis using s p by (auto simp: keeps_def)
      qed
    qed
    moreover have "files_owned w'"
      unfolding files_owned_def
    proof (intro allI impI)
      fix q
      assume q: "prefix (blobs_dir w') q" "rd (os_root w') q \<noteq> None"
      show "owned w' q"
      proof (cases "q = blobPath w i")
        case True
        with m bp p inv(2) yes(2) show ?thesis
          unfolding owned_def by (intro exI [of _ i] exI [of _ "[''case-data.tar.age'']"]) (simp add: case_below case_id_plain)
      next
        case False
        with left yes(1) q d assms(1) have "owned w q"
          by (simp add: create_left_def matched_def files_owned_def blobs_dir_def)
        then obtain j t where "map_of (db_rows w) j \<noteq> None" "t \<noteq> []" "q = caseDir w j @ t" by (auto simp: owned_def)
        with m [of j] p show ?thesis unfolding owned_def by (intro exI [of _ j] exI [of _ t]) simp
      qed
    qed
    ultimately show ?thesis using cr by (simp add: matched_def)
  qed
qed

lemma create_tidy:
  assumes "store_inv w" and "tidy w" and "CreateCase cl ch cs ttl blob w = (res, w')"
  shows "tidy w'"
proof -
  obtain p where "files_upto p w w'"
    using create_loop_result [OF assms(1,3)] by (auto simp: create_result_def)
  then show ?thesis using assms(2) upto_dir [of p w w'] by (simp add: tidy_def removes_ok_def)
qed

section \<open>Flags, replies and the sweep\<close>

lemma matched_frame:
  assumes "matched w" and "store_inv w'" and "data_dir w' = data_dir w"
    and "\<And>i. keeps i w w'" and "dom (map_of (db_rows w')) = dom (map_of (db_rows w))"
    and "\<And>q. rd (os_root w') q \<noteq> None \<Longrightarrow> rd (os_root w) q \<noteq> None \<or> owned w q"
  shows "matched w'"
proof -
  note p = paths_data_dir [OF assms(3)]
  have s: "map_of (db_rows w') i \<noteq> None \<longleftrightarrow> map_of (db_rows w) i \<noteq> None" for i
    using assms(5) by (simp only: domIff [symmetric])
  have "rd (os_root w') (blobPath w' i) \<noteq> None" if r: "map_of (db_rows w') i \<noteq> None" for i
  proof -
    from r s have "map_of (db_rows w) i \<noteq> None" by blast
    with assms(1) assms(4) [of i] p show ?thesis by (auto simp: keeps_def matched_def blobs_there_def)
  qed
  moreover have "owned w' q" if "prefix (blobs_dir w') q" "rd (os_root w') q \<noteq> None" for q
  proof -
    have "owned w q" using assms(1) assms(6) [OF that(2)] that(1) assms(3)
      unfolding matched_def files_owned_def blobs_dir_def by metis
    with p s show ?thesis by (simp only: owned_def)
  qed
  ultimately show ?thesis using assms(2) by (simp add: matched_def blobs_there_def files_owned_def)
qed

lemma dom_upd: "dom (map_of (rows_upd j f rows)) = dom (map_of rows)"
  by (simp add: dom_map_of_conv_image_fst flip: set_map)

lemma exec_matched:
  assumes "matched w" and "db_exec st (rows_upd j f) w = (e, w')" and "\<And>r. row_core (f r) = row_core r"
  shows "matched w'"
proof -
  have inv: "store_inv w" using assms(1) by (simp add: matched_def)
  note k = exec_upd_keeps [OF inv assms(2,3)] and u = exec_upto [OF assms(2)]
  have "dom (map_of (db_rows w')) = dom (map_of (db_rows w))" using u by (auto simp: dom_upd)
  moreover have "rd (os_root w') q \<noteq> None \<Longrightarrow> rd (os_root w) q \<noteq> None \<or> owned w q" for q using u by simp
  ultimately show ?thesis using k by (intro matched_frame [OF assms(1)]) simp_all
qed

lemma reply_matched:
  assumes "matched w" and "WriteReply j blob w = (e, w')"
  shows "matched w'"
proof (cases "GetCase j w")
  case (Inl x)
  with assms show ?thesis by (simp add: WriteReply_def)
next
  case (Inr ci)
  then obtain r where r: "map_of (db_rows w) j = Some r" by (auto simp: GetCase_def split: option.splits)
  have inv: "store_inv w" using assms(1) by (simp add: matched_def)
  have pj: "plain_comp j" "plain_dir w" using inv store_inv_id [OF inv r] by (simp_all add: store_inv_def)
  obtain we w1 where wr: "os_WriteFile (replyPath w j) blob w = (we, w1)" by fastforce
  have u: "files_upto (replyPath w j) w w1" "db_rows w1 = db_rows w"
    using write_upto [of "replyPath w j" "[]" blob w we w1] wr by simp_all
  have "\<not> prefix (replyPath w j) (blobPath w i)" if "plain_comp i" for i
    using that pj by (simp add: replyPath_plain blobPath_plain caseDir_plain)
  then have k: "keeps i w w1" for i
    using u upto_rd [OF u(1)] store_inv_id [OF inv] by (auto simp: keeps_def)
  have "owned w (replyPath w j)"
    unfolding owned_def using r pj by (intro exI [of _ j] exI [of _ "[''reply.bin'']"]) (simp add: replyPath_plain)
  then have "rd (os_root w) q \<noteq> None \<or> owned w q" if "rd (os_root w1) q \<noteq> None" for q
    using that WriteFile_other [OF wr, of q] by (cases "q = replyPath w j") auto
  then have m: "matched w1"
    using matched_frame [OF assms(1) inv_upto [OF inv u(1)] _ k] u upto_dir [OF u(1)] by simp
  show ?thesis
  proof (cases we)
    case (Some x)
    with assms(2) Inr wr m show ?thesis by (simp add: WriteReply_def)
  next
    case None
    with assms(2) Inr wr have "db_exec (DbSetReply j) (rows_upd j (\<lambda>r. r\<lparr>row_reply := 1\<rparr>)) w1 = (e, w')"
      by (simp add: WriteReply_def)
    with m show ?thesis by (rule exec_matched) (simp add: row_core_def)
  qed
qed

lemma gc_matched:
  assumes "matched w" and "tidy w" and "GC w = (ne, w')"
  shows "matched w'"
proof (cases "db_fault w DbExpired")
  case (Some x)
  with assms(1,3) show ?thesis by (simp add: GC_def)
next
  case None
  have inv: "store_inv w" "plain_dir w" "wf_node (os_root w)" "distinct (map fst (db_rows w))"
    using assms(1) by (simp_all add: matched_def store_inv_def)
  let ?x = "expired_ids w"
  have x: "\<exists>r. map_of (db_rows w) i = Some r" if "i \<in> set ?x" for i
    using that by (auto simp: expired_ids_def intro: weak_map_of_SomeI)
  have "distinct ?x" using inv(4) by (simp add: expired_ids_def distinct_map_filter)
  moreover have "\<forall>i \<in> set ?x. rd (os_root w) (caseDir w i) = None" 
  proof
    fix i
    assume "i \<in> set ?x"
    with x obtain r where "map_of (db_rows w) i = Some r" by blast
    then show "rd (os_root w) (caseDir w i) = None" by (rule case_not_file [OF assms(1)])
  qed
  ultimately obtain w1 where w1: "gc_loop ?x 0 w = ((0 + length ?x, None), w1)"
    "\<forall>i \<in> set ?x. \<forall>q. prefix (caseDir w i) q \<longrightarrow> rd (os_root w1) q = None"
    using gc_loop_clean [OF _ _ inv(2,3) expired_plain [OF inv(1)], of 0] assms(2) by (auto simp: tidy_def)
  with None assms(3) have gc: "GC w = ((length ?x, None), w')" "w1 = w'" by (simp_all add: GC_def)
  note spec = GC_spec [OF inv(1) gc(1)]
  have rows: "map_of (db_rows w') i = (if i \<in> set ?x then None else map_of (db_rows w) i)" for i
    using spec by (simp add: map_of_filter_keys)
  have d: "data_dir w' = data_dir w" "os_now w' = os_now w" using spec by blast+
  note p = paths_data_dir [OF d(1)]
  have "rd (os_root w') (blobPath w i) \<noteq> None"
    if r: "map_of (db_rows w) i = Some r" "i \<notin> set ?x" for i r
  proof -
    have t: "unix_seconds (os_now w) \<le> row_expires r" using expired_iff [OF inv(4) r(1)] r(2) by simp
    then have "keeps i w w'" using gc_keeps [OF inv(1) gc(1), of i] r(1) by blast
    with r t assms(1) show ?thesis by (auto simp: keeps_def matched_def blobs_there_def)
  qed
  then have "blobs_there w'" using rows p by (auto simp: blobs_there_def split: if_splits)
  moreover have "owned w' q" if q: "prefix (blobs_dir w') q" "rd (os_root w') q \<noteq> None" for q
  proof -
    have n: "\<not> prefix (caseDir w i) q" if "i \<in> set ?x" for i
      using q(2) w1(2) that unfolding gc(2) by metis
    then have "rd (os_root w') q = rd (os_root w) q" using spec by blast
    with q d assms(1) have "owned w q" by (simp add: matched_def files_owned_def blobs_dir_def)
    then obtain i t where i: "map_of (db_rows w) i \<noteq> None" "t \<noteq> []" "q = caseDir w i @ t"
      by (auto simp: owned_def)
    with n [of i] rows p show ?thesis unfolding owned_def by (intro exI [of _ i] exI [of _ t]) auto
  qed
  ultimately show ?thesis using gc_keeps [OF inv(1) gc(1)] by (simp add: matched_def files_owned_def)
qed

section \<open>The wipe\<close>

definition fewer :: "'a os_scheme \<Rightarrow> 'a os_scheme \<Rightarrow> bool" where
  "fewer w w' \<longleftrightarrow> (\<forall>q. rd (os_root w') q \<noteq> None \<longrightarrow> rd (os_root w) q \<noteq> None)"

lemma fewer_refl [simp]: "fewer w w"
  by (simp add: fewer_def)

lemma fewer_trans: "fewer w w' \<Longrightarrow> fewer w' w'' \<Longrightarrow> fewer w w''"
  by (simp add: fewer_def)

lemma fewer_log [simp]: "fewer w (log_ev e w') = fewer w w'"
  by (simp add: fewer_def log_ev_def)

lemma fewer_del: "fewer w (w\<lparr>os_root := del_node p (os_root w)\<rparr>)"
proof (cases "p = []")
  case True
  then show ?thesis by (cases "os_root w") (auto simp: fewer_def)
qed (simp add: fewer_def rd_del)

lemma fewer_Remove: "fewer w (snd (os_Remove p w))"
  by (auto simp: os_Remove_def fewer_del split: option.splits node.splits list.splits)

lemma fewer_over: "rd (os_root w) p \<noteq> None \<Longrightarrow> fewer w (snd (os_WriteFile p b w))"
  using WriteFile_other [of p b w] by (auto simp: fewer_def) (metis prod.collapse)

lemma fewer_shred_file: "fewer w (snd (shred_file p w))"
proof (cases "rd (os_root w) p")
  case (Some b)
  then have "fewer w (log_ev e (snd (os_WriteFile p z w)))" for e z by (simp add: fewer_over)
  then have "fewer w (snd (os_Remove p (log_ev e (snd (os_WriteFile p z w)))))" for e z
    by (rule fewer_trans) (rule fewer_Remove)
  then show ?thesis by (auto simp: shred_file_def Let_def fewer_Remove split: sum.splits)
next
  case None
  then have "os_root (snd (os_WriteFile p z w)) = os_root w" if "is_dir (os_root w) p" for z
    using that by (simp add: os_WriteFile_def wr_def split: fault.split)
  then have "fewer w (snd (os_WriteFile p z w))" if "is_ok (os_Stat_size p w)" for z
    using that None by (auto simp: os_Stat_size_def rd_def is_dir_def fewer_def split: if_splits option.splits node.splits)
  moreover have "fewer w (snd (os_Remove p (log_ev e (snd (os_WriteFile p z w)))))"
    if "fewer w (snd (os_WriteFile p z w))" for e z
    using that by (intro fewer_trans [OF _ fewer_Remove]) simp
  ultimately show ?thesis by (auto simp: shred_file_def Let_def fewer_Remove split: sum.splits)
qed

lemma fewer_shred_node:
  fixes w :: "'a shred_os_scheme"
  shows "fewer w (snd (shred_node p n w))" and "fewer w (snd (shred_entries p es w))"
proof (induction p n w and p es w rule: shred_node_shred_entries.induct)
  case (1 p b w)
  then show ?case by (simp add: fewer_shred_file)
next
  case (2 p es w)
  then show ?case
    by (auto split: option.splits prod.splits) (metis fewer_Remove fewer_trans snd_conv)+
next
  case (4 p c n es w)
  then show ?case
    by (auto split: option.splits prod.splits) (metis fewer_trans snd_conv)+
qed simp

lemma fewer_shredDir: "fewer w (snd (shredDir p w))"
  by (auto simp: shredDir_def fewer_shred_node simp del: shred_node.simps split: sum.splits)

lemma fewer_shred_all: "fewer w (shred_all dir cs w)"
  by (induction dir cs w rule: shred_all.induct) (auto intro: fewer_trans [OF fewer_shredDir])

lemma shredDir_gone:
  assumes "removes_ok w" and "wf_node (os_root w)" and "p \<noteq> []" and "rd (os_root w) p = None" and "prefix p q"
  shows "rd (os_root (snd (shredDir p w))) q = None"
proof (cases "node_at p (os_root w)")
  case None
  then have "rd (os_root w) q = None" using assms(5) by (auto elim!: prefixE simp: rd_def node_at_append)
  with fewer_shredDir [of w p] show ?thesis by (auto simp: fewer_def)
next
  case (Some m)
  with assms(4) obtain es where "node_at p (os_root w) = Some (Dir es)" by (cases m) (auto simp: rd_def)
  from shredDir_clean [OF assms(1-3) this] assms(3,5) show ?thesis by (auto simp: rd_del)
qed

lemma shred_all_gone:
  assumes "removes_ok w" and "wf_node (os_root w)" and "list_all plain_comp dir" and "i \<in> set cs"
    and "plain_comp i" and "rd (os_root w) (dir @ [i]) = None" and "prefix (dir @ [i]) q"
  shows "rd (os_root (shred_all dir cs w)) q = None"
  using assms
proof (induction dir cs w rule: shred_all.induct)
  case (2 dir c cs w)
  let ?w1 = "snd (shredDir (join_comps dir [c]) w)"
  have b: "removes_ok ?w1" "wf_node (os_root ?w1)"
    using removes_ok_below [OF below_shredDir 2(2)] wf_below [OF below_shredDir 2(3)] by simp_all
  have n: "rd (os_root ?w1) (dir @ [i]) = None" using fewer_shredDir [of w] 2(7) by (fastforce simp: fewer_def)
  show ?case
  proof (cases "i = c")
    case True
    then have "join_comps dir [c] = dir @ [i]" using 2(4,6) by (simp add: join_comps_plain)
    then have "rd (os_root ?w1) q = None" using shredDir_gone [OF 2(2,3) _ 2(7,8)] by simp
    with fewer_shred_all [of ?w1 dir cs] show ?thesis by (auto simp: fewer_def)
  next
    case False
    with 2(1) [OF b 2(4) _ 2(6) n 2(8)] 2(5) show ?thesis by simp
  qed
qed simp

lemma wipe_matched:
  assumes "matched w" and "tidy w" and "Wipe w = (e, w')"
  shows "matched w'"
proof -
  have inv: "store_inv w" "plain_dir w" "wf_node (os_root w)" using assms(1) by (simp_all add: matched_def store_inv_def)
  have ok: "removes_ok w" "db_fault w DbDeleteAll = None" using assms(2) by (simp_all add: tidy_def)
  let ?dir = "blobs_dir w"
  have pl: "list_all plain_comp ?dir" using inv(2) by (simp add: blobs_dir_def plain_dir_def)
  then have j: "join_comps (data_dir w) [''blob''] = ?dir" by (simp add: blobs_dir_def join_comps_plain)
  let ?w1 = "case os_ReadDir ?dir w of Inl e \<Rightarrow> w | Inr es \<Rightarrow> shred_all ?dir (map fst es) w"
  have few: "fewer w ?w1" by (simp add: fewer_shred_all split: sum.split)
  have gone: "rd (os_root ?w1) q = None" if q: "prefix ?dir q" for q
  proof (rule ccontr)
    assume "rd (os_root ?w1) q \<noteq> None"
    then have f: "rd (os_root w) q \<noteq> None" "rd (os_root ?w1) q \<noteq> None" using few by (auto simp: fewer_def)
    with q assms(1) have "owned w q" by (simp add: matched_def files_owned_def)
    then obtain i r t where i: "map_of (db_rows w) i = Some r" "case_id i" "q = ?dir @ i # t"
      by (rule owned_case [OF inv(1)])
    have "rd (os_root w) (?dir @ [i]) = None"
      using case_not_file [OF assms(1) i(1)] case_below [OF inv(2) case_id_plain [OF i(2)]] by simp
    moreover obtain es where es: "node_at ?dir (os_root w) = Some (Dir es)" "i \<in> fst ` set es"
    proof -
      from f(1) i(3) have "\<exists>m es. node_at ?dir (os_root w) = Some (Dir es) \<and> map_of es i = Some m"
        by (cases "node_at ?dir (os_root w)") (auto simp: rd_def node_at_append split: option.splits node.splits elim: node_at.elims)
      with that show thesis by (force dest: map_of_SomeD)
    qed
    moreover have "os_ReadDir ?dir w = Inr es" using es(1) ok(1) by (simp add: os_ReadDir_def removes_ok_def)
    ultimately have "rd (os_root ?w1) q = None"
      using shred_all_gone [OF ok(1) inv(3) pl _ case_id_plain [OF i(2)], of "map fst es" q] i(3) by simp
    with f(2) show False by simp
  qed
  have below: "below [] w ?w1" by (simp add: shred_all_any split: sum.splits)
  then have u: "files_upto [] w ?w1" by (auto dest: below_upto)
  let ?v = "?w1\<lparr>db_rows := []\<rparr>"
  have "db_exec DbDeleteAll (\<lambda>_. []) ?w1 = (None, ?v)" using ok(2) upto_dir [OF u] by (simp add: db_exec_def)
  then have "w' = spend_wipe (snd (db_vacuum ?v))" using assms(3) j by (simp add: Wipe_def Let_def)
  moreover have "os_root (snd (db_vacuum v)) = os_root v" "db_rows (snd (db_vacuum v)) = db_rows v" for v :: "'a world_scheme"
    by (simp_all add: db_vacuum_def db_exec_def split: option.split)
  ultimately have w': "os_root w' = os_root ?w1" "db_rows w' = []" by simp_all
  have "store_inv w'" "data_dir w' = data_dir w" using wipe_inv [OF inv(1) assms(3)] by simp_all
  with w' gone show ?thesis by (simp add: matched_def blobs_there_def files_owned_def blobs_dir_def)
qed

section \<open>Runs\<close>

definition tidy_step :: "store_op \<Rightarrow> 'a world_scheme \<Rightarrow> 'a world_scheme \<Rightarrow> bool" where
  "tidy_step opn w w' \<longleftrightarrow> tidy w \<and> store_step opn w w'"

lemma step_matched: "store_step opn w w' \<Longrightarrow> tidy w \<Longrightarrow> matched w \<Longrightarrow> matched w'"
proof (induction rule: store_step.induct)
  case env
  then show ?case
    by (intro matched_frame [OF env(3)]) (simp_all add: keeps_def matched_def store_inv_def plain_dir_def)
next
  case (mark i w e w')
  then show ?case using exec_matched [of w _ i] by (simp add: MarkRead_def row_core_def)
qed (blast intro: create_matched reply_matched gc_matched wipe_matched)+

text \<open>C37: rows and files agree in every state that the store reaches from one where they agree, by
  any sequence of submissions, flags, replies, sweeps, wipes and changes of the environment, as
  long as nothing that removes is refused: neither listing, stat and removal on the disk nor
  \<open>DELETE\<close> in the database.  Every case has its encrypted blob, and every file
  below the blob directory lies in the directory of a case, so that no error path, no sweep and no
  wipe leaves an orphan.\<close>

theorem blobs_match_cases:
  assumes "runs tidy_step w ops w'" and "matched w"
  shows "(\<forall>i. map_of (db_rows w') i \<noteq> None \<longrightarrow> rd (os_root w') (blobPath w' i) \<noteq> None)
     \<and> (\<forall>q. prefix (data_dir w' @ [''blob'']) q \<longrightarrow> rd (os_root w') q \<noteq> None \<longrightarrow>
        (\<exists>i t. map_of (db_rows w') i \<noteq> None \<and> t \<noteq> [] \<and> q = caseDir w' i @ t))"
proof -
  have "matched w'" using assms by (induction rule: runs.induct) (auto simp: tidy_step_def intro: step_matched)
  then show ?thesis by (simp add: matched_def blobs_there_def files_owned_def owned_def blobs_dir_def)
qed

section \<open>An instance\<close>

text \<open>On the demonstration store with a disk that refuses every write, a submission fails, and the
  sweep removes the expired case: one file is left, the blob of the other case.\<close>

definition no_writes :: "fs_op \<Rightarrow> path \<Rightarrow> fault" where
  "no_writes opn p = (if opn = OpWrite then Short 0 else NoFault)"

definition full_disk :: world where
  "full_disk = demo_world\<lparr>os_fault := no_writes\<rparr>"

lemma full_tidy: "tidy full_disk"
  by (simp add: tidy_def removes_ok_def full_disk_def no_writes_def demo_world_def)

lemma full_fields [simp]:
  "db_rows full_disk = db_rows demo_world" "data_dir full_disk = data_dir demo_world"
  "os_now full_disk = os_now demo_world" "os_root full_disk = demo_tree" "plain_dir full_disk"
  using demo_plain by (simp_all add: full_disk_def plain_dir_def)

lemma full_paths: "caseDir full_disk i = caseDir demo_world i" "blobPath full_disk i = blobPath demo_world i"
  using paths_data_dir [of full_disk demo_world] by simp_all

lemma full_matched: "matched full_disk"
proof -
  have "store_inv full_disk" using demo_inv demo_plain by (simp add: store_inv_def)
  moreover have "blobs_there full_disk"
    using demo_ids by (auto simp: blobs_there_def full_paths blobPath_plain caseDir_plain demo_plain demo_tree_def rd_def
        demo_row_def unix_seconds_def second_def split: if_splits)
  moreover have "files_owned full_disk"
    unfolding files_owned_def
  proof (intro allI impI)
    fix q
    assume "prefix (blobs_dir full_disk) q" and f: "rd (os_root full_disk) q \<noteq> None"
    then obtain u where q: "q = [''data'', ''blob''] @ u" by (auto simp: blobs_dir_def elim!: prefixE)
    from f obtain i t where u: "u = i # t" "i = id_a \<or> i = id_b" "t \<noteq> []"
      unfolding q full_fields demo_tree_def rd_def
      by (cases u; cases "tl u") (auto split: if_splits)
    then have "map_of (db_rows demo_world) i \<noteq> None" "caseDir demo_world i = [''data'', ''blob'', i]"
      using demo_ids by (auto simp: demo_paths)
    with q u show "owned full_disk q" unfolding owned_def full_paths full_fields by (intro exI [of _ i] exI [of _ t]) simp
  qed
  ultimately show ?thesis by (simp add: matched_def)
qed

theorem blobs_match_cases_witness:
  "\<exists>w'. runs tidy_step full_disk [SCreate [5] [6] [7] (60 * second) [9], SGC] w'
     \<and> (\<forall>i. map_of (db_rows w') i \<noteq> None \<longrightarrow> rd (os_root w') (blobPath w' i) \<noteq> None)"
proof -
  let ?op = "SCreate [5] [6] [7] (60 * second) [9]"
  obtain res w1 where c: "CreateCase [5] [6] [7] (60 * second) [9] full_disk = (res, w1)" by fastforce
  then have m: "tidy w1" using create_tidy [OF _ full_tidy] full_matched by (auto simp: matched_def)
  obtain ne w' where g: "GC w1 = (ne, w')" by fastforce
  have "tidy_step ?op full_disk w1" using c full_tidy by (simp add: tidy_step_def store_step.create)
  moreover have "tidy_step SGC w1 w'" using g m by (simp add: tidy_step_def store_step.collect)
  ultimately have run: "runs tidy_step full_disk ([?op] @ [SGC]) w'" by (blast intro: runs.snoc runs_one)
  from blobs_match_cases [OF run full_matched] run show ?thesis by auto
qed

end
