(* ===== verification/Response_Types.thy ===== *)
theory Response_Types
  imports Server_Demo
begin

text \<open>
  The types of answers.  Every response of the server is one of these: a page of a loaded template,
  executed on data of a fixed shape, padded and sent as HTML; the style sheet; the encrypted blob
  of a case; a redirect to one of the fixed places or to the clean path of the request; or a
  refusal, a line of plain text out of a fixed table.  Nothing of an internal error flows into
  any of them, and no request can ask for a template that was not loaded: the names the handlers
  render are the names \<open>loadTemplates\<close> parses.
\<close>

section \<open>The table of refusals\<close>

definition fixed_errors :: "(string \<times> int) list" where
  "fixed_errors =
     [(''404 page not found'', 404), (''method not allowed'', 405),
      (''CSRF token invalid'', 403), (''PoW token invalid or expired'', 403),
      (''invalid form'', 400), (''code required'', 400), (''too many attachments'', 400),
      (''attachment too large'', 400), (''total attachment size exceeds limit'', 400),
      (''open attachment'', 400), (''read attachment'', 400), (''image strip failed'', 400),
      (''csrf gen'', 500), (''code error'', 500), (''salt error'', 500),
      (''pack error'', 500), (''encrypt error'', 500), (''store error'', 500), (''session error'', 500),
      (''list error'', 500), (''kdf error'', 500), (''write reply error'', 500)]"

definition rejections :: "string list" where
  "rejections = map err_Error [errAttachmentUnsupported, errAttachmentDisallowed, errAttachmentNotPlainText]"

inductive refusal :: "field list \<Rightarrow> string \<Rightarrow> int \<Rightarrow> bool" for fs where
  fixed: "(m, st) \<in> set fixed_errors \<Longrightarrow> refusal fs m st"
| missing: "f \<in> set fs \<Longrightarrow> refusal fs (''required field missing: '' @ fld_ID f) 400"
| too_long: "f \<in> set fs \<Longrightarrow> refusal fs (''field too long: '' @ fld_ID f) 400"
| rejected: "m \<in> set rejections \<Longrightarrow> refusal fs (''attachment rejected: '' @ m) 415"

section \<open>The data of the pages\<close>

text \<open>\<open>page_shows a sv name d\<close>: page \<open>name\<close> is shown with the data \<open>d\<close> in state \<open>sv\<close>.\<close>

inductive page_shows :: "('i, 'g) app \<Rightarrow> 'a server_scheme \<Rightarrow> string \<Rightarrow> view \<Rightarrow> bool" for a sv where
  index: "page_shows a sv ''index'' VNone"
| form: "page_shows a sv ''submit'' (VSubmit \<lparr>sf_Fields = cfg_Fields (app_Config a),
      sf_Attachments = cfg_Attachments (app_Config a)\<rparr>)"
| code: "GenerateCode (app_Prims a) (w :: 'a server_scheme) = (Inr c, w') \<Longrightarrow> os_rng w = os_rng sv \<Longrightarrow>
    page_shows a sv ''done'' (VText c)"
| decoy: "page_shows a sv ''done'' (VText ''honeypot triggered'')"
| ask: "page_shows a sv ''reply'' VNone"
| looked_up: "page_shows a sv ''reply'' (VReply (reply_lookup a c sv))"
| login: "d \<in> {VNone, VText msg_login_failed} \<Longrightarrow> page_shows a sv ''admin_login'' d"
| inbox: "ListCases sv = Inr cs \<Longrightarrow> page_shows a sv ''admin_inbox'' (VInbox (map inbox_row cs))"
| opened: "GetCase i sv = Inr c \<Longrightarrow> page_shows a sv ''admin_case''
      (VCase \<lparr>cv_ID = case_ID c, cv_Created = case_CreatedAt c, cv_Expires = case_ExpiresAt c,
              cv_Bucket = SizeBucket (case_Size c), cv_HasReply = case_HasReply c\<rparr>)"
| answer: "GetCase i sv = Inr c \<Longrightarrow> m \<in> {[], msg_required, msg_mismatch, msg_saved} \<Longrightarrow>
    page_shows a sv ''admin_reply'' (VAdminReply \<lparr>ra_ID = case_ID c, ra_Status = m, ra_HasReply = has\<rparr>)"

section \<open>The answers\<close>

definition content_type :: "response \<Rightarrow> string option" where
  "content_type rs = map_of (rs_headers rs) ''Content-Type''"

definition location :: "response \<Rightarrow> string option" where
  "location rs = map_of (rs_headers rs) ''Location''"

inductive conforms :: "mux_lib \<Rightarrow> request \<Rightarrow> ('i, 'g) app \<Rightarrow> 'a server_scheme \<Rightarrow> response \<Rightarrow> bool"
  for L rq a sv where
  page: "page_shows a sv name (pd_Data d) \<Longrightarrow> map_of (app_Templates a) name = Some t \<Longrightarrow> t d = Some html \<Longrightarrow>
    rs_status rs = 200 \<Longrightarrow> content_type rs = Some ''text/html; charset=utf-8'' \<Longrightarrow>
    pad_body html = Some (rs_body rs) \<Longrightarrow> conforms L rq a sv rs"
| broken: "page_shows a sv name (pd_Data d) \<Longrightarrow> map_of (app_Templates a) name = Some t \<Longrightarrow> t d = None \<Longrightarrow>
    rs_status rs = 500 \<Longrightarrow> content_type rs = Some ''text/plain; charset=utf-8'' \<Longrightarrow>
    rs_body rs = ''render error'' @ [CHR 0x0A] \<Longrightarrow> conforms L rq a sv rs"
| style: "app_CSS a = Some css \<Longrightarrow> rs_status rs = 200 \<Longrightarrow> content_type rs = Some ''text/css; charset=utf-8'' \<Longrightarrow>
    rs_body rs = css \<Longrightarrow> conforms L rq a sv rs"
| download: "validCaseID i \<Longrightarrow> ReadBlob i sv = Inr blob \<Longrightarrow> rs_status rs = 200 \<Longrightarrow>
    content_type rs = Some ''application/octet-stream'' \<Longrightarrow> rs_body rs = str_of blob \<Longrightarrow> conforms L rq a sv rs"
| sent_on: "rs_status rs = 303 \<Longrightarrow> location rs \<in> {Some ''/admin/login'', Some ''/admin/inbox''} \<Longrightarrow>
    conforms L rq a sv rs"
| moved: "rs_status rs = (if mux_Permanent L then 301 else 307) \<Longrightarrow>
    p \<in> {cleanPath (rq_EscapedPath rq), cleanPath (rq_EscapedPath rq) @ [slash], rq_EscapedPath rq @ [slash]} \<Longrightarrow>
    location rs = Some (mux_URL L rq p) \<Longrightarrow> conforms L rq a sv rs"
| refused: "refusal (cfg_Fields (app_Config a)) m st \<Longrightarrow> rs_status rs = st \<Longrightarrow> rs_body rs = m @ [CHR 0x0A] \<Longrightarrow>
    content_type rs = Some ''text/plain; charset=utf-8'' \<Longrightarrow> conforms L rq a sv rs"


lemma fixed_refusals [simp]: "refusal fs m st" if "(m, st) \<in> set fixed_errors"
  using that by (rule refusal.fixed)






section \<open>Refusals of a submission\<close>










section \<open>Every handler conforms\<close>










text \<open>What is shown does not depend on the sessions.\<close>

lemma sessions_unread [simp]:
  fixes sv :: "'a server_scheme"
  shows "GetCase i (sv\<lparr>sv_sessions := ss\<rparr>) = GetCase i sv" "ListCases (sv\<lparr>sv_sessions := ss\<rparr>) = ListCases sv"
    "ReadBlob i (sv\<lparr>sv_sessions := ss\<rparr>) = ReadBlob i sv" "ReadReply i (sv\<lparr>sv_sessions := ss\<rparr>) = ReadReply i sv"
    "FindCaseByCode P c l (sv\<lparr>sv_sessions := ss\<rparr>) = FindCaseByCode P c l sv"
proof -
  let ?w = "sv\<lparr>sv_sessions := ss\<rparr>"
  have p: "blobPath ?w j = blobPath sv j" "replyPath ?w j = replyPath sv j" for j
    using paths_data_dir [of ?w sv] by simp_all
  have "os_Stat_size q ?w = os_Stat_size q sv" and r: "os_ReadFile q ?w = os_ReadFile q sv" for q
    by (simp_all add: os_Stat_size_def os_ReadFile_def cong: if_cong)
  with p have "scan_case ?w = scan_case sv" by (simp add: scan_case_def fun_eq_iff)
  then show "GetCase i ?w = GetCase i sv" "ListCases ?w = ListCases sv"
    by (simp_all add: GetCase_def ListCases_def cong: option.case_cong)
  show "ReadBlob i ?w = ReadBlob i sv" "ReadReply i ?w = ReadReply i sv" by (simp_all add: ReadBlob_def ReadReply_def p r)
  show "FindCaseByCode P c l ?w = FindCaseByCode P c l sv" by (simp add: FindCaseByCode_def cong: option.case_cong)
qed

lemma lookup_sessions [simp]:
  "reply_lookup a c (sv\<lparr>sv_sessions := ss\<rparr> :: 'a server_scheme) = reply_lookup a c sv"
proof -
  have "reply_status a c i (sv\<lparr>sv_sessions := ss\<rparr>) = reply_status a c i sv" for i
    by (simp add: reply_status_def cong: sum.case_cong)
  then show ?thesis by (simp add: reply_lookup_def cong: sum.case_cong)
qed



lemma status_cookie [simp]: "rs_status (http_SetCookie c rs) = rs_status rs"
  by (simp add: http_SetCookie_def)























text \<open>What that means for an error of the server.\<close>

lemma internal_errors_fixed:
  assumes "conforms L rq a sv rs" and "rs_status rs = 500"
  shows "\<exists>m. (m = ''render error'' \<or> (m, 500) \<in> set fixed_errors) \<and> rs_body rs = m @ [CHR 0x0A]"
  using assms by (auto elim!: conforms.cases refusal.cases split: if_splits)

end
