(* ===== verification/Viewer_Opens.thy ===== *)
theory Viewer_Opens
  imports Viewer Store_Demo
begin

text \<open>
  The end of the path of a submission: what the server packed and encrypted, the viewer unpacks
  on the receiver's machine, every file with its bytes.
\<close>

section \<open>Names of a submission are distinct\<close>

definition dec_val :: "string \<Rightarrow> nat" where
  "dec_val s = foldl (\<lambda>n c. 10 * n + (ordc c - 48)) 0 s"

lemma dec_val_dec: "dec_val (dec_nat n) = n"
proof (induction n rule: dec_nat.induct)
  case (1 n)
  then show ?case by (subst dec_nat.simps) (simp add: dec_val_def)
qed

lemma dec_val_pad: "dec_val (pad3 s) = dec_val s"
proof -
  have "foldl (\<lambda>n c. 10 * n + (ordc c - 48)) 0 (replicate k (CHR ''0'') @ s)
      = foldl (\<lambda>n c. 10 * n + (ordc c - 48)) 0 s" for k
    by (induction k) (simp_all add: ordc_def)
  then show ?thesis by (simp add: dec_val_def pad3_def)
qed

lemma pad3_no_dash: "CHR ''-'' \<notin> set (pad3 (dec_nat n))"
  using dec_nat_digits [of "CHR ''-''" n] by (auto simp: pad3_def ordc_def)

lemma entry_name_inj: "entry_name i a = entry_name j b \<Longrightarrow> i = j"
proof -
  assume "entry_name i a = entry_name j b"
  then have eq: "pad3 (dec_nat i) @ CHR ''-'' # safeFilename (att_OriginalName a) (att_MIME a)
    = pad3 (dec_nat j) @ CHR ''-'' # safeFilename (att_OriginalName b) (att_MIME b)"
    by (simp add: entry_name_def)
  have tw: "takeWhile (\<lambda>c. c \<noteq> CHR ''-'') (pad3 (dec_nat n) @ CHR ''-'' # r) = pad3 (dec_nat n)" for n r
    by (rule takeWhile_append_stop) (use pad3_no_dash in auto)
  from tw [of i] tw [of j] eq have "pad3 (dec_nat i) = pad3 (dec_nat j)" by metis
  then show ?thesis by (metis dec_val_dec dec_val_pad)
qed

lemma submission_names_distinct: "distinct (map tf_Name (submission_files s))"
proof -
  have "distinct (map tf_Name (snd (pack_files k as)))" for k as
    unfolding pack_files_eq
    by (auto simp: distinct_map inj_on_def distinct_enumerate in_set_enumerate_eq dest!: entry_name_inj)
  moreover have "''meta.json'' \<notin> set (map tf_Name (snd (pack_files k as)))" for k as
    unfolding pack_files_eq by (auto simp: entry_name_def)
  ultimately show ?thesis by (simp add: submission_files_def)
qed

section \<open>Targets\<close>

text \<open>The two places where the files of a submission go.\<close>

definition target_of :: "string \<Rightarrow> string list" where
  "target_of name = split_on slash name"

lemma submission_name_cases:
  assumes "f \<in> set (submission_files s)"
  shows "tf_Name f = ''meta.json'' \<or>
    (\<exists>x. tf_Name f = ''attachments/'' @ x \<and> slash \<notin> set x \<and> 3 < length x \<and> list_all (\<lambda>c. c = CHR ''.'' \<or> name_char c) x)"
proof -
  from assms consider "tf_Name f = ''meta.json''"
    | i a where "tf_Name f = entry_name (Suc i) a"
    by (auto simp: submission_files_def pack_files_eq)
  then show ?thesis
  proof cases
    case 2
    let ?x = "pad3 (dec_nat (Suc i)) @ ''-'' @ safeFilename (att_OriginalName a) (att_MIME a)"
    have "3 \<le> length (pad3 (dec_nat (Suc i)))" by (simp add: pad3_def)
    moreover have "c = CHR ''.'' \<or> name_char c" if "c \<in> set ?x" for c
    proof -
      obtain stem where st: "safeFilename (att_OriginalName a) (att_MIME a) = stem @ extForMIME (att_MIME a)"
        "\<forall>c \<in> set stem. name_char c" using safeFilename_chars by blast
      have "c = CHR ''.'' \<or> name_char c" if "c \<in> set (extForMIME (att_MIME a))" for c
        using that ext_cases [of "att_MIME a"] by (auto simp: name_char_def ordc_def)
      moreover have "name_char c" if "c \<in> set (pad3 (dec_nat (Suc i)))" for c
        using that dec_nat_digits [of c "Suc i"] by (auto simp: pad3_def name_char_def ordc_def)
      moreover have "name_char (CHR ''-'')" by (simp add: name_char_def ordc_def)
      ultimately show ?thesis using that st by auto
    qed
    moreover have "\<not> name_char slash" "slash \<noteq> CHR ''.''" by (simp_all add: name_char_def ordc_def slash_def)
    ultimately show ?thesis using 2 by (auto simp: entry_name_def list_all_iff)
  qed simp
qed

lemma plain_x: "list_all (\<lambda>c. c = CHR ''.'' \<or> name_char c) x \<Longrightarrow> map to_slash x = x
    \<and> \<not> list_ex (\<lambda>c. c = CHR 0x00 \<or> c = CHR 0x0D \<or> c = CHR 0x0A) x"
  by (induction x) (auto simp: to_slash_def name_char_def ordc_def)

lemma submission_target:
  assumes "f \<in> set (submission_files s)"
  shows "safeTarName (tf_Name f) \<and> name_comps (tf_Name f) = target_of (tf_Name f)
    \<and> (target_of (tf_Name f) = [''meta.json''] \<or> (\<exists>x. target_of (tf_Name f) = [''attachments'', x]))"
  using submission_name_cases [OF assms]
proof
  assume n: "tf_Name f = ''meta.json''"
  have "safeTarName ''meta.json''" by (simp add: safeTarName_def to_slash_def slash_def)
  moreover have "split_on slash ''meta.json'' = [''meta.json'']" by (simp add: slash_def)
  ultimately show ?thesis unfolding n by (simp add: target_of_def name_comps_def)
next
  assume "\<exists>x. tf_Name f = ''attachments/'' @ x \<and> slash \<notin> set x \<and> 3 < length x \<and> list_all (\<lambda>c. c = CHR ''.'' \<or> name_char c) x"
  then obtain x where n: "tf_Name f = ''attachments'' @ slash # x" and x: "slash \<notin> set x" "3 < length x"
    "list_all (\<lambda>c. c = CHR ''.'' \<or> name_char c) x" by (auto simp: slash_def)
  have sp: "split_on slash (''attachments'' @ slash # x) = [''attachments'', x]"
    unfolding split_on_append split_on_id [OF x(1)] by (simp add: slash_def)
  have "map to_slash (''attachments'' @ slash # x) = ''attachments'' @ slash # x"
    using plain_x [OF x(3)] by (simp add: to_slash_def slash_def)
  then have "safeTarName (''attachments'' @ slash # x)"
    using plain_x [OF x(3)] x(2) sp by (auto simp: safeTarName_def) (simp_all add: slash_def)
  moreover have "x \<noteq> []" "x \<noteq> ''.''" using x(2) by auto
  ultimately show ?thesis unfolding n using sp by (simp add: target_of_def name_comps_def)
qed

lemma target_of_inj: "target_of a = target_of b \<Longrightarrow> a = b"
proof -
  have "str_Join (split_on slash s) [slash] = s" for s
  proof (induction s)
    case (Cons c s)
    then show ?case
      by (cases "split_on slash s"; cases "tl (split_on slash s)") (auto simp: str_Join_Cons)
  qed simp
  then show "target_of a = target_of b \<Longrightarrow> a = b" unfolding target_of_def by metis
qed

section \<open>Writing the files\<close>

definition shape :: "string list \<Rightarrow> bool" where
  "shape cs \<longleftrightarrow> cs = [''meta.json''] \<or> (\<exists>x. cs = [''attachments'', x])"

definition room :: "path \<Rightarrow> node \<Rightarrow> string list list \<Rightarrow> bool" where
  "room d n ts \<longleftrightarrow> is_dir n d \<and> (node_at (d @ [''attachments'']) n = None \<or> is_dir n (d @ [''attachments'']))
     \<and> (\<forall>cs \<in> set ts. node_at (d @ cs) n = None)"

lemma shape_disjoint: "shape cs \<Longrightarrow> shape ds \<Longrightarrow> prefix cs ds \<Longrightarrow> cs = ds"
  by (auto simp: shape_def)

lemma shape_parent:
  assumes "room d n ts" and "shape cs"
  shows "\<exists>n1. mkdirs (butlast (d @ cs)) n = Some n1 \<and> is_dir n1 (butlast (d @ cs))"
proof -
  have b: "butlast (d @ [x, y]) = d @ [x]" for x y by (simp add: butlast_append)
  have "\<exists>n1. mkdirs (butlast (d @ cs)) n = Some n1"
    using assms mkdirs_dir [of n d] mkdirs_dir [of n "d @ [''attachments'']"] mkdirs_fresh [of n d "''attachments''"]
    by (auto simp: shape_def room_def b)
  then show ?thesis using mkdirs_is_dir by blast
qed

lemma write_room:
  assumes nf: "no_faults w" and r: "room d (os_root w) (cs # ts)" and sh: "shape cs" "list_all shape ts"
    and "cs \<notin> set ts"
  shows "\<exists>w'. write_entry (d @ cs) data None w = (None, w') \<and> no_faults w' \<and> room d (os_root w') ts
     \<and> rd (os_root w') (d @ cs) = Some data \<and> (\<forall>q. q \<noteq> d @ cs \<longrightarrow> rd (os_root w') q = rd (os_root w) q)"
proof -
  let ?t = "d @ cs" and ?n = "os_root w"
  obtain n1 where n1: "mkdirs (butlast ?t) ?n = Some n1" "is_dir n1 (butlast ?t)"
    using shape_parent [OF r sh(1)] by blast
  have cs: "cs \<noteq> []" "?t = butlast ?t @ [last ?t]" using sh(1) by (auto simp: shape_def butlast_append)
  have below: "node_at q n1 = node_at q ?n" if "\<not> prefix q (butlast ?t)" for q
    by (rule mkdirs_other [OF n1(1) that])
  have "\<not> prefix ?t (butlast ?t)" using cs(1) prefix_length_le [of ?t "butlast ?t"] by (cases cs) auto
  then have "node_at ?t n1 = None" using below r by (simp add: room_def)
  then have "\<not> is_dir n1 (butlast ?t @ [last ?t])" using cs(2) by (simp add: is_dir_def)
  from wr_in_dir [OF n1(2) this] obtain n2 where n2: "wr ?t data n1 = Some n2" using cs(2) by metis
  then have put: "put_node ?t (File data) n1 = Some n2" by (simp add: wr_def split: if_splits)
  let ?w = "w\<lparr>os_root := n2\<rparr>"
  have run: "write_entry ?t data None w = (None, ?w)"
    using nf n1(1) n2 by (simp add: write_entry_def os_MkdirAll_def os_WriteFile_def no_faults_def)
  have other: "node_at (d @ ds) n2 = None" if "ds \<in> set ts" for ds
  proof -
    have ds: "shape ds" "ds \<noteq> cs" using that sh(2) assms(5) by (auto simp: list_all_iff)
    then have "\<not> prefix ?t (d @ ds)" "\<not> prefix (d @ ds) ?t" using shape_disjoint sh(1) by auto
    moreover have "\<not> prefix (d @ ds) (butlast ?t)"
      using calculation(2) prefix_order.trans prefixeq_butlast by blast
    ultimately show ?thesis
      using node_at_put_other [OF put] below that r by (simp add: room_def)
  qed
  have "is_dir n2 d" using put_parent_dirs [OF put, of d] cs(1) by (auto simp: strict_prefix_def)
  moreover have "node_at (d @ [''attachments'']) n2 = None \<or> is_dir n2 (d @ [''attachments''])"
    using sh(1) unfolding shape_def
  proof
    assume m: "cs = [''meta.json'']"
    then have "node_at (d @ [''attachments'']) n2 = node_at (d @ [''attachments'']) ?n"
      using node_at_put_other [OF put, of "d @ [''attachments'']"] below [of "d @ [''attachments'']"]
      by (simp add: butlast_append)
    then show ?thesis using r by (simp add: room_def is_dir_def)
  next
    assume "\<exists>x. cs = [''attachments'', x]"
    then have "strict_prefix (d @ [''attachments'']) ?t" by (fastforce simp: strict_prefix_def simp del: butlast_append)
    then show ?thesis using put_parent_dirs [OF put] by blast
  qed
  moreover have "rd n2 q = rd ?n q" if "q \<noteq> ?t" for q
    using rd_wr_other [OF n2 that] rd_mkdirs [OF n1(1)] by simp
  ultimately show ?thesis using run other nf rd_wr_same [OF n2] by (simp add: room_def no_faults_def)
qed

section \<open>The whole path\<close>

lemma path_check: "dir \<noteq> [] \<Longrightarrow> HasPrefix (path_str (dir @ cs) @ [slash]) (path_str dir @ [slash]) \<or> cs = []"
  by (cases cs) (auto simp: path_str_def HasPrefix_iff)

lemma extract_submission_entry:
  assumes "list_all plain_comp dir" and "dir \<noteq> []" and "f \<in> set (submission_files s)"
  shows "extract_entry dir (fst (tar_entry_of f), tf_Data f, None) w
     = write_entry (dir @ target_of (tf_Name f)) (tf_Data f) None w"
proof -
  note t = submission_target [OF assms(3)]
  then have "tar_target dir (tf_Name f) = dir @ target_of (tf_Name f)"
    using target_eq [OF assms(1)] by simp
  with t path_check [OF assms(2), of "target_of (tf_Name f)"] show ?thesis
    by (auto simp: extract_entry_def tar_entry_of_def Let_def)
qed

lemma extract_submission:
  assumes "list_all plain_comp dir" and "dir \<noteq> []" and "set fs \<subseteq> set (submission_files s)"
    and "distinct (map tf_Name fs)" and "no_faults w" and "room dir (os_root w) (map (target_of \<circ> tf_Name) fs)"
  shows "\<exists>w'. extract_entries dir (map (\<lambda>f. (fst (tar_entry_of f), tf_Data f, None)) fs) None w = (None, w')
     \<and> (\<forall>f \<in> set fs. rd (os_root w') (dir @ target_of (tf_Name f)) = Some (tf_Data f))
     \<and> (\<forall>q. (\<forall>f \<in> set fs. q \<noteq> dir @ target_of (tf_Name f)) \<longrightarrow> rd (os_root w') q = rd (os_root w) q)"
  using assms(3-)
proof (induction fs arbitrary: w)
  case (Cons f fs)
  let ?t = "\<lambda>f. target_of (tf_Name f)"
  have sh: "shape (?t g)" if "g \<in> set (f # fs)" for g
    using that Cons.prems(1) submission_target [of g s] by (auto simp: shape_def)
  have new: "?t f \<notin> set (map (target_of \<circ> tf_Name) fs)"
    using Cons.prems(2) target_of_inj by (auto simp: image_iff)
  have "room dir (os_root w) (?t f # map (target_of \<circ> tf_Name) fs)"
    using Cons.prems(4) by (simp only: list.map comp_def)
  from write_room [OF Cons.prems(3) this sh _ new, of "tf_Data f"] sh obtain w1 where
    w1: "write_entry (dir @ ?t f) (tf_Data f) None w = (None, w1)" "no_faults w1"
    "room dir (os_root w1) (map (target_of \<circ> tf_Name) fs)" "rd (os_root w1) (dir @ ?t f) = Some (tf_Data f)"
    "\<forall>q. q \<noteq> dir @ ?t f \<longrightarrow> rd (os_root w1) q = rd (os_root w) q"
    by (auto simp: list_all_iff)
  from Cons.IH [OF _ _ w1(2,3)] Cons.prems(1,2) obtain w2 where
    w2: "extract_entries dir (map (\<lambda>f. (fst (tar_entry_of f), tf_Data f, None)) fs) None w1 = (None, w2)"
    "\<forall>g \<in> set fs. rd (os_root w2) (dir @ ?t g) = Some (tf_Data g)"
    "\<forall>q. (\<forall>g \<in> set fs. q \<noteq> dir @ ?t g) \<longrightarrow> rd (os_root w2) q = rd (os_root w1) q" by auto
  have "extract_entry dir (fst (tar_entry_of f), tf_Data f, None) w = (None, w1)"
    using extract_submission_entry [OF assms(1,2), of f s w] Cons.prems(1) w1(1) by auto
  moreover have "rd (os_root w2) (dir @ ?t f) = Some (tf_Data f)"
    using w2(3) w1(4) new by (auto simp: image_iff)
  ultimately show ?case using w2 w1(5) by (intro exI [of _ w2]) auto
qed simp

text \<open>C13: what the server packed and encrypted for the receiver, the viewer opens: with the receiver's
  secret key it writes into an empty output directory exactly \<open>meta.json\<close> and the attachments,
  each with the bytes that were submitted, whatever names and contents the visitor chose.\<close>

theorem viewer_opens_submission:
  assumes "age_correct P" and "length seed = 32" and "age_Keypair P seed = (pub, sec)"
    and "packable s" and "PackSubmission s = Inr tar" and "EncryptToReceiver P pub tar w0 = (Inr blob, w1)"
    and "os_ReadFile (os_path idFile) w = Inr idBytes" and "TrimSpace (str_of idBytes) = sec"
    and "os_ReadFile (os_path inPath) w = Inr blob"
    and "idFile \<noteq> []" and "inPath \<noteq> []" and "outDir \<noteq> []"
    and "no_faults w" and "list_all plain_comp (os_path outDir)" and "os_path outDir \<noteq> []"
    and "node_at (os_path outDir) (os_root w) = Some (Dir [])"
  shows "\<exists>w'. decrypt P ustar_reader idFile inPath outDir w = (None, w')
     \<and> (\<forall>f \<in> set (submission_files s).
          rd (os_root w') (os_path outDir @ split_on slash (tf_Name f)) = Some (tf_Data f))
     \<and> (\<forall>q. (\<forall>f \<in> set (submission_files s). q \<noteq> os_path outDir @ split_on slash (tf_Name f))
          \<longrightarrow> rd (os_root w') q = rd (os_root w) q)"
proof -
  let ?d = "os_path outDir" and ?fs = "submission_files s"
  have "tar_read_all tar = (map tar_entry_of ?fs, None)"
    using PackSubmission_read [OF assms(4,5)] .
  then have rd: "ustar_reader tar = (map (\<lambda>f. (fst (tar_entry_of f), tf_Data f, None)) ?fs, None)"
    by (simp add: ustar_reader_def tar_entry_of_def)
  obtain n where n: "mkdirs ?d (os_root w) = Some n"
    using mkdirs_dir [of "os_root w" ?d] assms(16) by (auto simp: is_dir_def)
  have dn: "node_at (?d @ cs) n = None" if "cs \<noteq> []" for cs
  proof -
    have "\<not> prefix (?d @ cs) ?d" using that by (auto dest: prefix_length_le)
    then have "node_at (?d @ cs) n = node_at (?d @ cs) (os_root w)" by (rule mkdirs_other [OF n])
    then show ?thesis using assms(16) that by (cases cs) (simp_all add: node_at_append)
  qed
  let ?w = "w\<lparr>os_root := n\<rparr>"
  have mk: "os_MkdirAll ?d w = (None, ?w)" using assms(13) n by (simp add: os_MkdirAll_def no_faults_def)
  have nf: "no_faults ?w" using assms(13) by (simp add: no_faults_def)
  have "room ?d (os_root ?w) (map (target_of \<circ> tf_Name) ?fs)"
    using dn mkdirs_is_dir [OF n, of ?d] by (auto simp: room_def target_of_def)
  then obtain w' where w': "extract_entries ?d (map (\<lambda>f. (fst (tar_entry_of f), tf_Data f, None)) ?fs) None ?w = (None, w')"
    "\<forall>f \<in> set ?fs. rd (os_root w') (?d @ target_of (tf_Name f)) = Some (tf_Data f)"
    "\<forall>q. (\<forall>f \<in> set ?fs. q \<noteq> ?d @ target_of (tf_Name f)) \<longrightarrow> rd (os_root w') q = rd n q"
    using extract_submission [OF assms(14,15) subset_refl submission_names_distinct nf] by fastforce
  have "DecryptFromReceiver P sec blob = Inr tar" by (rule receiver_roundtrip [OF assms(1-3,6)])
  then have dec: "age_ParseIdentity P sec" "\<exists>pl. viewer_unwrap blob = Inr (1, pl) \<and> age_Decrypt P sec pl = Inr tar"
    by (auto simp: DecryptFromReceiver_def viewer_unwrap_agrees envelopeVersion_def split: if_splits sum.splits)
  have "decrypt P ustar_reader idFile inPath outDir w = (None, w')"
    using assms(7-12) dec mk w'(1) rd by (auto simp: decrypt_def extractTar_def Let_def)
  with w'(2,3) rd_mkdirs [OF n] show ?thesis unfolding target_of_def by auto
qed

section \<open>Instances\<close>

definition demo_secret :: string where
  "demo_secret = CHR ''s'' # hex_EncodeToString (replicate 32 0)"

definition viewer_disk :: "bytes \<Rightarrow> os" where
  "viewer_disk blob = demo_os\<lparr>os_root := Dir [(''id'', File (bytes_of (demo_secret @ [CHR 0x0A]))),
     (''in'', File blob), (''out'', Dir [])]\<rparr>"

lemma demo_secret_trim: "TrimSpace (demo_secret @ [CHR 0x0A]) = demo_secret"
  by (rule TrimSpace_line)
    (auto simp: demo_secret_def space_char_def [of "CHR ''s''"] ordc_def dest: hex_encode_lower lower_hex_not_space)

lemma viewer_paths: "os_path ''id'' = [''id'']" "os_path ''in'' = [''in'']" "os_path ''out'' = [''out'']"
  by (simp_all add: os_path_def clean_comps_def slash_def)

lemma plain_out: "plain_comp ''out''"
  by (simp add: plain_comp_def slash_def)

theorem extract_confined_witness:
  "\<exists>r w'. extractTar ustar_reader [1] [''out''] (viewer_disk [7]) = (r, w')
     \<and> rd (os_root w') [''in''] = Some [7]"
proof -
  obtain r w' where x: "extractTar ustar_reader [1] [''out''] (viewer_disk [7]) = (r, w')" by fastforce
  have "rd (os_root w') [''in''] = rd (os_root (viewer_disk [7])) [''in'']"
    using plain_out by (intro extract_confined [OF _ x]) simp_all
  also have "\<dots> = Some [7]" by (simp add: viewer_disk_def rd_def)
  finally show ?thesis using x by blast
qed

theorem viewer_opens_submission_witness:
  "\<exists>blob w'. decrypt demo_prims ustar_reader ''id'' ''in'' ''out'' (viewer_disk blob) = (None, w')
     \<and> rd (os_root w') [''out'', ''meta.json''] = Some (bytes_of (json_meta (submission_meta demo_envelope)))"
proof -
  let ?pub = "fst (age_Keypair demo_prims (replicate 32 0))"
  obtain tar where tar: "PackSubmission demo_envelope = Inr tar"
    using PackSubmission_archive [OF demo_packable] by blast
  obtain blob w1 where enc: "EncryptToReceiver demo_prims ?pub tar demo_os = (Inr blob, w1)"
    by (simp add: EncryptToReceiver_def demo_prims_def readRandom_def demo_rng HasPrefix_def)
  let ?w = "viewer_disk blob"
  have kp: "age_Keypair demo_prims (replicate 32 0) = (?pub, demo_secret)"
    by (simp add: demo_prims_def demo_secret_def)
  have nf: "no_faults ?w" by (simp add: viewer_disk_def demo_os_def no_faults_def)
  have files: "os_ReadFile (os_path ''id'') ?w = Inr (bytes_of (demo_secret @ [CHR 0x0A]))"
    "os_ReadFile (os_path ''in'') ?w = Inr blob"
    "node_at (os_path ''out'') (os_root ?w) = Some (Dir [])"
    using nf unfolding viewer_paths by (simp_all add: os_ReadFile_def no_faults_def viewer_disk_def)
  have tr: "TrimSpace (str_of (bytes_of (demo_secret @ [CHR 0x0A]))) = demo_secret"
    by (simp only: str_of_bytes_of demo_secret_trim)
  obtain w' where run: "decrypt demo_prims ustar_reader ''id'' ''in'' ''out'' ?w = (None, w')"
    and out: "\<forall>f \<in> set (submission_files demo_envelope).
          rd (os_root w') (os_path ''out'' @ split_on slash (tf_Name f)) = Some (tf_Data f)"
    using viewer_opens_submission [OF demo_age _ kp demo_packable tar enc files(1) tr files(2) _ _ _ nf _ _ files(3)]
      plain_out by (auto simp: viewer_paths)
  have "\<lparr>tf_Name = ''meta.json'', tf_Data = bytes_of (json_meta (submission_meta demo_envelope))\<rparr>
      \<in> set (submission_files demo_envelope)"
    by (simp add: submission_files_def)
  from bspec [OF out this] have "rd (os_root w') (os_path ''out'' @ split_on slash ''meta.json'')
      = Some (bytes_of (json_meta (submission_meta demo_envelope)))"
    by (simp only: tar_file.simps)
  moreover have "os_path ''out'' @ split_on slash ''meta.json'' = [''out'', ''meta.json'']"
    by (simp add: viewer_paths slash_def)
  ultimately show ?thesis using run by metis
qed

end
