(* ===== verification/Spec2Isabelle.thy ===== *)
theory Spec2Isabelle
  imports Cli_Demo Threads_Demo Memory_Demo Store_Match Response_Types Viewer_Opens Pow
begin

text \<open>
  A verification development for \<open>kakekomi\<close>, an anonymous tip line written in Go.  A visitor fills in
  a form; the server packs the fields and the attachments into an archive, encrypts it for the
  receiver's public key, stores it as a case and shows the visitor a code of seven words.  With
  the code the visitor later reads the reply.  The administrator works in a dashboard behind a
  password and a time-based code; a second, duress code wipes the store.  The receiver decrypts
  the downloaded blob on another machine with \<open>cmd/viewer\<close>.

  \<^bold>\<open>Parts and theories.\<close>  Files are those of \<open>internal/kakekomi\<close> unless a directory is named.

  \<^item> \<open>Prelude\<close>, \<open>Go_Strings\<close>, \<open>Codec\<close>, \<open>Sha256\<close>, \<open>Tables\<close>: Go strings and byte slices, errors, runs of a
    machine, the functions of \<open>strings\<close> and \<open>filepath\<close> that the code calls, hex and base64 (as
    instances of the locale of sized codecs), SHA-256 and HMAC, and tables with insertion.
  \<^item> \<open>Os_Model\<close>, \<open>Fs_Laws\<close>: the clock, the entropy stream and the tree of files with a fault per
    operation and path; the laws of reading, writing, making and removing.
  \<^item> \<open>Crypto\<close> (\<open>crypto.go\<close>, \<open>random.go\<close>): envelope, symmetric and receiver encryption, key
    derivation, codes.  The third-party primitives are the record \<open>prims\<close>; \<open>Demo_Prims\<close> is an
    instance that satisfies the laws assumed of them.
  \<^item> \<open>Pow\<close> (\<open>pow.go\<close>), \<open>Padding\<close> (\<open>padding.go\<close>), \<open>Mime\<close> (\<open>mime.go\<close>, \<open>image.go\<close>), \<open>Ustar\<close> and \<open>Tarpack\<close>
    (\<open>tarpack.go\<close>, with \<open>archive/tar\<close> in the format it writes and \<open>encoding/json\<close> of the metadata).
  \<^item> \<open>Shred\<close>, \<open>Store\<close>, \<open>Store_Laws\<close>, \<open>Store_Steps\<close>, \<open>Store_Vault\<close>, \<open>Store_Demo\<close> (\<open>store.go\<close>,
    \<open>gc.go\<close>): the case table with a fault per statement, the blobs below the data directory,
    deletion, sweep and wipe; the store as a machine of operations, and as an implementation of
    an abstract vault.  \<open>Store_Match\<close>: rows and blobs agree.  \<open>Store_Threads\<close>, \<open>Threads_Demo\<close>: the same operations as threads that
    interleave between one SQL statement or file system call and the next.
  \<^item> \<open>Session\<close> (\<open>session.go\<close>); \<open>Config\<close> (\<open>config.go\<close>, \<open>validate.go\<close>), \<open>Rotate\<close> (\<open>rotate.go\<close>), \<open>Json\<close> and
    \<open>Secrets_File\<close> (\<open>secrets.go\<close>), \<open>Init_Cmd\<close> (\<open>init.go\<close>).  \<open>Secrets_Memory\<close>, \<open>Memory_Demo\<close>: the
    buffers in which \<open>secrets.go\<close> holds secrets, and what \<open>zero\<close> does to them.
  \<^item> \<open>Http\<close>: the part of \<open>net/http\<close> the handlers use.  \<open>Pages\<close>, \<open>Submit\<close>, \<open>Visit\<close>, \<open>Admin\<close>, \<open>Routes\<close>
    (\<open>handlers.go\<close>, \<open>templates.go\<close>, the middleware of \<open>server.go\<close>): every handler, as a function from
    request, response under construction and server state to response and state.  \<open>Submit_Laws\<close>,
    \<open>Visit_Laws\<close>, \<open>Serve_Laws\<close>, \<open>Serve_Effects\<close>, \<open>Accept\<close>, \<open>Access\<close>, \<open>Http_Demo\<close> hold what is proved of them;
    \<open>Response_Types\<close> is the table of everything the server can answer.
  \<^item> \<open>Tor_Control\<close> (\<open>tor.go\<close>), \<open>Tor_Setup\<close> (\<open>setupTor\<close> of \<open>server.go\<close>), \<open>Server\<close> (\<open>Run\<close> of \<open>server.go\<close>),
    \<open>Server_Demo\<close>; \<open>Server_Life\<close> (the rest of \<open>Run\<close>, \<open>process_linux.go\<close>, \<open>process_other.go\<close>).
  \<^item> \<open>Viewer\<close>, \<open>Viewer_Opens\<close> (\<open>cmd/viewer/main.go\<close>): decryption and extraction.
  \<^item> \<open>Flags\<close>, \<open>Cli\<close>, \<open>Cli_Demo\<close> (\<open>cmd/kakekomi/main.go\<close>, \<open>main\<close> of \<open>cmd/viewer/main.go\<close>, the flags of every
    command): package \<open>flag\<close>, the choice of the command, exit status and disclosures.

  \<^bold>\<open>State.\<close>  The record \<open>os\<close> (clock, entropy, files, faults) is extended by \<open>shred_os\<close> with the log of
  overwrites, by \<open>world\<close> with the database and the data directory, and by \<open>server\<close> with the
  sessions; operations are polymorphic in what extends the part they use, as the Go functions
  are in what surrounds them.  Errors are values: \<open>error + 'a\<close> for \<open>(T, error)\<close>, \<open>error option\<close> for
  \<open>error\<close>.  Every call that can fail has its failing branch, driven by the faults.

  \<^bold>\<open>What is shown.\<close>  From the request to the receiver: a submission leaves the table as it was or adds
  one case whose blob decrypts to the packed envelope, or it fails and leaves a row behind because
  the database refused to take it back; it is accepted on a healthy server, and the viewer unpacks it byte for byte; a reply saved in the dashboard reaches the visitor.  No
  request, sweep, fault or restart loses a case before it expires, except the duress login;
  where nothing that removes is refused, every case has its blob and every file below the blob
  directory belongs to a case, in every reachable state; and operations that succeed are those of
  an abstract vault of cases, submissions and replies.  The dashboard is closed without a
  session and a CSRF token; a session opens exactly under the stated conditions, and no other
  request opens one; the duress login wipes the table and answers like a failed login, at the
  same time unless the wipe takes longer than the floor.  Pages are padded, answers keep their
  time floors, every response carries the security headers.  The server starts exactly when
  configuration, lock, passphrase and store are in order; rotation and initialisation leave a
  configuration that loads or is refused, never an unpinned key; a receiver key that was replaced
  after \<open>init\<close> is not served, unless the configuration names a lock file of its own.  The Tor daemon is sent only
  well-formed single-line commands, whatever the files say; whatever it refuses, a stored onion key
  never comes back with another address.
  The viewer writes nothing outside its output directory, whatever the archive says.

  Under concurrency: the operations cut into their calls are the operations when they run alone,
  each returns after finitely many calls of its own, and in every interleaving without a wipe
  submissions stay apart and no unexpired case is lost; with a wipe a submission can leave a blob
  behind, as a concrete run shows.  At the command line: the exit status, that a wrong command
  line changes nothing, and that \<open>run\<close> serves what \<open>init\<close> prepared.  In memory: \<open>LoadSecrets\<close> clears
  the master key and the plain secrets on every path, while the passphrase stays.  Every answer
  is a page on data of its fixed shape, the style sheet, the blob of a case, a redirect to a fixed
  place, or a line out of a fixed table.

  \<^bold>\<open>Interfaces.\<close>  Locales state the contracts used by several clients: the codecs, the file store
  behind the laws of reading and writing, tables, and \<open>case_machine\<close>, the contract by which the
  operations of the store and the events of the server keep cases over whole runs.  Each is
  interpreted on the definitions of the model in the theory that provides them.

  \<^bold>\<open>Assumed of code outside the repository.\<close>  \<open>aead_correct\<close>, \<open>age_correct\<close>, \<open>argon2_sized\<close> and
  \<open>wordlist_ok\<close> for the cryptographic libraries, \<open>yaml_keeps\<close> for the YAML codec.  Of the Tor
  daemon, \<open>tor_daemon_ok\<close>: it may refuse any command with any code or close the connection, and
  when it accepts a registration the address belongs to the key.  Templates, image codecs and the archive reader of the viewer are parameters
  about which nothing is assumed.

  \<^bold>\<open>Bounds.\<close>  Loops of the source are structural recursion or recursion with a measure, so none needs
  fuel; the five attempts of \<open>CreateCase\<close> are the bound of the source, and make at most 17 calls.
  Archive members are below \<open>8 ^ 11\<close> bytes, the size field of the format, and the number of
  attachments below \<open>10 ^ 9\<close>, so that names fit their field.

  \<^bold>\<open>Not modelled.\<close>  Handlers run to their end one after the other: only the operations of the store
  interleave, the session map is behind a mutex, and \<open>shredDir\<close> of one directory is one step.  Of the
  operations only \<open>Wipe\<close> takes time, the parameter \<open>wipe_time\<close>, and the clock of a response is that of
  the end of its handler: when \<open>net/http\<close> sends the first bytes is not modelled.  Work whose
  result is dropped, as the dummy derivations of a failed lookup.  The connections, time-outs and parsing of \<open>net/http\<close> (its listening and shutdown are events with a
  result); the contents of templates and the style sheet, which are text; the usage texts, which
  are constants; \<open>prettyPrintMeta\<close> of the viewer, which only prints; \<open>SecureBuffer\<close>, which wraps a
  third-party call and has no caller; what the Go runtime and the libraries copy in memory; file
  modes.
\<close>

end
